(* ===== verification/Prelude.thy ===== *)
theory Prelude
  imports Main "HOL-Library.Word" "HOL-Library.Multiset" "HOL-Library.Monad_Syntax"
begin

text \<open>
  Shared vocabulary of the development: the machine integers of the C++ sources, the
  collections of rewrite rules the component theories fill, the concept \<open>PowerOfTwo\<close> of
  \<^verbatim>\<open>common.hpp\<close>, and the facts on masks, wrap-around and circular windows that the ring,
  the frame allocator and the transmitter share.

  A fault (a failed \<open>assert\<close>, an access outside an array or a mapping) is the value
  \<open>None\<close> of an option: a theorem that an operation returns \<open>Some\<close> says that the source
  neither asserts nor reads or writes out of range.
\<close>

unbundle bit_operations_syntax

type_synonym u8 = "8 word"
type_synonym u16 = "16 word"
type_synonym u32 = "32 word"
type_synonym u64 = "64 word"

named_theorems ring_defs \<open>definitions of the ring operations\<close>
named_theorems alloc_defs \<open>definitions of the frame allocator\<close>
named_theorems xsk_defs \<open>definitions of the socket's hot path\<close>
named_theorems tx_defs \<open>definitions of the transmitter\<close>

section \<open>The concept PowerOfTwo\<close>

text \<open>\<^verbatim>\<open>concept PowerOfTwo = (N > 0) && ((N & (N - 1)) == 0)\<close>\<close>

definition PowerOfTwo :: "'a::len word \<Rightarrow> bool" where
  "PowerOfTwo N \<longleftrightarrow> N > 0 \<and> (N AND (N - 1)) = 0"

section \<open>Circular windows\<close>

text \<open>
  The \<open>k\<close> entries of the array \<open>ds\<close> that follow the free-running index \<open>x\<close>.
\<close>

definition window :: "'d list \<Rightarrow> u32 \<Rightarrow> nat \<Rightarrow> 'd list" where
  "window ds x k = map (\<lambda>i. ds ! ((unat x + i) mod length ds)) [0..<k]"

section \<open>Powers of two and masks\<close>

lemma nat_and_pred_zero_imp_pow2:
  "0 < m \<Longrightarrow> (m AND (m - 1)) = 0 \<Longrightarrow> \<exists>k. m = 2 ^ k" for m :: nat
proof (induction m rule: less_induct)
  case (less m)
  show ?case
  proof (cases "even m")
    case True
    then obtain a where a: "m = 2 * a" by (elim evenE)
    with less.prems have "0 < a" by simp
    have "(m AND (m - 1)) = 2 * (a AND (a - 1))"
    proof -
      have "m - 1 = 2 * (a - 1) + 1" using a \<open>0 < a\<close> by simp
      then show ?thesis using a by (subst and_rec) simp
    qed
    with less.prems have "(a AND (a - 1)) = 0" by simp
    with less.IH [of a] a \<open>0 < a\<close> obtain k where "a = 2 ^ k" by auto
    with a have "m = 2 ^ Suc k" by simp
    then show ?thesis by blast
  next
    case False
    then obtain a where a: "m = Suc (2 * a)" by (elim oddE) simp
    have "(m AND (m - 1)) = 2 * a"
      using a by (subst and_rec) simp
    with less.prems a have "m = 2 ^ 0" by simp
    then show ?thesis by blast
  qed
qed

lemma PowerOfTwo_iff:
  "PowerOfTwo (N :: 'a::len word) \<longleftrightarrow> (\<exists>k < LENGTH('a). N = 2 ^ k)"
proof
  assume "PowerOfTwo N"
  then have pos: "0 < unat N" and "(N AND (N - 1)) = 0"
    by (auto simp: PowerOfTwo_def unat_gt_0 word_gt_0)
  then have "(unat N AND (unat N - 1)) = 0"
    by (metis unat_0 unat_minus_one unsigned_and_eq word_gt_0 unat_gt_0)
  with pos obtain k where k: "unat N = 2 ^ k"
    using nat_and_pred_zero_imp_pow2 by blast
  moreover have "unat N < 2 ^ LENGTH('a)" by (rule unsigned_less)
  ultimately have "k < LENGTH('a)" by simp
  moreover from k have "N = 2 ^ k"
    by (metis of_nat_numeral of_nat_power of_nat_unat ucast_id)
  ultimately show "\<exists>k < LENGTH('a). N = 2 ^ k" by blast
next
  assume "\<exists>k < LENGTH('a). N = 2 ^ k"
  then obtain k where k: "k < LENGTH('a)" and N: "N = 2 ^ k" by blast
  have "(N AND (N - 1)) = 0"
    using N by (intro bit_word_eqI)
      (auto simp: bit_and_iff bit_exp_iff bit_mask_iff simp flip: mask_eq_exp_minus_1)
  moreover have "0 < N"
    using k N by (simp add: word_gt_0)
  ultimately show "PowerOfTwo N" by (simp add: PowerOfTwo_def)
qed

lemma unat_two_power: "k < LENGTH('a) \<Longrightarrow> unat (2 ^ k :: 'a::len word) = 2 ^ k"
proof -
  assume k: "k < LENGTH('a)"
  have "unat (of_nat (2 ^ k) :: 'a word) = take_bit LENGTH('a) (2 ^ k)"
    by (simp only: unsigned_of_nat of_nat_id)
  with k show ?thesis by (simp add: take_bit_nat_eq_self)
qed

lemma PowerOfTwo_obtain:
  assumes "PowerOfTwo (N :: 'a::len word)"
  obtains k where "k < LENGTH('a)" and "N = 2 ^ k" and "unat N = 2 ^ k"
  using assms unfolding PowerOfTwo_iff by (auto simp: unat_two_power)

lemma PowerOfTwo_unat_dvd: "PowerOfTwo (N :: 'a::len word) \<Longrightarrow> unat N dvd 2 ^ LENGTH('a)"
  by (elim PowerOfTwo_obtain) (simp add: le_imp_power_dvd)

lemma PowerOfTwo_unat_pos: "PowerOfTwo N \<Longrightarrow> 0 < unat N"
  by (auto simp: PowerOfTwo_def unat_gt_0 word_gt_0)

lemma unat_take_bit: "unat (take_bit k (x :: 'a::len word)) = unat x mod 2 ^ k"
proof -
  have "unat (take_bit k x) = take_bit k (unat x)" by (rule unsigned_take_bit_eq)
  then show ?thesis by (simp only: take_bit_eq_mod)
qed

text \<open>Masking with \<open>N - 1\<close> is the remainder by \<open>N\<close>.\<close>

lemma unat_and_pred_PowerOfTwo:
  assumes "PowerOfTwo (N :: 'a::len word)"
  shows "unat (x AND (N - 1)) = unat x mod unat N"
proof -
  from assms obtain k where "k < LENGTH('a)" and N: "N = 2 ^ k" and u: "unat N = 2 ^ k"
    by (rule PowerOfTwo_obtain)
  have "x AND (N - 1) = take_bit k x"
    by (simp add: N take_bit_eq_mask mask_eq_exp_minus_1)
  then show ?thesis by (simp only: u unat_take_bit)
qed

section \<open>Wrap-around of free-running indices\<close>

lemma unat_add_of_nat: "unat (x + of_nat k :: u32) = (unat x + k) mod 2 ^ 32"
  by (simp add: unat_word_ariths unsigned_of_nat take_bit_eq_mod mod_simps)

lemma unat_of_nat_small [simp]: "k < 2 ^ 32 \<Longrightarrow> unat (of_nat k :: u32) = k"
  by (simp add: unsigned_of_nat take_bit_nat_eq_self)

lemma unat_bound: "unat (x :: 'a::len word) < 2 ^ LENGTH('a)"
  by (rule unsigned_less)

lemma u32_bound: "unat (x :: u32) < 2 ^ 32"
  using unsigned_less [of x] by simp

lemma u64_bound: "unat (x :: u64) < 2 ^ 64"
  using unsigned_less [of x] by simp

lemma unat_ucast_u32_u64 [simp]: "unat (ucast (x :: u32) :: u64) = unat x"
  by (simp add: unsigned_ucast_eq take_bit_nat_eq_self_iff order_less_trans [OF u32_bound])

lemma unat_inc: "x < y \<Longrightarrow> unat (x + 1 :: 'a::len word) = Suc (unat x)" for x y :: "'a::len word"
proof -
  assume "x < y"
  then have "unat x < unat y" by (simp add: word_less_nat_alt)
  with unat_bound [of y] have "Suc (unat x) < 2 ^ LENGTH('a)" by linarith
  then show ?thesis by (simp add: unat_word_ariths)
qed

lemma unat_Suc_less: "x < y \<Longrightarrow> unat y - unat (x + 1 :: 'a::len word) < unat y - unat x"
  by (simp add: unat_inc word_less_nat_alt)

lemma unat_of_nat_le: "k \<le> unat (n :: 'a::len word) \<Longrightarrow> unat (of_nat k :: 'a word) = k"
  using le_less_trans [OF _ unsigned_less [where 'b = 'a and 'a = nat]]
  by (simp add: unsigned_of_nat take_bit_nat_eq_self)

lemma of_nat_unat_u32 [simp]: "of_nat (unat (x :: 'a::len word)) = x"
  by simp

lemma slot_add:
  assumes "n dvd 2 ^ 32"
  shows "(unat (x + of_nat k :: u32) + i) mod n = (unat x + (k + i)) mod n"
proof -
  have "((unat x + k) mod 2 ^ 32) mod n = (unat x + k) mod n"
    using assms by (rule mod_mod_cancel)
  then have "((unat x + k) mod 2 ^ 32 + i) mod n = (unat x + k + i) mod n"
    by (metis mod_add_left_eq)
  then show ?thesis by (simp add: unat_add_of_nat add.assoc)
qed

text \<open>
  A consumer index that has moved \<open>d\<close> steps towards the producer leaves \<open>d\<close> entries fewer.
\<close>

lemma unat_diff_advance:
  fixes a b c :: "'a::len word"
  assumes "unat (b - c) \<le> unat (a - c)"
  shows "unat (a - b) = unat (a - c) - unat (b - c)"
proof -
  have "a - b = (a - c) - (b - c)" by simp
  moreover have "unat ((a - c) - (b - c)) = unat (a - c) - unat (b - c)"
    using assms by (intro unat_sub) (simp add: word_le_nat_alt)
  ultimately show ?thesis by simp
qed

lemma unat_diff_add:
  fixes a b :: "'a::len word"
  assumes "unat (a - b) + k < 2 ^ LENGTH('a)"
  shows "unat (a + of_nat k - b) = unat (a - b) + k"
proof -
  have "unat (d + of_nat k) = unat d + k" if "unat d + k < 2 ^ LENGTH('a)" for d :: "'a word"
    using that by (simp add: unat_word_ariths unsigned_of_nat take_bit_nat_eq_self)
  from this [OF assms] show ?thesis by (simp add: algebra_simps)
qed

lemma unat_diff_sub:
  fixes a b :: "'a::len word"
  assumes "k \<le> unat (a - b)"
  shows "unat (a - (b + of_nat k)) = unat (a - b) - k"
proof -
  have "k < 2 ^ LENGTH('a)"
    using assms unsigned_less [of "a - b"] by (rule le_less_trans)
  then have k: "unat (of_nat k :: 'a word) = k"
    by (simp add: unsigned_of_nat take_bit_nat_eq_self)
  have "a - (b + of_nat k) = (a - b) - of_nat k" by simp
  moreover have "unat ((a - b) - of_nat k) = unat (a - b) - unat (of_nat k :: 'a word)"
    using assms k by (intro unat_sub) (simp add: word_le_nat_alt)
  ultimately show ?thesis by (simp only: k)
qed

section \<open>Windows of a circular array\<close>

lemma length_window [simp]: "length (window ds x k) = k"
  by (simp add: window_def)

lemma window_0 [simp]: "window ds x 0 = []"
  by (simp add: window_def)

lemma nth_window: "i < k \<Longrightarrow> window ds x k ! i = ds ! ((unat x + i) mod length ds)"
  by (simp add: window_def)

lemma window_add:
  assumes "length ds dvd 2 ^ 32"
  shows "window ds x (a + b) = window ds x a @ window ds (x + of_nat a) b"
proof (rule nth_equalityI)
  fix i assume "i < length (window ds x (a + b))"
  then have i: "i < a + b" by simp
  show "window ds x (a + b) ! i = (window ds x a @ window ds (x + of_nat a) b) ! i"
  proof (cases "i < a")
    case False
    then obtain d where "i = a + d" using le_Suc_ex [of a i] by auto
    with i show ?thesis by (simp add: nth_append nth_window slot_add [OF assms])
  qed (use i in \<open>simp add: nth_append nth_window\<close>)
qed simp

lemma window_drop:
  assumes "length ds dvd 2 ^ 32" and "a \<le> k"
  shows "drop a (window ds x k) = window ds (x + of_nat a) (k - a)"
  using window_add [OF assms(1), of x a "k - a"] assms(2) by simp

lemma window_take: "a \<le> k \<Longrightarrow> take a (window ds x k) = window ds x a"
  by (simp add: window_def take_map)

text \<open>Writing \<open>j\<close> slots after \<open>x\<close>: inside the window one entry changes, outside none.\<close>

lemma mod_add_inj:
  fixes x i j n :: nat
  assumes "i < n" "j < n" "(x + i) mod n = (x + j) mod n"
  shows "i = j"
proof -
  have *: "i = j" if "i \<le> j" "j < n" "(x + j) mod n = (x + i) mod n" for i j
  proof -
    from that have "n dvd (x + j) - (x + i)"
      by (subst mod_eq_dvd_iff_nat [symmetric]) auto
    with that have "n dvd j - i" by simp
    moreover from that have "j - i < n" by simp
    ultimately show ?thesis using that(1) by (auto dest: dvd_imp_le)
  qed
  show ?thesis
    using * [of i j] * [of j i] assms by (cases "i \<le> j") auto
qed

lemma window_update_outside:
  assumes "k \<le> j" "j < length ds"
  shows "window (ds[(unat x + j) mod length ds := v]) x k = window ds x k"
proof (rule nth_equalityI)
  fix i assume "i < length (window (ds[(unat x + j) mod length ds := v]) x k)"
  then have i: "i < k" by simp
  then have "(unat x + i) mod length ds \<noteq> (unat x + j) mod length ds"
    using assms mod_add_inj [of i "length ds" j "unat x"] by auto
  then show "window (ds[(unat x + j) mod length ds := v]) x k ! i = window ds x k ! i"
    using i by (simp add: nth_window)
qed simp

lemma window_update_last:
  assumes "j < length ds"
  shows "window (ds[(unat x + j) mod length ds := v]) x (Suc j) = window ds x j @ [v]"
proof -
  have split: "window es x (Suc j) = window es x j @ [es ! ((unat x + j) mod length es)]" for es :: "'b list"
    by (simp add: window_def)
  have "(unat x + j) mod length ds < length ds"
    using assms by (intro mod_less_divisor) auto
  then show ?thesis using assms
    by (simp add: split window_update_outside)
qed

section \<open>Multisets\<close>

text \<open>A transfer between two owners, as a balance of multisets.\<close>

lemma mset_transfer:
  fixes F :: "'a multiset"
  assumes "F = t + F'" "K' + r = K + t"
  shows "F' + K' + (R + r) = F + K + R"
proof -
  have "F' + K' + (R + r) = F' + (K' + r) + R" by (simp add: ac_simps)
  also have "\<dots> = F + K + R" by (simp add: assms ac_simps)
  finally show ?thesis .
qed

end
