(* ===== verification/Ring.thy ===== *)
theory Ring
  imports Prelude
begin

text \<open>
  \<^verbatim>\<open>include/afxdp/ring.hpp\<close>: the single-producer single-consumer rings that the worker shares
  with the kernel. A ring is the user's handle (\<open>MmapRing\<close>: the mapping, the pointers into it, the
  size, the mask and the two cached indices) together with the memory behind the pointers
  (\<open>shm\<close>: the words \<open>*producer_\<close>, \<open>*consumer_\<close>, \<open>*flags_\<close> and the array \<open>descs_\<close>), which the
  kernel also writes. Loads and stores are sequentially consistent here; the acquire and release
  annotations of the source are not modelled.

  The indices are free-running 32-bit words. The abstraction \<open>ring_queue\<close> reads a ring as the FIFO
  list of its published entries; \<open>prod_inv\<close> and \<open>cons_inv\<close> are the invariants of the two roles a
  user can have, and the locales \<open>ring_producer\<close> and \<open>ring_consumer\<close> the contracts that the
  socket, the transmitter and the receiver rely on.
\<close>

section \<open>Data\<close>

datatype RingKind = Rx | Tx | Fill | Completion

record Range =
  amount :: u32
  start :: u32

record 'd shm =
  sh_producer :: u32
  sh_consumer :: u32
  sh_flags :: u32
  sh_descs :: "'d list"

record MmapRing =
  map_base :: int
  map_size :: u64
  producer_ptr :: int
  consumer_ptr :: int
  descs_ptr :: int
  flags_ptr :: int
  num_descs :: u32
  mask_word :: u32
  cached_prod :: u32
  cached_cons :: u32

text \<open>The flag bit of \<^verbatim>\<open>linux/if_xdp.h\<close>.\<close>

definition XDP_RING_NEED_WAKEUP :: u32 where
  "XDP_RING_NEED_WAKEUP = 1"

section \<open>Operations\<close>

text \<open>\<^verbatim>\<open>descs_[i & mask_]\<close>, read and written; outside the array is a fault.\<close>

definition desc_at :: "u32 \<Rightarrow> MmapRing \<Rightarrow> 'd shm \<Rightarrow> 'd option" where
  "desc_at i r s =
     (let j = unat (i AND mask_word r)
      in if j < length (sh_descs s) then Some (sh_descs s ! j) else None)"

definition desc_put :: "u32 \<Rightarrow> 'd \<Rightarrow> MmapRing \<Rightarrow> 'd shm \<Rightarrow> 'd shm option" where
  "desc_put i v r s =
     (let j = unat (i AND mask_word r)
      in if j < length (sh_descs s) then Some (s\<lparr>sh_descs := (sh_descs s)[j := v]\<rparr>) else None)"

definition need_wakeup :: "'d shm \<Rightarrow> bool" where
  "need_wakeup s \<longleftrightarrow> (sh_flags s AND XDP_RING_NEED_WAKEUP) \<noteq> 0"

definition capacity :: "MmapRing \<Rightarrow> u32" where
  "capacity r = num_descs r"

definition readable_range :: "u32 \<Rightarrow> MmapRing \<Rightarrow> 'd shm \<Rightarrow> Range \<times> MmapRing" where
  "readable_range batch_size r s =
     (let entries = cached_prod r - cached_cons r;
          r = (if entries = 0 then r\<lparr>cached_prod := sh_producer s\<rparr> else r);
          entries = (if entries = 0 then cached_prod r - cached_cons r else entries);
          entries = (if entries > batch_size then batch_size else entries)
      in (\<lparr>amount = entries, start = cached_cons r\<rparr>, r))"

definition release_consumed_entries :: "u32 \<Rightarrow> MmapRing \<Rightarrow> 'd shm \<Rightarrow> MmapRing \<times> 'd shm" where
  "release_consumed_entries n r s =
     (let r = r\<lparr>cached_cons := cached_cons r + n\<rparr>
      in (r, s\<lparr>sh_consumer := cached_cons r\<rparr>))"

definition queued_entry_count :: "'d shm \<Rightarrow> u32" where
  "queued_entry_count s = (let prod = sh_producer s; cons = sh_consumer s in prod - cons)"

definition writable_range :: "u32 \<Rightarrow> MmapRing \<Rightarrow> 'd shm \<Rightarrow> Range \<times> MmapRing" where
  "writable_range n r s =
     (let free_n = num_descs r - (cached_prod r - cached_cons r);
          r = (if free_n < n then r\<lparr>cached_cons := sh_consumer s\<rparr> else r);
          free_n = (if free_n < n then num_descs r - (cached_prod r - cached_cons r) else free_n);
          n = (if free_n < n then free_n else n)
      in (\<lparr>amount = n, start = cached_prod r\<rparr>, r))"

definition publish_written_entries :: "u32 \<Rightarrow> MmapRing \<Rightarrow> 'd shm \<Rightarrow> MmapRing \<times> 'd shm" where
  "publish_written_entries n r s =
     (let r = r\<lparr>cached_prod := cached_prod r + n\<rparr>
      in (r, s\<lparr>sh_producer := cached_prod r\<rparr>))"

declare desc_at_def [ring_defs] desc_put_def [ring_defs] capacity_def [ring_defs]
  readable_range_def [ring_defs] release_consumed_entries_def [ring_defs]
  queued_entry_count_def [ring_defs] writable_range_def [ring_defs]
  publish_written_entries_def [ring_defs]

section \<open>The ring as a queue\<close>

definition ring_queue :: "'d shm \<Rightarrow> 'd list" where
  "ring_queue s = window (sh_descs s) (sh_consumer s) (unat (sh_producer s - sh_consumer s))"

text \<open>The slots a producer has written but not yet published.\<close>

definition ring_pending :: "MmapRing \<Rightarrow> 'd shm \<Rightarrow> nat \<Rightarrow> 'd list" where
  "ring_pending r s k = window (sh_descs s) (cached_prod r) k"

text \<open>The free slots the producer knows of; the consumer may have freed more since.\<close>

definition ring_room :: "MmapRing \<Rightarrow> nat" where
  "ring_room r = unat (num_descs r - (cached_prod r - cached_cons r))"

text \<open>The shared words are consistent: a power-of-two array and no more entries than slots.\<close>

definition shm_ok :: "u32 \<Rightarrow> 'd shm \<Rightarrow> bool" where
  "shm_ok n s \<longleftrightarrow> PowerOfTwo n \<and> length (sh_descs s) = unat n \<and>
     unat (sh_producer s - sh_consumer s) \<le> unat n"

definition ring_geometry :: "u32 \<Rightarrow> MmapRing \<Rightarrow> bool" where
  "ring_geometry n r \<longleftrightarrow> num_descs r = n \<and> mask_word r = n - 1"

text \<open>
  The user produces (fill and TX rings): the producer word is the user's, and the cached consumer
  index lags behind the shared one.
\<close>

definition prod_inv :: "u32 \<Rightarrow> MmapRing \<Rightarrow> 'd shm \<Rightarrow> bool" where
  "prod_inv n r s \<longleftrightarrow> shm_ok n s \<and> ring_geometry n r \<and> cached_prod r = sh_producer s \<and>
     unat (sh_consumer s - cached_cons r) \<le> unat (cached_prod r - cached_cons r) \<and>
     unat (cached_prod r - cached_cons r) \<le> unat n"

text \<open>
  The user consumes (RX and completion rings): the consumer word is the user's, and the cached
  producer index lags behind the shared one.
\<close>

definition cons_inv :: "u32 \<Rightarrow> MmapRing \<Rightarrow> 'd shm \<Rightarrow> bool" where
  "cons_inv n r s \<longleftrightarrow> shm_ok n s \<and> ring_geometry n r \<and> cached_cons r = sh_consumer s \<and>
     unat (cached_prod r - cached_cons r) \<le> unat (sh_producer s - sh_consumer s)"

section \<open>Contracts of the two roles\<close>

text \<open>
  What a producer's client relies on: a query grants as many slots as are free; filling slot \<open>j\<close>
  of the granted room extends the pending prefix and leaves the published queue alone; publishing
  appends the pending prefix.
\<close>

locale ring_producer =
  fixes inv :: "'r \<Rightarrow> 's \<Rightarrow> bool"
    and size_of :: nat
    and queue :: "'s \<Rightarrow> 'd list"
    and room :: "'r \<Rightarrow> nat"
    and pending :: "'r \<Rightarrow> 's \<Rightarrow> nat \<Rightarrow> 'd list"
    and writable :: "nat \<Rightarrow> 'r \<Rightarrow> 's \<Rightarrow> nat \<times> 'r"
    and put :: "nat \<Rightarrow> 'd \<Rightarrow> 'r \<Rightarrow> 's \<Rightarrow> 's option"
    and publish :: "nat \<Rightarrow> 'r \<Rightarrow> 's \<Rightarrow> 'r \<times> 's"
  assumes room_bound: "inv r s \<Longrightarrow> length (queue s) + room r \<le> size_of"
    and writable_amount: "inv r s \<Longrightarrow> q \<le> size_of \<Longrightarrow> writable q r s = (k, r') \<Longrightarrow>
      k = min q (size_of - length (queue s)) \<and> k \<le> room r'"
    and writable_inv: "inv r s \<Longrightarrow> q \<le> size_of \<Longrightarrow> writable q r s = (k, r') \<Longrightarrow> inv r' s"
    and writable_pending: "writable q r s = (k, r') \<Longrightarrow> pending r' s j = pending r s j"
    and put_total: "inv r s \<Longrightarrow> j < room r \<Longrightarrow> \<exists>s'. put j v r s = Some s'"
    and put_inv: "inv r s \<Longrightarrow> j < room r \<Longrightarrow> put j v r s = Some s' \<Longrightarrow> inv r s'"
    and put_queue: "inv r s \<Longrightarrow> j < room r \<Longrightarrow> put j v r s = Some s' \<Longrightarrow> queue s' = queue s"
    and put_pending: "inv r s \<Longrightarrow> j < room r \<Longrightarrow> put j v r s = Some s' \<Longrightarrow>
      pending r s' (Suc j) = pending r s j @ [v]"
    and pending_0: "pending r s 0 = []"
    and publish_inv: "inv r s \<Longrightarrow> k \<le> room r \<Longrightarrow> publish k r s = (r', s') \<Longrightarrow> inv r' s'"
    and publish_queue: "inv r s \<Longrightarrow> k \<le> room r \<Longrightarrow> publish k r s = (r', s') \<Longrightarrow>
      queue s' = queue s @ pending r s k"
    and publish_room: "inv r s \<Longrightarrow> k \<le> room r \<Longrightarrow> publish k r s = (r', s') \<Longrightarrow> room r' = room r - k"
begin

text \<open>Writing a list into consecutive slots, from slot \<open>j\<close> on.\<close>

fun put_list :: "nat \<Rightarrow> 'd list \<Rightarrow> 'r \<Rightarrow> 's \<Rightarrow> 's option" where
  "put_list j [] r s = Some s"
| "put_list j (v # vs) r s = Option.bind (put j v r s) (put_list (Suc j) vs r)"

lemma put_list_ok:
  "inv r s \<Longrightarrow> j + length vs \<le> room r \<Longrightarrow>
   \<exists>s'. put_list j vs r s = Some s' \<and> inv r s' \<and> queue s' = queue s \<and>
     pending r s' (j + length vs) = pending r s j @ vs"
proof (induction vs arbitrary: j s)
  case Nil
  then show ?case by simp
next
  case (Cons v vs)
  then have room: "j < room r" by simp
  with Cons.prems(1) obtain t where t: "put j v r s = Some t"
    using put_total by blast
  note facts = put_inv [OF Cons.prems(1) room t] put_queue [OF Cons.prems(1) room t]
    put_pending [OF Cons.prems(1) room t]
  from facts Cons.prems(2) obtain s' where "put_list (Suc j) vs r t = Some s'" "inv r s'"
      "queue s' = queue t" "pending r s' (Suc j + length vs) = pending r t (Suc j) @ vs"
    using Cons.IH [of t "Suc j"] by auto
  with t facts show ?case by simp
qed

text \<open>A batch that fits the free slots is granted, written and published in order.\<close>

lemma put_list_publish:
  assumes "inv r s" "length (queue s) + length vs \<le> size_of"
  shows "\<exists>r0 s' r' s''. writable (length vs) r s = (length vs, r0) \<and> put_list 0 vs r0 s = Some s' \<and>
     publish (length vs) r0 s' = (r', s'') \<and> inv r' s'' \<and> queue s'' = queue s @ vs"
proof -
  obtain k r0 where w: "writable (length vs) r s = (k, r0)" by (rule prod.exhaust)
  from assms have "length vs \<le> size_of" by simp
  note q = writable_amount [OF assms(1) this w] writable_inv [OF assms(1) this w]
  with assms(2) have k: "k = length vs" and room: "length vs \<le> room r0" by auto
  from q room obtain s' where s': "put_list 0 vs r0 s = Some s'" "inv r0 s'" "queue s' = queue s"
      "pending r0 s' (length vs) = vs"
    using put_list_ok [of r0 s 0 vs] by (auto simp: pending_0)
  obtain r' s'' where p: "publish (length vs) r0 s' = (r', s'')" by (rule prod.exhaust)
  from publish_inv [OF s'(2) room p] publish_queue [OF s'(2) room p] s' p w k show ?thesis
    by auto
qed

end

text \<open>
  What a consumer's client relies on: a query shows a prefix of the queue, entry \<open>i\<close> of the window
  is the \<open>i\<close>-th of the queue, and releasing part of the window drops that prefix.
\<close>

locale ring_consumer =
  fixes inv :: "'r \<Rightarrow> 's \<Rightarrow> bool"
    and queue :: "'s \<Rightarrow> 'd list"
    and seen :: "'r \<Rightarrow> nat"
    and readable :: "'b \<Rightarrow> 'r \<Rightarrow> 's \<Rightarrow> nat \<times> 'r"
    and entry :: "nat \<Rightarrow> 'r \<Rightarrow> 's \<Rightarrow> 'd option"
    and release :: "nat \<Rightarrow> 'r \<Rightarrow> 's \<Rightarrow> 'r \<times> 's"
  assumes seen_bound: "inv r s \<Longrightarrow> seen r \<le> length (queue s)"
    and readable_window: "inv r s \<Longrightarrow> readable b r s = (k, r') \<Longrightarrow> k \<le> seen r' \<and> inv r' s"
    and entry_queue: "inv r s \<Longrightarrow> i < length (queue s) \<Longrightarrow> entry i r s = Some (queue s ! i)"
    and release_inv: "inv r s \<Longrightarrow> k \<le> seen r \<Longrightarrow> release k r s = (r', s') \<Longrightarrow> inv r' s'"
    and release_queue: "inv r s \<Longrightarrow> k \<le> seen r \<Longrightarrow> release k r s = (r', s') \<Longrightarrow>
      queue s' = drop k (queue s)"
begin

text \<open>
  One consumer pass (query, read every entry of the window, release them) takes a prefix off the
  queue: what was read, followed by what is left, is the old queue.
\<close>

lemma consumer_pass:
  assumes "inv r s" "readable b r s = (k, r0)" "release k r0 s = (r', s')"
  shows "\<exists>ds. map (\<lambda>i. entry i r0 s) [0..<k] = map Some ds \<and> queue s = ds @ queue s' \<and> inv r' s'"
proof -
  from readable_window [OF assms(1,2)] have k: "k \<le> seen r0" and inv0: "inv r0 s" by auto
  with seen_bound have "k \<le> length (queue s)" using le_trans by blast
  then have "map (\<lambda>i. entry i r0 s) [0..<k] = map Some (take k (queue s))"
    by (intro nth_equalityI) (auto simp: entry_queue [OF inv0])
  moreover have "queue s = take k (queue s) @ queue s'"
    by (simp add: release_queue [OF inv0 k assms(3)])
  ultimately show ?thesis using release_inv [OF inv0 k assms(3)] by blast
qed

end

section \<open>The rings satisfy the contracts\<close>

lemma length_ring_queue [simp]: "length (ring_queue s) = unat (sh_producer s - sh_consumer s)"
  by (simp add: ring_queue_def)

lemma shm_ok_length: "shm_ok n s \<Longrightarrow> length (sh_descs s) = unat n"
  by (simp add: shm_ok_def)

lemma shm_ok_dvd: "shm_ok n s \<Longrightarrow> length (sh_descs s) dvd 2 ^ 32"
  using PowerOfTwo_unat_dvd [of n] by (simp add: shm_ok_def)

lemma shm_ok_pos: "shm_ok n s \<Longrightarrow> 0 < unat n"
  by (simp add: shm_ok_def PowerOfTwo_unat_pos)

text \<open>\<open>i & mask_\<close> is the free-running index modulo the ring size.\<close>

lemma masked_index:
  assumes "shm_ok n s" "ring_geometry n r"
  shows "unat ((x + of_nat j) AND mask_word r) = (unat x + j) mod length (sh_descs s)"
proof -
  from assms have "unat ((x + of_nat j) AND mask_word r) = unat (x + of_nat j) mod unat n"
    by (simp add: ring_geometry_def shm_ok_def unat_and_pred_PowerOfTwo)
  also have "\<dots> = (unat x + j) mod length (sh_descs s)"
    using slot_add [OF shm_ok_dvd [OF assms(1)], of x j 0] assms(1) by (simp add: shm_ok_length)
  finally show ?thesis .
qed

lemma masked_index_bound:
  assumes "shm_ok n s"
  shows "(x + j) mod length (sh_descs s) < length (sh_descs s)"
  using shm_ok_pos [OF assms] shm_ok_length [OF assms] by simp

text \<open>No index, wrapped or not, leaves the descriptor array.\<close>

lemma desc_at_total:
  assumes "shm_ok n s" "ring_geometry n r"
  shows "\<exists>d. desc_at i r s = Some d"
  using masked_index [OF assms, of i 0] masked_index_bound [OF assms(1), of "unat i" 0]
  by (simp add: desc_at_def)

lemma desc_put_eq:
  assumes "shm_ok n s" "ring_geometry n r"
  shows "desc_put (x + of_nat j) v r s =
    Some (s\<lparr>sh_descs := (sh_descs s)[(unat x + j) mod length (sh_descs s) := v]\<rparr>)"
  using masked_index [OF assms, of x j] masked_index_bound [OF assms(1), of "unat x" j]
  by (simp add: desc_put_def Let_def)

text \<open>Slot \<open>j\<close> after the producer is slot \<open>length queue + j\<close> after the consumer.\<close>

lemma producer_slot:
  assumes "shm_ok n s"
  shows "(unat (sh_producer s) + j) mod length (sh_descs s) =
    (unat (sh_consumer s) + (length (ring_queue s) + j)) mod length (sh_descs s)"
  using slot_add [OF shm_ok_dvd [OF assms], of "sh_consumer s" "length (ring_queue s)" j]
  by simp

lemma prod_inv_room:
  assumes "prod_inv n r s"
  shows "ring_room r = unat n - unat (cached_prod r - cached_cons r)"
    and "length (ring_queue s) =
      unat (cached_prod r - cached_cons r) - unat (sh_consumer s - cached_cons r)"
    and "length (ring_queue s) + ring_room r \<le> unat n"
proof -
  show room: "ring_room r = unat n - unat (cached_prod r - cached_cons r)"
  proof -
    from assms have "cached_prod r - cached_cons r \<le> n" "num_descs r = n"
      by (auto simp: prod_inv_def ring_geometry_def word_le_nat_alt)
    then show ?thesis by (simp only: ring_room_def unat_sub)
  qed
  show occ: "length (ring_queue s) =
      unat (cached_prod r - cached_cons r) - unat (sh_consumer s - cached_cons r)"
    using assms by (auto simp: prod_inv_def intro: unat_diff_advance)
  show "length (ring_queue s) + ring_room r \<le> unat n"
    using assms unfolding room occ by (auto simp: prod_inv_def)
qed

lemma desc_put_pending:
  assumes "prod_inv n r s" "j < ring_room r"
    and "desc_put (cached_prod r + of_nat j) v r s = Some s'"
  shows "prod_inv n r s'" and "ring_queue s' = ring_queue s"
    and "ring_pending r s' (Suc j) = ring_pending r s j @ [v]"
proof -
  let ?ds = "sh_descs s" and ?m = "(unat (cached_prod r) + j) mod length (sh_descs s)"
  from assms(1) have ok: "shm_ok n s" and geo: "ring_geometry n r"
    and cp: "cached_prod r = sh_producer s"
    by (auto simp: prod_inv_def)
  from assms(3) have s': "s' = s\<lparr>sh_descs := ?ds[?m := v]\<rparr>"
    by (simp add: desc_put_eq [OF ok geo])
  have room: "length (ring_queue s) + j < unat n"
    using assms(2) prod_inv_room(3) [OF assms(1)] by simp
  show "prod_inv n r s'"
    using assms(1) unfolding s' prod_inv_def shm_ok_def by (auto simp del: unat_sub_if')
  have "window (?ds[?m := v]) (sh_consumer s) (length (ring_queue s)) =
      window ?ds (sh_consumer s) (length (ring_queue s))"
    unfolding cp producer_slot [OF ok]
    using room ok by (intro window_update_outside) (auto simp: shm_ok_length)
  then show "ring_queue s' = ring_queue s"
    by (simp add: s' ring_queue_def)
  have "window (?ds[?m := v]) (cached_prod r) (Suc j) = window ?ds (cached_prod r) j @ [v]"
    using room ok by (intro window_update_last) (auto simp: shm_ok_length)
  then show "ring_pending r s' (Suc j) = ring_pending r s j @ [v]"
    by (simp add: s' ring_pending_def)
qed

lemma publish_pending:
  assumes "prod_inv n r s" "k \<le> ring_room r"
    and "publish_written_entries (of_nat k) r s = (r', s')"
  shows "prod_inv n r' s'" and "ring_queue s' = ring_queue s @ ring_pending r s k"
    and "ring_room r' = ring_room r - k"
proof -
  let ?c = "sh_consumer s" and ?d = "cached_cons r" and ?p = "sh_producer s"
  from assms(1) have ok: "shm_ok n s" and geo: "ring_geometry n r" and cp: "cached_prod r = ?p"
    and lag: "unat (?c - ?d) \<le> unat (?p - ?d)" and bnd: "unat (?p - ?d) \<le> unat n"
    by (auto simp: prod_inv_def)
  note room = prod_inv_room [OF assms(1), unfolded cp]
  have n32: "unat n < 2 ^ LENGTH(32)" by (rule unsigned_less)
  have occ: "unat (?p + of_nat k - ?c) = unat (?p - ?c) + k"
    using assms(2) room n32 by (intro unat_diff_add) simp
  have cocc: "unat (?p + of_nat k - ?d) = unat (?p - ?d) + k"
    using assms(2) room bnd n32 by (intro unat_diff_add) simp
  from assms(3) have r': "r' = r\<lparr>cached_prod := ?p + of_nat k\<rparr>"
    and s': "s' = s\<lparr>sh_producer := ?p + of_nat k\<rparr>"
    by (auto simp: publish_written_entries_def cp)
  show inv: "prod_inv n r' s'"
    using ok geo lag bnd assms(2) room unfolding prod_inv_def shm_ok_def
    by (auto simp: r' s' occ cocc ring_geometry_def)
  have "window (sh_descs s) ?c (unat (?p - ?c) + k) =
      window (sh_descs s) ?c (unat (?p - ?c)) @ window (sh_descs s) ?p k"
    using window_add [OF shm_ok_dvd [OF ok], of ?c "unat (?p - ?c)" k] by simp
  then show "ring_queue s' = ring_queue s @ ring_pending r s k"
    by (simp add: s' ring_queue_def ring_pending_def occ cp)
  show "ring_room r' = ring_room r - k"
    using prod_inv_room(1) [OF inv] room(1) by (simp add: r' cocc)
qed

text \<open>
  A query grants exactly the requested slots or all the free ones, although it looks at the shared
  consumer index only when the cached one shows too little room.
\<close>

lemma writable_range_grant:
  assumes "prod_inv n r s" "writable_range q r s = (w, r')"
  shows "unat (amount w) = min (unat q) (unat n - length (ring_queue s))"
    and "unat (amount w) \<le> ring_room r'"
    and "start w = cached_prod r" and "prod_inv n r' s" and "cached_prod r' = cached_prod r"
proof -
  let ?c = "sh_consumer s"
  let ?r = "r\<lparr>cached_cons := ?c\<rparr>"
  have inv': "prod_inv n ?r s"
    using assms(1) by (auto simp: prod_inv_def ring_geometry_def shm_ok_def)
  have real: "ring_room ?r = unat n - length (ring_queue s)"
    using prod_inv_room(1) [OF inv'] inv' by (simp add: prod_inv_def)
  have more: "ring_room r \<le> unat n - length (ring_queue s)"
    using prod_inv_room(3) [OF assms(1)] by simp
  have less: "(num_descs t - (cached_prod t - cached_cons t) < q) = (ring_room t < unat q)" for t
    by (simp add: ring_room_def word_less_nat_alt)
  show "unat (amount w) = min (unat q) (unat n - length (ring_queue s))"
  proof (cases "ring_room r < unat q")
    case True
    then show ?thesis
      using assms(2) real less [of r] less [of ?r]
      by (auto simp: writable_range_def Let_def ring_room_def)
  next
    case False
    then show ?thesis
      using assms(2) more less [of r] by (auto simp: writable_range_def Let_def)
  qed
  show "prod_inv n r' s" "start w = cached_prod r" "cached_prod r' = cached_prod r"
    using assms inv' by (auto simp: writable_range_def Let_def split: if_splits)
  show "unat (amount w) \<le> ring_room r'"
    using assms(2) less [of r] less [of ?r]
    by (auto simp: writable_range_def Let_def ring_room_def word_less_nat_alt split: if_splits)
qed

text \<open>A query never loses room the producer already knew of.\<close>

lemma writable_range_room:
  assumes "prod_inv n r s" "writable_range q r s = (w, r')"
  shows "ring_room r \<le> ring_room r'"
proof -
  let ?r = "r\<lparr>cached_cons := sh_consumer s\<rparr>"
  have "prod_inv n ?r s"
    using assms(1) by (auto simp: prod_inv_def ring_geometry_def shm_ok_def)
  then have "ring_room ?r = unat n - length (ring_queue s)"
    by (simp add: prod_inv_room(1)) (simp add: prod_inv_def)
  moreover have "ring_room r \<le> unat n - length (ring_queue s)"
    using prod_inv_room(3) [OF assms(1)] by simp
  ultimately show ?thesis
    using assms(2) by (auto simp: writable_range_def Let_def split: if_splits)
qed

interpretation producer: ring_producer
  "prod_inv n" "unat n" ring_queue ring_room ring_pending
  "\<lambda>q r s. (\<lambda>(w, r'). (unat (amount w), r')) (writable_range (of_nat q) r s)"
  "\<lambda>j v r s. desc_put (cached_prod r + of_nat j) v r s"
  "\<lambda>k r s. publish_written_entries (of_nat k) r s"
  for n :: u32
proof (unfold_locales, goal_cases)
  case (1 r s)
  then show ?case by (rule prod_inv_room(3))
next
  case (2 r s q k r')
  then have "unat (of_nat q :: u32) = q" by (simp only: unat_of_nat_le)
  with 2 show ?case
    using writable_range_grant(1,2) [OF 2(1)] by (force split: prod.splits)
next
  case (3 r s q k r')
  then show ?case using writable_range_grant(4) [OF 3(1)] by (force split: prod.splits)
next
  case (4 q r s k r' j)
  then show ?case
    by (auto simp: writable_range_def Let_def ring_pending_def split: if_splits)
next
  case (5 r s j v)
  then show ?case by (auto simp: prod_inv_def desc_put_eq)
next
  case (6 r s j v s')
  then show ?case by (rule desc_put_pending(1))
next
  case (7 r s j v s')
  then show ?case by (rule desc_put_pending(2))
next
  case (8 r s j v s')
  then show ?case by (rule desc_put_pending(3))
next
  case (9 r s)
  show ?case by (simp add: ring_pending_def)
next
  case (10 r s k r' s')
  then show ?case by (rule publish_pending(1))
next
  case (11 r s k r' s')
  then show ?case by (rule publish_pending(2))
next
  case (12 r s k r' s')
  then show ?case by (rule publish_pending(3))
qed

lemma desc_at_queue:
  assumes "cons_inv n r s" "i < length (ring_queue s)"
  shows "desc_at (cached_cons r + of_nat i) r s = Some (ring_queue s ! i)"
proof -
  from assms(1) have ok: "shm_ok n s" and geo: "ring_geometry n r"
    and cc: "cached_cons r = sh_consumer s"
    by (auto simp: cons_inv_def)
  from assms(2) have "ring_queue s ! i =
      sh_descs s ! ((unat (sh_consumer s) + i) mod length (sh_descs s))"
    by (simp add: ring_queue_def nth_window)
  then show ?thesis
    using masked_index [OF ok geo, of "sh_consumer s" i]
      masked_index_bound [OF ok, of "unat (sh_consumer s)" i]
    by (simp add: desc_at_def cc Let_def)
qed

text \<open>
  A query shows a prefix of the queue, never more than the batch, and an empty one only if the
  queue or the batch is empty: the cached producer index is refreshed as soon as it runs out.
\<close>

lemma readable_range_window:
  assumes "cons_inv n r s" "readable_range b r s = (w, r')"
  shows "unat (amount w) \<le> length (ring_queue s)" and "unat (amount w) \<le> unat b"
    and "start w = cached_cons r" and "cons_inv n r' s" and "cached_cons r' = cached_cons r"
    and "amount w = 0 \<longleftrightarrow> b = 0 \<or> ring_queue s = []"
    and "unat (amount w) \<le> unat (cached_prod r' - cached_cons r')"
proof -
  have qe: "ring_queue s = [] \<longleftrightarrow> sh_producer s = sh_consumer s"
    by (metis length_0_conv length_ring_queue right_minus_eq unat_eq_0)
  let ?e = "cached_prod r - cached_cons r"
  from assms(1) have cc: "cached_cons r = sh_consumer s"
    and lag: "unat ?e \<le> length (ring_queue s)"
    by (auto simp: cons_inv_def)
  have cases: "amount w = (if ?e = 0 then min (sh_producer s - sh_consumer s) b else min ?e b)"
    using assms(2) cc by (auto simp: readable_range_def Let_def min_def)
  show "unat (amount w) \<le> length (ring_queue s)"
    using cases lag by (auto simp: min_def word_le_nat_alt split: if_splits)
  show "unat (amount w) \<le> unat b"
    using cases by (auto simp: min_def word_le_nat_alt split: if_splits)
  show "start w = cached_cons r" "cached_cons r' = cached_cons r" "cons_inv n r' s"
    using assms by (auto simp: readable_range_def Let_def cons_inv_def ring_geometry_def)
  have "?e = 0" if "ring_queue s = []"
    using lag that by (metis le_zero_eq length_0_conv unat_eq_0)
  then show "amount w = 0 \<longleftrightarrow> b = 0 \<or> ring_queue s = []"
    using cases by (auto simp: qe min_def)
  show "unat (amount w) \<le> unat (cached_prod r' - cached_cons r')"
    using assms(2) by (auto simp: readable_range_def Let_def word_less_nat_alt)
qed

lemma release_prefix:
  assumes "cons_inv n r s" "k \<le> unat (cached_prod r - cached_cons r)"
    and "release_consumed_entries (of_nat k) r s = (r', s')"
  shows "cons_inv n r' s'" and "ring_queue s' = drop k (ring_queue s)"
proof -
  let ?c = "sh_consumer s" and ?p = "sh_producer s" and ?q = "cached_prod r"
  from assms(1) have ok: "shm_ok n s" and geo: "ring_geometry n r" and cc: "cached_cons r = ?c"
    and lag: "unat (?q - ?c) \<le> unat (?p - ?c)"
    by (auto simp: cons_inv_def)
  have occ: "unat (?p - (?c + of_nat k)) = unat (?p - ?c) - k"
    using assms(2) lag cc by (intro unat_diff_sub) simp
  have cocc: "unat (?q - (?c + of_nat k)) = unat (?q - ?c) - k"
    using assms(2) cc by (intro unat_diff_sub) simp
  from assms(3) have r': "r' = r\<lparr>cached_cons := ?c + of_nat k\<rparr>"
    and s': "s' = s\<lparr>sh_consumer := ?c + of_nat k\<rparr>"
    by (auto simp: release_consumed_entries_def cc)
  show "cons_inv n r' s'"
    using ok geo lag unfolding cons_inv_def shm_ok_def
    by (auto simp: r' s' occ cocc ring_geometry_def)
  show "ring_queue s' = drop k (ring_queue s)"
    using window_drop [OF shm_ok_dvd [OF ok], of k "unat (?p - ?c)" ?c] assms(2) lag cc
    by (simp add: s' ring_queue_def occ)
qed

interpretation consumer: ring_consumer
  "cons_inv n" ring_queue "\<lambda>r. unat (cached_prod r - cached_cons r)"
  "\<lambda>b r s. (\<lambda>(w, r'). (unat (amount w), r')) (readable_range b r s)"
  "\<lambda>i r s. desc_at (cached_cons r + of_nat i) r s"
  "\<lambda>k r s. release_consumed_entries (of_nat k) r s"
  for n :: u32
proof (unfold_locales, goal_cases)
  case (1 r s)
  then show ?case by (auto simp: cons_inv_def)
next
  case (2 r s b k r')
  then show ?case using readable_range_window(1,4,7) [OF 2(1)] by (force split: prod.splits)
next
  case (3 r s i)
  then show ?case by (rule desc_at_queue)
next
  case (4 r s k r' s')
  then show ?case by (rule release_prefix(1))
next
  case (5 r s k r' s')
  then show ?case by (rule release_prefix(2))
qed

section \<open>Batches\<close>

text \<open>The callers write consecutive slots: \<open>desc_at(start + i) = v\<close> for the entries of a batch.\<close>

fun put_entries :: "u32 \<Rightarrow> 'd list \<Rightarrow> MmapRing \<Rightarrow> 'd shm \<Rightarrow> 'd shm option" where
  "put_entries i [] r s = Some s"
| "put_entries i (v # vs) r s = Option.bind (desc_put i v r s) (put_entries (i + 1) vs r)"

lemma put_entries_put_list:
  "put_entries (cached_prod r + of_nat j) vs r s = producer.put_list j vs r s"
proof (induction vs arbitrary: j s)
  case (Cons v vs)
  have "put_entries (cached_prod r + of_nat j + 1) vs r = producer.put_list (Suc j) vs r"
    using Cons [of "Suc j"] by (intro ext) (simp add: ac_simps)
  then show ?case by simp
qed simp

lemma batch_published:
  assumes inv: "prod_inv n r s" and room: "length (ring_queue s) + length vs \<le> unat n"
    and w: "writable_range (of_nat (length vs)) r s = (w, r0)"
  shows "unat (amount w) = length vs" and "\<exists>s' r' s''. put_entries (start w) vs r0 s = Some s' \<and>
    publish_written_entries (amount w) r0 s' = (r', s'') \<and> prod_inv n r' s'' \<and>
    ring_queue s'' = ring_queue s @ vs"
proof -
  note grant = writable_range_grant [OF inv w]
  from producer.put_list_publish [OF inv room] w obtain s' r' s'' where
    p: "unat (amount w) = length vs" "producer.put_list 0 vs r0 s = Some s'"
      "publish_written_entries (of_nat (length vs)) r0 s' = (r', s'')" "prod_inv n r' s''"
      "ring_queue s'' = ring_queue s @ vs" by auto
  show "unat (amount w) = length vs" by (rule p(1))
  have "start w = cached_prod r0 + of_nat 0" using grant(3,5) by simp
  then have "put_entries (start w) vs r0 s = Some s'" using p(2) put_entries_put_list [of r0 0 vs s] by simp
  moreover have "of_nat (length vs) = amount w" by (metis of_nat_unat_u32 p(1))
  ultimately show "\<exists>s' r' s''. put_entries (start w) vs r0 s = Some s' \<and>
      publish_written_entries (amount w) r0 s' = (r', s'') \<and> prod_inv n r' s'' \<and>
      ring_queue s'' = ring_queue s @ vs" using p by auto
qed

lemma window_consumed:
  assumes inv: "cons_inv n r s" and w: "readable_range b r s = (w, r0)"
    and rel: "release_consumed_entries (amount w) r0 s = (r', s')"
  shows "\<exists>ds. map (\<lambda>i. desc_at (start w + of_nat i) r0 s) [0..<unat (amount w)] = map Some ds \<and>
    ring_queue s = ds @ ring_queue s' \<and> cons_inv n r' s'"
proof -
  note win = readable_range_window [OF inv w]
  have "start w = cached_cons r0" using win(3,5) by simp
  with consumer.consumer_pass [OF inv, of b "unat (amount w)" r0 r' s'] w rel show ?thesis by simp
qed

end
