(* ===== verification/Frame_Alloc.thy ===== *)
theory Frame_Alloc
  imports Prelude
begin

text \<open>
  \<^verbatim>\<open>include/afxdp/frame_alloc.hpp\<close>: the fixed-capacity LIFO stack of UMEM frame offsets. The
  template parameter \<open>CAPACITY\<close> is the length of the array \<open>fa_frames\<close>; the failed \<open>assert\<close>s of the
  constructor and of \<open>free\<close> and an access outside the array are the fault \<open>None\<close>. The locale
  \<open>frame_pool\<close> is the contract the fill path, the transmitter and the receiver rely on.
\<close>

record FrameAllocator =
  fa_frames :: "u64 list"
  fa_count :: u32

definition FrameAllocator_new :: "nat \<Rightarrow> u32 \<Rightarrow> u32 \<Rightarrow> FrameAllocator option" where
  "FrameAllocator_new CAPACITY num_frames frame_size =
     (if unat num_frames \<le> CAPACITY
      then Some \<lparr>fa_frames = fold (\<lambda>i fs. fs[i := of_nat i * ucast frame_size])
                           [0..<unat num_frames] (replicate CAPACITY 0),
                 fa_count = num_frames\<rparr>
      else None)"

definition alloc :: "FrameAllocator \<Rightarrow> (u64 option \<times> FrameAllocator) option" where
  "alloc a =
     (if fa_count a = 0 then Some (None, a)
      else let c = fa_count a - 1
           in if unat c < length (fa_frames a)
              then Some (Some (fa_frames a ! unat c), a\<lparr>fa_count := c\<rparr>) else None)"

definition free :: "u64 \<Rightarrow> FrameAllocator \<Rightarrow> FrameAllocator option" where
  "free offset a =
     (if unat (fa_count a) < length (fa_frames a)
      then Some (a\<lparr>fa_frames := (fa_frames a)[unat (fa_count a) := offset], fa_count := fa_count a + 1\<rparr>)
      else None)"

definition free_count :: "FrameAllocator \<Rightarrow> u32" where
  "free_count a = fa_count a"

declare alloc_def [alloc_defs] free_def [alloc_defs] free_count_def [alloc_defs]

text \<open>The stack of free frames, its top last, and the invariant.\<close>

definition free_frames :: "FrameAllocator \<Rightarrow> u64 list" where
  "free_frames a = take (unat (fa_count a)) (fa_frames a)"

definition alloc_inv :: "nat \<Rightarrow> FrameAllocator \<Rightarrow> bool" where
  "alloc_inv cap a \<longleftrightarrow> length (fa_frames a) = cap \<and> cap < 2 ^ 32 \<and> unat (fa_count a) \<le> cap"

text \<open>The offsets of the frames of a UMEM area.\<close>

definition umem_frames :: "u32 \<Rightarrow> u32 \<Rightarrow> u64 list" where
  "umem_frames num_frames frame_size = map (\<lambda>i. of_nat i * ucast frame_size) [0..<unat num_frames]"

section \<open>The contract of a frame pool\<close>

locale frame_pool =
  fixes inv :: "'a \<Rightarrow> bool"
    and cap :: nat
    and pool :: "'a \<Rightarrow> 'f list"
    and take_frame :: "'a \<Rightarrow> ('f option \<times> 'a) option"
    and give_frame :: "'f \<Rightarrow> 'a \<Rightarrow> 'a option"
  assumes pool_bound: "inv a \<Longrightarrow> length (pool a) \<le> cap"
    and take_empty: "inv a \<Longrightarrow> pool a = [] \<Longrightarrow> take_frame a = Some (None, a)"
    and take_top: "inv a \<Longrightarrow> pool a = fs @ [f] \<Longrightarrow>
      \<exists>a'. take_frame a = Some (Some f, a') \<and> inv a' \<and> pool a' = fs"
    and give_top: "inv a \<Longrightarrow> length (pool a) < cap \<Longrightarrow>
      \<exists>a'. give_frame f a = Some a' \<and> inv a' \<and> pool a' = pool a @ [f]"
begin

text \<open>LIFO: the frame given back last is the next one taken.\<close>

lemma give_take:
  assumes "inv a" "length (pool a) < cap"
  shows "\<exists>a' a''. give_frame f a = Some a' \<and> take_frame a' = Some (Some f, a'') \<and>
    inv a'' \<and> pool a'' = pool a"
proof -
  from give_top [OF assms] obtain a' where a': "give_frame f a = Some a'" "inv a'"
      "pool a' = pool a @ [f]" by blast
  from take_top [OF a'(2,3)] a'(1) show ?thesis by blast
qed

text \<open>Taking never fails: the pool is empty or its top is handed out.\<close>

lemma take_cases:
  assumes "inv a"
  shows "(pool a = [] \<and> take_frame a = Some (None, a)) \<or>
    (\<exists>f a'. take_frame a = Some (Some f, a') \<and> inv a' \<and> pool a = pool a' @ [f])"
proof (cases "pool a" rule: rev_cases)
  case Nil
  with take_empty [OF assms] show ?thesis by blast
next
  case (snoc fs f)
  with take_top [OF assms] show ?thesis by fastforce
qed

end

section \<open>The allocator satisfies it\<close>

lemma length_free_frames: "alloc_inv cap a \<Longrightarrow> length (free_frames a) = unat (fa_count a)"
  by (simp add: alloc_inv_def free_frames_def)

lemma free_ok:
  assumes "alloc_inv cap a" "length (free_frames a) < cap"
  shows "\<exists>a'. free f a = Some a' \<and> alloc_inv cap a' \<and> free_frames a' = free_frames a @ [f]"
proof -
  from assms have c: "unat (fa_count a) < cap" "length (fa_frames a) = cap" "cap < 2 ^ 32"
    by (auto simp: alloc_inv_def free_frames_def)
  then have "unat (fa_count a + 1) = Suc (unat (fa_count a))"
    by (simp add: unat_word_ariths)
  with c show ?thesis
    by (auto simp: free_def alloc_inv_def free_frames_def take_Suc_conv_app_nth)
qed

lemma alloc_ok:
  assumes "alloc_inv cap a" "free_frames a = fs @ [f]"
  shows "\<exists>a'. alloc a = Some (Some f, a') \<and> alloc_inv cap a' \<and> free_frames a' = fs"
proof -
  have len: "unat (fa_count a) = Suc (length fs)"
    using length_free_frames [OF assms(1)] assms(2) by simp
  then have "fa_count a \<noteq> 0" by auto
  with len have c: "unat (fa_count a - 1) = length fs" "fa_count a \<noteq> 0"
    by (auto simp: unat_minus_one)
  from assms len have "length fs < length (fa_frames a)" by (auto simp: alloc_inv_def)
  moreover from assms(2) len this have "fa_frames a ! length fs = f" "take (length fs) (fa_frames a) = fs"
    by (auto simp: free_frames_def take_Suc_conv_app_nth)
  ultimately show ?thesis
    using assms(1) c len by (simp add: alloc_def alloc_inv_def free_frames_def Let_def)
qed

interpretation pool: frame_pool "alloc_inv cap" cap free_frames alloc free
  for cap :: nat
proof (unfold_locales, goal_cases)
  case (1 a)
  then show ?case by (auto simp: alloc_inv_def free_frames_def)
next
  case (2 a)
  then show ?case
    using length_free_frames [OF 2(1)] by (auto simp: alloc_def unat_eq_0)
next
  case (3 a fs f)
  then show ?case by (rule alloc_ok)
next
  case (4 a f)
  then show ?case by (rule free_ok)
qed

section \<open>The initial stack\<close>

text \<open>The 64-bit product of an index and the frame size does not wrap.\<close>

lemma unat_frame_offset:
  assumes "i < 2 ^ 32"
  shows "unat (of_nat i * ucast (fs :: u32) :: u64) = i * unat fs"
proof -
  from assms u32_bound [of fs] have "i * unat fs < 2 ^ 32 * 2 ^ 32" by (intro mult_strict_mono) auto
  moreover have "unat (of_nat i :: u64) = i"
    using assms by (simp add: unsigned_of_nat take_bit_nat_eq_self)
  ultimately show ?thesis by (simp add: unat_word_ariths)
qed

lemma umem_frames_nth:
  "i < unat num_frames \<Longrightarrow> unat (umem_frames num_frames fs ! i) = i * unat fs"
  using u32_bound [of num_frames] by (simp add: umem_frames_def unat_frame_offset)

lemma length_umem_frames [simp]: "length (umem_frames num_frames fs) = unat num_frames"
  by (simp add: umem_frames_def)

lemma distinct_umem_frames:
  assumes "fs \<noteq> 0"
  shows "distinct (umem_frames num_frames fs)"
  unfolding distinct_conv_nth
proof (intro allI impI)
  fix i j assume ij: "i < length (umem_frames num_frames fs)" "j < length (umem_frames num_frames fs)" "i \<noteq> j"
  have "0 < unat fs" using assms by (simp add: unat_gt_0)
  with ij show "umem_frames num_frames fs ! i \<noteq> umem_frames num_frames fs ! j"
    using umem_frames_nth [of i num_frames fs] umem_frames_nth [of j num_frames fs] by auto
qed

lemma fold_update_upt:
  "k \<le> length xs \<Longrightarrow> fold (\<lambda>i ys. ys[i := f i]) [0..<k] xs = map f [0..<k] @ drop k xs"
proof (induction k)
  case (Suc k)
  then have "map f [0..<k] @ drop k xs = map f [0..<k] @ xs ! k # drop (Suc k) xs"
    by (simp add: Cons_nth_drop_Suc)
  with Suc show ?case by (simp add: list_update_append)
qed simp

lemma FrameAllocator_new_ok:
  assumes "unat num_frames \<le> cap" "cap < 2 ^ 32"
  shows "\<exists>a. FrameAllocator_new cap num_frames fs = Some a \<and> alloc_inv cap a \<and>
    free_frames a = umem_frames num_frames fs"
  using assms
  by (simp add: FrameAllocator_new_def fold_update_upt alloc_inv_def free_frames_def umem_frames_def)

end
