(* ===== verification/Xsk.thy ===== *)
theory Xsk
  imports Ring Frame_Alloc
begin

text \<open>
  \<^verbatim>\<open>include/afxdp/xsk.hpp\<close>, the part that runs after the socket is set up: the four rings of a
  socket, the wakeup calls and the refill of the fill ring.

  The kernel is a parameter: a record of functions on the \<^emph>\<open>world\<close>, that is the memory the worker
  shares with it (the four rings and the UMEM bytes) and the kernel's own state \<open>'k\<close>. Its field
  \<open>k_async\<close> is whatever the kernel does between two accesses of the worker; every lifted ring
  operation that loads a word the kernel writes is preceded by it, so a run of the model is a run of
  the worker interleaved with arbitrary kernel progress. The contract of the kernel and the invariant of
  the worker are in \<^verbatim>\<open>Ownership\<close>.
\<close>

section \<open>Data\<close>

record xdp_desc =
  d_addr :: u64
  d_len :: u32
  d_options :: u32

record 'k world =
  w_rx :: "xdp_desc shm"
  w_tx :: "xdp_desc shm"
  w_fill :: "u64 shm"
  w_cq :: "u64 shm"
  w_umem :: "u8 list"
  w_kern :: 'k

record 'k kernel =
  k_async :: "'k world \<Rightarrow> 'k world"
  k_recvfrom :: "'k world \<Rightarrow> (int \<times> int) \<times> 'k world"
  k_sendto :: "'k world \<Rightarrow> (int \<times> int) \<times> 'k world"

record Xsk =
  xsk_fd :: int
  xsk_rx :: MmapRing
  xsk_tx :: MmapRing
  xsk_fill :: MmapRing
  xsk_completion :: MmapRing
  xsk_busy_poll :: bool
  xsk_zero_copy :: bool

text \<open>The socket, the allocator the worker shares between its parts, and the world.\<close>

record 'k io =
  io_xsk :: Xsk
  io_alloc :: FrameAllocator
  io_world :: "'k world"

text \<open>The error numbers of \<^verbatim>\<open>errno.h\<close> on Linux that the code tests.\<close>

definition EINTR :: int where "EINTR = 4"
definition EAGAIN :: int where "EAGAIN = 11"
definition EBUSY :: int where "EBUSY = 16"
definition ENOBUFS :: int where "ENOBUFS = 105"

definition is_expected_wakeup_retry :: "int \<Rightarrow> bool" where
  "is_expected_wakeup_retry error \<longleftrightarrow> error = EAGAIN \<or> error = EINTR \<or> error = EBUSY"

section \<open>The rings of the socket\<close>

definition kernel_progress :: "'k kernel \<Rightarrow> 'k io \<Rightarrow> 'k io" where
  "kernel_progress K io = io\<lparr>io_world := k_async K (io_world io)\<rparr>"

definition rx_readable_range :: "'k kernel \<Rightarrow> u32 \<Rightarrow> 'k io \<Rightarrow> Range \<times> 'k io" where
  "rx_readable_range K b io0 =
     (let io = kernel_progress K io0;
          (w, r) = readable_range b (xsk_rx (io_xsk io)) (w_rx (io_world io))
      in (w, io\<lparr>io_xsk := (io_xsk io)\<lparr>xsk_rx := r\<rparr>\<rparr>))"

definition cq_readable_range :: "'k kernel \<Rightarrow> u32 \<Rightarrow> 'k io \<Rightarrow> Range \<times> 'k io" where
  "cq_readable_range K b io0 =
     (let io = kernel_progress K io0;
          (w, r) = readable_range b (xsk_completion (io_xsk io)) (w_cq (io_world io))
      in (w, io\<lparr>io_xsk := (io_xsk io)\<lparr>xsk_completion := r\<rparr>\<rparr>))"

definition tx_writable_range :: "'k kernel \<Rightarrow> u32 \<Rightarrow> 'k io \<Rightarrow> Range \<times> 'k io" where
  "tx_writable_range K n io0 =
     (let io = kernel_progress K io0;
          (w, r) = writable_range n (xsk_tx (io_xsk io)) (w_tx (io_world io))
      in (w, io\<lparr>io_xsk := (io_xsk io)\<lparr>xsk_tx := r\<rparr>\<rparr>))"

definition fill_writable_range :: "'k kernel \<Rightarrow> u32 \<Rightarrow> 'k io \<Rightarrow> Range \<times> 'k io" where
  "fill_writable_range K n io0 =
     (let io = kernel_progress K io0;
          (w, r) = writable_range n (xsk_fill (io_xsk io)) (w_fill (io_world io))
      in (w, io\<lparr>io_xsk := (io_xsk io)\<lparr>xsk_fill := r\<rparr>\<rparr>))"

definition rx_desc_at :: "u32 \<Rightarrow> 'k io \<Rightarrow> xdp_desc option" where
  "rx_desc_at i io = desc_at i (xsk_rx (io_xsk io)) (w_rx (io_world io))"

definition cq_desc_at :: "u32 \<Rightarrow> 'k io \<Rightarrow> u64 option" where
  "cq_desc_at i io = desc_at i (xsk_completion (io_xsk io)) (w_cq (io_world io))"

definition tx_desc_put :: "u32 \<Rightarrow> xdp_desc \<Rightarrow> 'k io \<Rightarrow> 'k io option" where
  "tx_desc_put i d io = do {
     s \<leftarrow> desc_put i d (xsk_tx (io_xsk io)) (w_tx (io_world io));
     Some (io\<lparr>io_world := (io_world io)\<lparr>w_tx := s\<rparr>\<rparr>) }"

definition fill_desc_put :: "u32 \<Rightarrow> u64 \<Rightarrow> 'k io \<Rightarrow> 'k io option" where
  "fill_desc_put i d io = do {
     s \<leftarrow> desc_put i d (xsk_fill (io_xsk io)) (w_fill (io_world io));
     Some (io\<lparr>io_world := (io_world io)\<lparr>w_fill := s\<rparr>\<rparr>) }"

definition rx_release :: "u32 \<Rightarrow> 'k io \<Rightarrow> 'k io" where
  "rx_release n io =
     (let (r, s) = release_consumed_entries n (xsk_rx (io_xsk io)) (w_rx (io_world io))
      in io\<lparr>io_xsk := (io_xsk io)\<lparr>xsk_rx := r\<rparr>, io_world := (io_world io)\<lparr>w_rx := s\<rparr>\<rparr>)"

definition cq_release :: "u32 \<Rightarrow> 'k io \<Rightarrow> 'k io" where
  "cq_release n io =
     (let (r, s) = release_consumed_entries n (xsk_completion (io_xsk io)) (w_cq (io_world io))
      in io\<lparr>io_xsk := (io_xsk io)\<lparr>xsk_completion := r\<rparr>, io_world := (io_world io)\<lparr>w_cq := s\<rparr>\<rparr>)"

definition tx_publish :: "u32 \<Rightarrow> 'k io \<Rightarrow> 'k io" where
  "tx_publish n io =
     (let (r, s) = publish_written_entries n (xsk_tx (io_xsk io)) (w_tx (io_world io))
      in io\<lparr>io_xsk := (io_xsk io)\<lparr>xsk_tx := r\<rparr>, io_world := (io_world io)\<lparr>w_tx := s\<rparr>\<rparr>)"

definition fill_publish :: "u32 \<Rightarrow> 'k io \<Rightarrow> 'k io" where
  "fill_publish n io =
     (let (r, s) = publish_written_entries n (xsk_fill (io_xsk io)) (w_fill (io_world io))
      in io\<lparr>io_xsk := (io_xsk io)\<lparr>xsk_fill := r\<rparr>, io_world := (io_world io)\<lparr>w_fill := s\<rparr>\<rparr>)"

definition fill_queued_entry_count :: "'k kernel \<Rightarrow> 'k io \<Rightarrow> u32 \<times> 'k io" where
  "fill_queued_entry_count K io0 =
     (let io = kernel_progress K io0 in (queued_entry_count (w_fill (io_world io)), io))"

definition fill_need_wakeup :: "'k kernel \<Rightarrow> 'k io \<Rightarrow> bool \<times> 'k io" where
  "fill_need_wakeup K io0 =
     (let io = kernel_progress K io0 in (need_wakeup (w_fill (io_world io)), io))"

definition tx_need_wakeup :: "'k kernel \<Rightarrow> 'k io \<Rightarrow> bool \<times> 'k io" where
  "tx_need_wakeup K io0 =
     (let io = kernel_progress K io0 in (need_wakeup (w_tx (io_world io)), io))"

section \<open>Operations of the socket\<close>

text \<open>
  \<^verbatim>\<open>std::expected<void, int>\<close>: \<open>Inl errno\<close> or \<open>Inr ()\<close>. The disjunction of the source is
  evaluated from the left: with busy polling the flag is not read.
\<close>

definition request_rx_progress :: "'k kernel \<Rightarrow> 'k io \<Rightarrow> (int + unit) \<times> 'k io" where
  "request_rx_progress K io0 =
     (let (kick, io) = (if xsk_busy_poll (io_xsk io0) then (True, io0) else fill_need_wakeup K io0)
      in if kick
         then (let ((ret, errno), w) = k_recvfrom K (io_world io); io = io\<lparr>io_world := w\<rparr>
               in if ret < 0 then (Inl errno, io) else (Inr (), io))
         else (Inr (), io))"

definition request_tx_progress :: "'k kernel \<Rightarrow> 'k io \<Rightarrow> (int + unit) \<times> 'k io" where
  "request_tx_progress K io0 =
     (let (kick, io) = (if xsk_busy_poll (io_xsk io0) then (True, io0) else tx_need_wakeup K io0)
      in if kick
         then (let ((ret, errno), w) = k_sendto K (io_world io); io = io\<lparr>io_world := w\<rparr>
               in if ret < 0 then (Inl errno, io) else (Inr (), io))
         else (Inr (), io))"

text \<open>The loop of \<open>refill_fill\<close>: it stops when the window is full or the allocator is empty.\<close>

function refill_loop :: "u32 \<Rightarrow> u32 \<Rightarrow> u32 \<Rightarrow> 'k io \<Rightarrow> (u32 \<times> 'k io) option" where
  "refill_loop n strt pushed io =
     (if pushed < n
      then do {
        (frame, a) \<leftarrow> alloc (io_alloc io);
        (case frame of
           None \<Rightarrow> Some (pushed, io\<lparr>io_alloc := a\<rparr>)
         | Some f \<Rightarrow> do {
             io' \<leftarrow> fill_desc_put (strt + pushed) f (io\<lparr>io_alloc := a\<rparr>);
             refill_loop n strt (pushed + 1) io' }) }
      else Some (pushed, io))"
  by pat_completeness auto
termination
  by (relation "measure (\<lambda>(n, strt, pushed, io). unat n - unat pushed)")
    (auto simp: unat_Suc_less)

declare refill_loop.simps [simp del]

definition refill_fill :: "'k kernel \<Rightarrow> 'k io \<Rightarrow> (u32 \<times> 'k io) option" where
  "refill_fill K io0 =
     (let (w, io) = fill_writable_range K (capacity (xsk_fill (io_xsk io0))) io0
      in do {
        (pushed, io) \<leftarrow> refill_loop (amount w) (start w) 0 io;
        Some (pushed, if pushed > 0 then fill_publish pushed io else io) })"

declare rx_readable_range_def [xsk_defs] cq_readable_range_def [xsk_defs]
  tx_writable_range_def [xsk_defs] fill_writable_range_def [xsk_defs]
  rx_desc_at_def [xsk_defs] cq_desc_at_def [xsk_defs] tx_desc_put_def [xsk_defs]
  fill_desc_put_def [xsk_defs] rx_release_def [xsk_defs] cq_release_def [xsk_defs]
  tx_publish_def [xsk_defs] fill_publish_def [xsk_defs]
  fill_queued_entry_count_def [xsk_defs] fill_need_wakeup_def [xsk_defs]
  tx_need_wakeup_def [xsk_defs]

end
