(* ===== verification/Ownership.thy ===== *)
theory Ownership
  imports Xsk
begin

text \<open>
  The ownership discipline of UMEM frames. Every frame is, at any moment, free in the allocator,
  queued in the fill ring, held by the kernel for receiving, queued in the RX ring, staged in the TX
  window, queued in the TX ring, held by the kernel for sending, or queued in the completion ring.
  \<open>kernel_contract\<close> is what the program assumes of the kernel; \<open>io_inv\<close> is what the program keeps
  true; the lemmas show that kernel progress and each lifted ring operation keep it, and that
  \<open>refill_fill\<close> moves frames from the allocator to the fill ring and loses none.
\<close>

section \<open>Geometry\<close>

record geometry =
  g_ring :: u32
  g_frame_size :: u32
  g_num_frames :: u32
  g_cap :: nat

text \<open>What the sizes have to satisfy (the static assertions of \<^verbatim>\<open>main.cpp\<close> give it for its constants).\<close>

definition geometry_ok :: "geometry \<Rightarrow> bool" where
  "geometry_ok g \<longleftrightarrow> PowerOfTwo (g_ring g) \<and> PowerOfTwo (g_frame_size g) \<and>
     unat (g_num_frames g) \<le> g_cap g \<and> g_cap g < 2 ^ 32"

text \<open>\<^verbatim>\<open>frame_mask_(~(static_cast<std::uint64_t>(frame_size) - 1))\<close>\<close>

definition frame_mask :: "u32 \<Rightarrow> u64" where
  "frame_mask frame_size = NOT (ucast frame_size - 1)"

definition frame_base :: "geometry \<Rightarrow> u64 \<Rightarrow> u64" where
  "frame_base g addr = addr AND frame_mask (g_frame_size g)"

definition all_frames :: "geometry \<Rightarrow> u64 list" where
  "all_frames g = umem_frames (g_num_frames g) (g_frame_size g)"

text \<open>A descriptor whose bytes lie within one frame of the UMEM (aligned chunk mode).\<close>

definition desc_ok :: "geometry \<Rightarrow> xdp_desc \<Rightarrow> bool" where
  "desc_ok g d \<longleftrightarrow> frame_base g (d_addr d) \<in> set (all_frames g) \<and>
     unat (d_addr d) mod unat (g_frame_size g) + unat (d_len d) \<le> unat (g_frame_size g)"

definition tx_desc_ok :: "geometry \<Rightarrow> xdp_desc \<Rightarrow> bool" where
  "tx_desc_ok g d \<longleftrightarrow> desc_ok g d \<and> d_len d \<noteq> 0"

definition desc_frames :: "geometry \<Rightarrow> xdp_desc list \<Rightarrow> u64 multiset" where
  "desc_frames g ds = image_mset (\<lambda>d. frame_base g (d_addr d)) (mset ds)"

definition addr_frames :: "geometry \<Rightarrow> u64 list \<Rightarrow> u64 multiset" where
  "addr_frames g as = image_mset (frame_base g) (mset as)"

section \<open>The kernel's side of the protocol\<close>

text \<open>The kernel takes \<open>k\<close> entries off the front of a ring it consumes.\<close>

definition kernel_consumes :: "'d shm \<Rightarrow> nat \<Rightarrow> 'd shm \<Rightarrow> bool" where
  "kernel_consumes s k s' \<longleftrightarrow> k \<le> length (ring_queue s) \<and> sh_producer s' = sh_producer s \<and>
     sh_descs s' = sh_descs s \<and> sh_consumer s' = sh_consumer s + of_nat k"

text \<open>The kernel appends the entries \<open>ds\<close> to a ring it produces.\<close>

definition kernel_produces :: "'d shm \<Rightarrow> 'd list \<Rightarrow> 'd shm \<Rightarrow> bool" where
  "kernel_produces s ds s' \<longleftrightarrow> length (ring_queue s) + length ds \<le> length (sh_descs s) \<and>
     sh_consumer s' = sh_consumer s \<and> length (sh_descs s') = length (sh_descs s) \<and>
     sh_producer s' = sh_producer s + of_nat (length ds) \<and> ring_queue s' = ring_queue s @ ds"

text \<open>
  One stretch of kernel activity: it consumes \<open>m\<close> fill entries and \<open>t\<close> TX descriptors, delivers
  the RX descriptors \<open>rs\<close> and the completions \<open>cs\<close>; each delivered frame is one it was given on
  that side; only frames given for receiving are written.
\<close>

definition kernel_guar ::
  "geometry \<Rightarrow> ('k \<Rightarrow> u64 multiset) \<Rightarrow> ('k \<Rightarrow> u64 multiset) \<Rightarrow> 'k world \<Rightarrow> 'k world \<Rightarrow> bool" where
  "kernel_guar g kr kt w w' \<longleftrightarrow> (\<exists>m t rs cs.
     kernel_consumes (w_fill w) m (w_fill w') \<and> kernel_consumes (w_tx w) t (w_tx w') \<and>
     kernel_produces (w_rx w) rs (w_rx w') \<and> kernel_produces (w_cq w) cs (w_cq w') \<and>
     kr (w_kern w') + desc_frames g rs = kr (w_kern w) + addr_frames g (take m (ring_queue (w_fill w))) \<and>
     kt (w_kern w') + addr_frames g cs = kt (w_kern w) + desc_frames g (take t (ring_queue (w_tx w))) \<and>
     (\<forall>d \<in> set rs. desc_ok g d) \<and>
     length (w_umem w') = length (w_umem w) \<and>
     (\<forall>i < length (w_umem w). w_umem w' ! i \<noteq> w_umem w ! i \<longrightarrow>
        frame_base g (of_nat i) \<in># kr (w_kern w) + addr_frames g (ring_queue (w_fill w))))"

text \<open>What the kernel may assume of the worker: consistent rings and valid descriptors.\<close>

definition world_ok :: "geometry \<Rightarrow> 'k world \<Rightarrow> bool" where
  "world_ok g w \<longleftrightarrow> shm_ok (g_ring g) (w_fill w) \<and> shm_ok (g_ring g) (w_tx w) \<and>
     shm_ok (g_ring g) (w_rx w) \<and> shm_ok (g_ring g) (w_cq w) \<and>
     (\<forall>f \<in> set (ring_queue (w_fill w)). f \<in> set (all_frames g)) \<and>
     (\<forall>d \<in> set (ring_queue (w_tx w)). tx_desc_ok g d) \<and>
     length (w_umem w) = unat (g_num_frames g) * unat (g_frame_size g)"

definition kernel_contract ::
  "geometry \<Rightarrow> ('k \<Rightarrow> u64 multiset) \<Rightarrow> ('k \<Rightarrow> u64 multiset) \<Rightarrow> 'k kernel \<Rightarrow> bool" where
  "kernel_contract g kr kt K \<longleftrightarrow> (\<forall>w. world_ok g w \<longrightarrow>
     kernel_guar g kr kt w (k_async K w) \<and>
     kernel_guar g kr kt w (snd (k_recvfrom K w)) \<and>
     kernel_guar g kr kt w (snd (k_sendto K w)))"

section \<open>The worker's side\<close>

definition rx_queue :: "'k io \<Rightarrow> xdp_desc list" where
  "rx_queue io = ring_queue (w_rx (io_world io))"

definition tx_queue :: "'k io \<Rightarrow> xdp_desc list" where
  "tx_queue io = ring_queue (w_tx (io_world io))"

definition fill_queue :: "'k io \<Rightarrow> u64 list" where
  "fill_queue io = ring_queue (w_fill (io_world io))"

definition cq_queue :: "'k io \<Rightarrow> u64 list" where
  "cq_queue io = ring_queue (w_cq (io_world io))"

definition tx_pending :: "'k io \<Rightarrow> nat \<Rightarrow> xdp_desc list" where
  "tx_pending io k = ring_pending (xsk_tx (io_xsk io)) (w_tx (io_world io)) k"

definition rings_ok :: "geometry \<Rightarrow> 'k io \<Rightarrow> bool" where
  "rings_ok g io \<longleftrightarrow>
     prod_inv (g_ring g) (xsk_fill (io_xsk io)) (w_fill (io_world io)) \<and>
     prod_inv (g_ring g) (xsk_tx (io_xsk io)) (w_tx (io_world io)) \<and>
     cons_inv (g_ring g) (xsk_rx (io_xsk io)) (w_rx (io_world io)) \<and>
     cons_inv (g_ring g) (xsk_completion (io_xsk io)) (w_cq (io_world io))"

text \<open>
  All owned frames, where the worker has already dealt with the first \<open>skip\<close> entries of the RX
  ring and holds the descriptors \<open>staged\<close>, not yet published, in the TX window.
\<close>

definition owned ::
  "geometry \<Rightarrow> ('k \<Rightarrow> u64 multiset) \<Rightarrow> ('k \<Rightarrow> u64 multiset) \<Rightarrow> nat \<Rightarrow> xdp_desc list \<Rightarrow> 'k io \<Rightarrow> u64 multiset" where
  "owned g kr kt skip staged io =
     mset (free_frames (io_alloc io)) +
     (mset (fill_queue io) + kr (w_kern (io_world io)) + desc_frames g (drop skip (rx_queue io))) +
     desc_frames g staged +
     (desc_frames g (tx_queue io) + kt (w_kern (io_world io)) + addr_frames g (cq_queue io))"

definition io_inv ::
  "geometry \<Rightarrow> ('k \<Rightarrow> u64 multiset) \<Rightarrow> ('k \<Rightarrow> u64 multiset) \<Rightarrow> nat \<Rightarrow> xdp_desc list \<Rightarrow> 'k io \<Rightarrow> bool" where
  "io_inv g kr kt skip staged io \<longleftrightarrow> geometry_ok g \<and> rings_ok g io \<and>
     alloc_inv (g_cap g) (io_alloc io) \<and> skip \<le> length (rx_queue io) \<and>
     (\<forall>d \<in> set (rx_queue io). desc_ok g d) \<and> (\<forall>d \<in> set (tx_queue io @ staged). tx_desc_ok g d) \<and>
     owned g kr kt skip staged io = mset (all_frames g) \<and>
     length (w_umem (io_world io)) = unat (g_num_frames g) * unat (g_frame_size g)"

text \<open>Frames published for sending whose completion the worker has not yet taken back.\<close>

definition in_flight :: "('k \<Rightarrow> u64 multiset) \<Rightarrow> 'k io \<Rightarrow> nat" where
  "in_flight kt io = length (tx_queue io) + size (kt (w_kern (io_world io))) + length (cq_queue io)"

section \<open>Frames and masks\<close>

lemma frame_base_unat:
  assumes "PowerOfTwo (g_frame_size g)"
  shows "unat (frame_base g a) = unat a - unat a mod unat (g_frame_size g)"
proof -
  from assms obtain k where k: "k < 32" "g_frame_size g = 2 ^ k" "unat (g_frame_size g) = 2 ^ k"
    by (elim PowerOfTwo_obtain) simp
  have uc: "(ucast (g_frame_size g) :: u64) = 2 ^ k"
    unfolding word_unat_eq_iff unat_ucast_u32_u64 k(3) using k(1) by (simp add: unat_two_power)
  have base: "frame_base g a = push_bit k (drop_bit k a)"
    unfolding frame_base_def frame_mask_def uc
    by (rule bit_word_eqI)
      (auto simp: bit_and_iff bit_not_iff bit_push_bit_iff bit_drop_bit_eq bit_mask_iff
        simp flip: mask_eq_exp_minus_1)
  have "push_bit k (drop_bit k a) + take_bit k a = a" by (rule bits_ident)
  then have "frame_base g a = a - take_bit k a" by (simp add: base eq_diff_eq)
  moreover have "unat (take_bit k a) = unat a mod 2 ^ k"
    by (rule unat_take_bit)
  moreover from this have "take_bit k a \<le> a" by (simp add: word_le_nat_alt)
  ultimately show ?thesis by (simp only: unat_sub k(3))
qed

lemma frame_base_frame:
  assumes "geometry_ok g" "f \<in> set (all_frames g)"
  shows "frame_base g f = f"
proof -
  from assms(2) obtain i where "i < unat (g_num_frames g)" "f = all_frames g ! i"
    by (auto simp: all_frames_def in_set_conv_nth)
  then have "unat f mod unat (g_frame_size g) = 0"
    by (simp add: all_frames_def umem_frames_nth)
  then have "unat (frame_base g f) = unat f"
    using assms(1) by (simp add: frame_base_unat geometry_ok_def)
  then show ?thesis by (rule word_unat_eq_iff [THEN iffD2])
qed

lemma desc_frames_append [simp]: "desc_frames g (as @ bs) = desc_frames g as + desc_frames g bs"
  by (simp add: desc_frames_def)

lemma desc_frames_Nil [simp]: "desc_frames g [] = {#}"
  by (simp add: desc_frames_def)

lemma addr_frames_append [simp]: "addr_frames g (as @ bs) = addr_frames g as + addr_frames g bs"
  by (simp add: addr_frames_def)

lemma addr_frames_Nil [simp]: "addr_frames g [] = {#}"
  by (simp add: addr_frames_def)

lemma size_desc_frames [simp]: "size (desc_frames g ds) = length ds"
  by (simp add: desc_frames_def)

lemma size_addr_frames [simp]: "size (addr_frames g as) = length as"
  by (simp add: addr_frames_def)

lemma desc_frames_split: "desc_frames g ds = desc_frames g (take k ds) + desc_frames g (drop k ds)"
  by (metis append_take_drop_id desc_frames_append)

lemma addr_frames_id:
  assumes "geometry_ok g" "set as \<subseteq> set (all_frames g)"
  shows "addr_frames g as = mset as"
  using assms by (induction as) (auto simp: addr_frames_def frame_base_frame)

section \<open>Kernel activity keeps the rings consistent\<close>

lemma kernel_consumes_stable:
  assumes "prod_inv n r s" "kernel_consumes s k s'"
  shows "prod_inv n r s'" and "ring_queue s' = drop k (ring_queue s)"
    and "ring_pending r s' j = ring_pending r s j"
proof -
  let ?c = "sh_consumer s" and ?d = "cached_cons r" and ?p = "sh_producer s"
  from assms(1) have ok: "shm_ok n s" and geo: "ring_geometry n r" and cp: "cached_prod r = ?p"
    and lag: "unat (?c - ?d) \<le> unat (?p - ?d)" and bnd: "unat (?p - ?d) \<le> unat n"
    by (auto simp: prod_inv_def)
  from assms(2) have k: "k \<le> unat (?p - ?c)" and same: "sh_producer s' = ?p" "sh_descs s' = sh_descs s"
    and c': "sh_consumer s' = ?c + of_nat k"
    by (auto simp: kernel_consumes_def)
  have adv: "unat (?p - ?c) = unat (?p - ?d) - unat (?c - ?d)"
    using lag by (rule unat_diff_advance)
  have occ: "unat (?p - (?c + of_nat k)) = unat (?p - ?c) - k"
    using k by (rule unat_diff_sub)
  have "unat (?c + of_nat k - ?d) = unat (?c - ?d) + k"
    using k adv lag bnd unat_bound [of n] by (intro unat_diff_add) linarith
  then show "prod_inv n r s'"
    using ok geo cp lag bnd k adv occ
    by (auto simp: prod_inv_def shm_ok_def same c' ring_geometry_def)
  show "ring_queue s' = drop k (ring_queue s)"
    using window_drop [OF shm_ok_dvd [OF ok], of k "unat (?p - ?c)" ?c] k
    by (simp add: ring_queue_def same c' occ)
  show "ring_pending r s' j = ring_pending r s j"
    by (simp add: ring_pending_def same)
qed

lemma kernel_produces_stable:
  assumes "cons_inv n r s" "kernel_produces s ds s'"
  shows "cons_inv n r s'" and "ring_queue s' = ring_queue s @ ds"
proof -
  from assms(2) show q: "ring_queue s' = ring_queue s @ ds" by (simp add: kernel_produces_def)
  from assms have "unat (sh_producer s - sh_consumer s) + length ds \<le> unat n"
    by (auto simp: kernel_produces_def cons_inv_def shm_ok_def)
  with unat_bound [of n] have
    "unat (sh_producer s + of_nat (length ds) - sh_consumer s) = length (ring_queue s) + length ds"
    by (subst unat_diff_add) auto
  with assms show "cons_inv n r s'"
    by (auto simp: kernel_produces_def cons_inv_def shm_ok_def)
qed

lemmas queue_defs = rx_queue_def tx_queue_def fill_queue_def cq_queue_def

lemma io_inv_world_ok:
  assumes "io_inv g kr kt skip staged io"
  shows "world_ok g (io_world io)"
proof -
  have "set_mset (mset (fill_queue io)) \<subseteq> set_mset (owned g kr kt skip staged io)"
    by (auto simp: owned_def)
  then have "set (fill_queue io) \<subseteq> set (all_frames g)"
    using assms by (simp add: io_inv_def)
  then show ?thesis
    using assms unfolding io_inv_def rings_ok_def world_ok_def prod_inv_def cons_inv_def
    by (auto simp: queue_defs)
qed

text \<open>What a stretch of kernel activity does to the queues the worker sees.\<close>

definition queues_moved ::
  "geometry \<Rightarrow> ('k \<Rightarrow> u64 multiset) \<Rightarrow> ('k \<Rightarrow> u64 multiset) \<Rightarrow> 'k io \<Rightarrow>
   nat \<Rightarrow> nat \<Rightarrow> xdp_desc list \<Rightarrow> u64 list \<Rightarrow> 'k io \<Rightarrow> bool" where
  "queues_moved g kr kt io m t rs cs io' \<longleftrightarrow>
     rings_ok g io' \<and> rx_queue io' = rx_queue io @ rs \<and> tx_queue io' = drop t (tx_queue io) \<and>
     fill_queue io' = drop m (fill_queue io) \<and> cq_queue io' = cq_queue io @ cs \<and>
     (\<forall>j. tx_pending io' j = tx_pending io j) \<and>
     kr (w_kern (io_world io')) + desc_frames g rs =
       kr (w_kern (io_world io)) + mset (take m (fill_queue io)) \<and>
     kt (w_kern (io_world io')) + addr_frames g cs =
       kt (w_kern (io_world io)) + desc_frames g (take t (tx_queue io)) \<and>
     (\<forall>d \<in> set rs. desc_ok g d) \<and>
     length (w_umem (io_world io')) = length (w_umem (io_world io))"

lemma kernel_guar_queues:
  assumes inv: "io_inv g kr kt skip staged io"
    and guar: "kernel_guar g kr kt (io_world io) w'"
  shows "\<exists>m t rs cs. queues_moved g kr kt io m t rs cs (io\<lparr>io_world := w'\<rparr>)"
proof -
  let ?w = "io_world io"
  from guar obtain m t rs cs where
    cons: "kernel_consumes (w_fill ?w) m (w_fill w')" "kernel_consumes (w_tx ?w) t (w_tx w')"
    and prod: "kernel_produces (w_rx ?w) rs (w_rx w')" "kernel_produces (w_cq ?w) cs (w_cq w')"
    and bal: "kr (w_kern w') + desc_frames g rs =
      kr (w_kern ?w) + addr_frames g (take m (fill_queue io))"
      "kt (w_kern w') + addr_frames g cs = kt (w_kern ?w) + desc_frames g (take t (tx_queue io))"
    and rest: "\<forall>d \<in> set rs. desc_ok g d" "length (w_umem w') = length (w_umem ?w)"
    unfolding kernel_guar_def fill_queue_def tx_queue_def by blast
  from inv have r: "rings_ok g io" and geo: "geometry_ok g" by (auto simp: io_inv_def)
  note fill = kernel_consumes_stable [OF r [unfolded rings_ok_def, THEN conjunct1] cons(1)]
  note tx = kernel_consumes_stable [OF r [unfolded rings_ok_def, THEN conjunct2, THEN conjunct1] cons(2)]
  note rx = kernel_produces_stable [OF r [unfolded rings_ok_def, THEN conjunct2, THEN conjunct2, THEN conjunct1] prod(1)]
  note cq = kernel_produces_stable [OF r [unfolded rings_ok_def, THEN conjunct2, THEN conjunct2, THEN conjunct2] prod(2)]
  have "set (take m (fill_queue io)) \<subseteq> set (all_frames g)"
    using io_inv_world_ok [OF inv] by (auto simp: world_ok_def fill_queue_def dest: in_set_takeD)
  then have "addr_frames g (take m (fill_queue io)) = mset (take m (fill_queue io))"
    by (rule addr_frames_id [OF geo])
  with bal rest fill tx rx cq
  have "queues_moved g kr kt io m t rs cs (io\<lparr>io_world := w'\<rparr>)"
    by (simp add: queues_moved_def rings_ok_def queue_defs tx_pending_def)
  then show ?thesis by blast
qed

text \<open>A stretch of kernel activity keeps the invariant and every frame.\<close>

lemma kernel_guar_stable:
  assumes inv: "io_inv g kr kt skip staged io"
    and guar: "kernel_guar g kr kt (io_world io) w'"
  defines "io' \<equiv> io\<lparr>io_world := w'\<rparr>"
  shows "io_inv g kr kt skip staged io'" and "in_flight kt io' = in_flight kt io"
    and "\<And>j. tx_pending io' j = tx_pending io j" and "\<exists>rs. rx_queue io' = rx_queue io @ rs"
proof -
  from kernel_guar_queues [OF inv guar] obtain m t rs cs
    where mv: "queues_moved g kr kt io m t rs cs io'"
    unfolding io'_def by blast
  then have q: "rings_ok g io'" "rx_queue io' = rx_queue io @ rs" "tx_queue io' = drop t (tx_queue io)"
      "fill_queue io' = drop m (fill_queue io)" "cq_queue io' = cq_queue io @ cs"
    and bal: "kr (w_kern (io_world io')) + desc_frames g rs =
        kr (w_kern (io_world io)) + mset (take m (fill_queue io))"
      "kt (w_kern (io_world io')) + addr_frames g cs =
        kt (w_kern (io_world io)) + desc_frames g (take t (tx_queue io))"
    and rest: "\<forall>d \<in> set rs. desc_ok g d"
      "length (w_umem (io_world io')) = length (w_umem (io_world io))"
    unfolding queues_moved_def by blast+
  have w': "io_alloc io' = io_alloc io" by (simp add: io'_def)
  show "\<And>j. tx_pending io' j = tx_pending io j" "\<exists>rs. rx_queue io' = rx_queue io @ rs"
    using mv by (auto simp: queues_moved_def)
  have "size (kt (w_kern (io_world io'))) + length cs =
      size (kt (w_kern (io_world io))) + min (length (tx_queue io)) t"
    using arg_cong [OF bal(2), of size] by simp
  then show "in_flight kt io' = in_flight kt io"
    by (simp add: in_flight_def q min_def split: if_splits)
  have fill: "mset (fill_queue io) = mset (take m (fill_queue io)) + mset (fill_queue io')"
    by (simp add: q flip: mset_append)
  have rx: "drop skip (rx_queue io') = drop skip (rx_queue io) @ rs"
    using inv by (simp add: q io_inv_def)
  have tx: "desc_frames g (tx_queue io) =
      desc_frames g (take t (tx_queue io)) + desc_frames g (tx_queue io')"
    unfolding q by (rule desc_frames_split)
  have "owned g kr kt skip staged io' = owned g kr kt skip staged io"
    unfolding owned_def w' using mset_transfer [OF fill bal(1)] mset_transfer [OF tx bal(2)]
    by (simp add: rx q(5))
  with inv q rest show "io_inv g kr kt skip staged io'"
    by (auto simp: io_inv_def w' dest: in_set_dropD)
qed

section \<open>Steps that only let the kernel run\<close>

text \<open>The frames on the receive side of the kernel, which it may write.\<close>

definition rx_held :: "('k \<Rightarrow> u64 multiset) \<Rightarrow> 'k io \<Rightarrow> u64 set" where
  "rx_held kr io = set_mset (kr (w_kern (io_world io))) \<union> set (fill_queue io)"

definition umem_kept :: "geometry \<Rightarrow> ('k \<Rightarrow> u64 multiset) \<Rightarrow> 'k io \<Rightarrow> 'k io \<Rightarrow> bool" where
  "umem_kept g kr io io' \<longleftrightarrow> rx_held kr io' \<subseteq> rx_held kr io \<and>
     length (w_umem (io_world io')) = length (w_umem (io_world io)) \<and>
     (\<forall>i < length (w_umem (io_world io)). frame_base g (of_nat i) \<notin> rx_held kr io \<longrightarrow>
        w_umem (io_world io') ! i = w_umem (io_world io) ! i)"

text \<open>The worker's windows stay where they are and do not shrink.\<close>

definition handles_kept :: "'k io \<Rightarrow> 'k io \<Rightarrow> bool" where
  "handles_kept io io' \<longleftrightarrow> (let x = io_xsk io; x' = io_xsk io' in
     cached_cons (xsk_rx x') = cached_cons (xsk_rx x) \<and>
     unat (cached_prod (xsk_rx x) - cached_cons (xsk_rx x)) \<le>
       unat (cached_prod (xsk_rx x') - cached_cons (xsk_rx x')) \<and>
     cached_prod (xsk_tx x') = cached_prod (xsk_tx x) \<and>
     ring_room (xsk_tx x) \<le> ring_room (xsk_tx x') \<and>
     xsk_busy_poll x' = xsk_busy_poll x)"

text \<open>
  The worker sees only kernel progress: nothing moves on its own side, the RX queue may have grown,
  the frames in flight are the same ones, and no byte of a frame outside \<open>rx_held\<close> changes.
\<close>

definition io_quiet ::
  "geometry \<Rightarrow> ('k \<Rightarrow> u64 multiset) \<Rightarrow> ('k \<Rightarrow> u64 multiset) \<Rightarrow> 'k io \<Rightarrow> 'k io \<Rightarrow> bool" where
  "io_quiet g kr kt io io' \<longleftrightarrow>
     (\<forall>skip staged. io_inv g kr kt skip staged io \<longrightarrow> io_inv g kr kt skip staged io') \<and>
     in_flight kt io' = in_flight kt io \<and> (\<forall>j. tx_pending io' j = tx_pending io j) \<and>
     (\<exists>rs. rx_queue io' = rx_queue io @ rs) \<and> io_alloc io' = io_alloc io \<and>
     handles_kept io io' \<and> umem_kept g kr io io'"

lemma handles_kept_refl [simp, intro!]: "handles_kept io io"
  by (simp add: handles_kept_def Let_def)

lemma handles_kept_trans: "handles_kept a b \<Longrightarrow> handles_kept b c \<Longrightarrow> handles_kept a c"
  by (auto simp: handles_kept_def Let_def)

lemma umem_kept_refl [simp, intro!]: "umem_kept g kr io io"
  by (simp add: umem_kept_def)

lemma umem_kept_trans: "umem_kept g kr a b \<Longrightarrow> umem_kept g kr b c \<Longrightarrow> umem_kept g kr a c"
  by (auto simp: umem_kept_def)

lemma io_quiet_refl [simp, intro!]: "io_quiet g kr kt io io"
  by (simp add: io_quiet_def)

lemma io_quiet_trans: "io_quiet g kr kt a b \<Longrightarrow> io_quiet g kr kt b c \<Longrightarrow> io_quiet g kr kt a c"
  unfolding io_quiet_def by (auto intro: umem_kept_trans handles_kept_trans)

lemma io_quiet_inv: "io_quiet g kr kt io io' \<Longrightarrow> io_inv g kr kt skip staged io \<Longrightarrow> io_inv g kr kt skip staged io'"
  by (simp add: io_quiet_def)

lemma kernel_guar_umem:
  assumes inv: "io_inv g kr kt skip staged io"
    and guar: "kernel_guar g kr kt (io_world io) w'"
  shows "umem_kept g kr io (io\<lparr>io_world := w'\<rparr>)"
proof -
  have fq: "addr_frames g (fill_queue io) = mset (fill_queue io)"
    using io_inv_world_ok [OF inv] inv
    by (intro addr_frames_id) (auto simp: world_ok_def fill_queue_def io_inv_def)
  from kernel_guar_queues [OF inv guar] obtain m t rs cs
    where mv: "queues_moved g kr kt io m t rs cs (io\<lparr>io_world := w'\<rparr>)" by blast
  have "set_mset (kr (w_kern w')) \<subseteq> rx_held kr io"
  proof -
    have "set_mset (kr (w_kern w')) \<subseteq> set_mset (kr (w_kern w') + desc_frames g rs)" by auto
    also have "\<dots> = set_mset (kr (w_kern (io_world io)) + mset (take m (fill_queue io)))"
      using mv by (simp add: queues_moved_def)
    also have "\<dots> \<subseteq> rx_held kr io" by (auto simp: rx_held_def dest: in_set_takeD)
    finally show ?thesis .
  qed
  moreover have "set (fill_queue (io\<lparr>io_world := w'\<rparr>)) \<subseteq> set (fill_queue io)"
    using mv by (auto simp: queues_moved_def dest: in_set_dropD)
  ultimately show ?thesis
    using guar fq by (fastforce simp: umem_kept_def rx_held_def kernel_guar_def fill_queue_def)
qed

text \<open>With any handle changes that keep the rings consistent and the indices in place.\<close>

lemma kernel_guar_quiet:
  assumes "io_inv g kr kt skip0 staged0 io" "kernel_guar g kr kt (io_world io) w'"
  shows "io_quiet g kr kt io (io\<lparr>io_world := w'\<rparr>)"
  using kernel_guar_stable [OF _ assms(2)] kernel_guar_umem [OF assms] assms(1)
  by (auto simp: io_quiet_def handles_kept_def Let_def)

lemma kernel_progress_quiet:
  assumes "kernel_contract g kr kt K" "io_inv g kr kt skip staged io"
  shows "io_quiet g kr kt io (kernel_progress K io)"
  using assms(1) io_inv_world_ok [OF assms(2)] kernel_guar_quiet [OF assms(2)]
  by (auto simp: kernel_contract_def kernel_progress_def)

text \<open>Replacing the cached indices of a ring by equally consistent ones changes nothing else.\<close>

lemma handle_quiet:
  assumes "rings_ok g io \<Longrightarrow> rings_ok g (io\<lparr>io_xsk := x\<rparr>)"
    and "handles_kept io (io\<lparr>io_xsk := x\<rparr>)"
  shows "io_quiet g kr kt io (io\<lparr>io_xsk := x\<rparr>)"
  using assms
  by (auto simp: io_quiet_def io_inv_def in_flight_def tx_pending_def ring_pending_def queue_defs
      owned_def umem_kept_def rx_held_def handles_kept_def Let_def)

section \<open>The lifted operations\<close>

text \<open>The hypotheses that every operation of the running worker is used under.\<close>

lemma rings_okD:
  assumes "rings_ok g io"
  shows "prod_inv (g_ring g) (xsk_fill (io_xsk io)) (w_fill (io_world io))"
    and "prod_inv (g_ring g) (xsk_tx (io_xsk io)) (w_tx (io_world io))"
    and "cons_inv (g_ring g) (xsk_rx (io_xsk io)) (w_rx (io_world io))"
    and "cons_inv (g_ring g) (xsk_completion (io_xsk io)) (w_cq (io_world io))"
  using assms by (simp_all add: rings_ok_def)

lemma io_inv_rings: "io_inv g kr kt skip staged io \<Longrightarrow> rings_ok g io"
  by (simp add: io_inv_def)

lemma io_inv_geometry: "io_inv g kr kt skip staged io \<Longrightarrow> geometry_ok g"
  by (simp add: io_inv_def)

lemma rx_readable_range_ok:
  assumes K: "kernel_contract g kr kt K" and inv: "io_inv g kr kt skip staged io"
    and call: "rx_readable_range K b io = (w, io')"
  shows "io_quiet g kr kt io io'" and "start w = cached_cons (xsk_rx (io_xsk io'))"
    and "unat (amount w) \<le> unat (cached_prod (xsk_rx (io_xsk io')) - cached_cons (xsk_rx (io_xsk io')))"
    and "unat (amount w) \<le> length (rx_queue io')" and "amount w \<le> b"
    and "amount w = 0 \<longleftrightarrow> b = 0 \<or> rx_queue io' = []"
proof -
  let ?io = "kernel_progress K io"
  have q: "io_quiet g kr kt io ?io" by (rule kernel_progress_quiet [OF K inv])
  note rings = io_inv_rings [OF io_quiet_inv [OF q inv]]
  from call obtain r where r: "readable_range b (xsk_rx (io_xsk ?io)) (w_rx (io_world ?io)) = (w, r)"
    and io': "io' = ?io\<lparr>io_xsk := (io_xsk ?io)\<lparr>xsk_rx := r\<rparr>\<rparr>"
    by (auto simp: rx_readable_range_def Let_def split: prod.splits)
  note win = readable_range_window [OF rings_okD(3) [OF rings] r]
  have "handles_kept ?io io'"
    using r win(5) by (auto simp: handles_kept_def io' readable_range_def Let_def)
  then have "io_quiet g kr kt ?io io'"
    unfolding io' using win(4) by (intro handle_quiet) (auto simp: rings_ok_def)
  with q show "io_quiet g kr kt io io'" by (rule io_quiet_trans)
  show "start w = cached_cons (xsk_rx (io_xsk io'))"
    "unat (amount w) \<le> unat (cached_prod (xsk_rx (io_xsk io')) - cached_cons (xsk_rx (io_xsk io')))"
    "unat (amount w) \<le> length (rx_queue io')" "amount w \<le> b"
    "amount w = 0 \<longleftrightarrow> b = 0 \<or> rx_queue io' = []"
    using win by (simp_all add: io' queue_defs word_le_nat_alt)
qed

lemma cq_readable_range_ok:
  assumes K: "kernel_contract g kr kt K" and inv: "io_inv g kr kt skip staged io"
    and call: "cq_readable_range K b io = (w, io')"
  shows "io_quiet g kr kt io io'" and "start w = cached_cons (xsk_completion (io_xsk io'))"
    and "unat (amount w) \<le>
      unat (cached_prod (xsk_completion (io_xsk io')) - cached_cons (xsk_completion (io_xsk io')))"
    and "unat (amount w) \<le> length (cq_queue io')" and "amount w \<le> b"
    and "amount w = 0 \<longleftrightarrow> b = 0 \<or> cq_queue io' = []"
    and "xsk_tx (io_xsk io') = xsk_tx (io_xsk io)"
proof -
  let ?io = "kernel_progress K io"
  have q: "io_quiet g kr kt io ?io" by (rule kernel_progress_quiet [OF K inv])
  note rings = io_inv_rings [OF io_quiet_inv [OF q inv]]
  from call obtain r where
    r: "readable_range b (xsk_completion (io_xsk ?io)) (w_cq (io_world ?io)) = (w, r)"
    and io': "io' = ?io\<lparr>io_xsk := (io_xsk ?io)\<lparr>xsk_completion := r\<rparr>\<rparr>"
    by (auto simp: cq_readable_range_def Let_def split: prod.splits)
  note win = readable_range_window [OF rings_okD(4) [OF rings] r]
  have "io_quiet g kr kt ?io io'"
    unfolding io' using win(4) by (intro handle_quiet) (auto simp: rings_ok_def handles_kept_def)
  with q show "io_quiet g kr kt io io'" by (rule io_quiet_trans)
  show "start w = cached_cons (xsk_completion (io_xsk io'))"
    "unat (amount w) \<le>
      unat (cached_prod (xsk_completion (io_xsk io')) - cached_cons (xsk_completion (io_xsk io')))"
    "unat (amount w) \<le> length (cq_queue io')" "amount w \<le> b"
    "amount w = 0 \<longleftrightarrow> b = 0 \<or> cq_queue io' = []"
    "xsk_tx (io_xsk io') = xsk_tx (io_xsk io)"
    using win by (simp_all add: io' queue_defs word_le_nat_alt kernel_progress_def)
qed

lemma tx_writable_range_ok:
  assumes K: "kernel_contract g kr kt K" and inv: "io_inv g kr kt skip staged io"
    and call: "tx_writable_range K q io = (w, io')"
  shows "io_quiet g kr kt io io'" and "start w = cached_prod (xsk_tx (io_xsk io'))"
    and "unat (amount w) = min (unat q) (unat (g_ring g) - length (tx_queue io'))"
    and "unat (amount w) \<le> ring_room (xsk_tx (io_xsk io'))"
proof -
  let ?io = "kernel_progress K io"
  have q: "io_quiet g kr kt io ?io" by (rule kernel_progress_quiet [OF K inv])
  note rings = io_inv_rings [OF io_quiet_inv [OF q inv]]
  from call obtain r where r: "writable_range q (xsk_tx (io_xsk ?io)) (w_tx (io_world ?io)) = (w, r)"
    and io': "io' = ?io\<lparr>io_xsk := (io_xsk ?io)\<lparr>xsk_tx := r\<rparr>\<rparr>"
    by (auto simp: tx_writable_range_def Let_def split: prod.splits)
  note win = writable_range_grant [OF rings_okD(2) [OF rings] r]
  have "ring_room (xsk_tx (io_xsk ?io)) \<le> ring_room r"
    by (rule writable_range_room [OF rings_okD(2) [OF rings] r])
  then have "io_quiet g kr kt ?io io'"
    unfolding io' using win(4,5) by (intro handle_quiet) (auto simp: rings_ok_def handles_kept_def)
  with q show "io_quiet g kr kt io io'" by (rule io_quiet_trans)
  show "start w = cached_prod (xsk_tx (io_xsk io'))"
    "unat (amount w) = min (unat q) (unat (g_ring g) - length (tx_queue io'))"
    "unat (amount w) \<le> ring_room (xsk_tx (io_xsk io'))"
    using win by (simp_all add: io' queue_defs)
qed

lemma fill_writable_range_ok:
  assumes K: "kernel_contract g kr kt K" and inv: "io_inv g kr kt skip staged io"
    and call: "fill_writable_range K q io = (w, io')"
  shows "io_quiet g kr kt io io'" and "start w = cached_prod (xsk_fill (io_xsk io'))"
    and "unat (amount w) = min (unat q) (unat (g_ring g) - length (fill_queue io'))"
    and "unat (amount w) \<le> ring_room (xsk_fill (io_xsk io'))"
proof -
  let ?io = "kernel_progress K io"
  have q: "io_quiet g kr kt io ?io" by (rule kernel_progress_quiet [OF K inv])
  note rings = io_inv_rings [OF io_quiet_inv [OF q inv]]
  from call obtain r where r: "writable_range q (xsk_fill (io_xsk ?io)) (w_fill (io_world ?io)) = (w, r)"
    and io': "io' = ?io\<lparr>io_xsk := (io_xsk ?io)\<lparr>xsk_fill := r\<rparr>\<rparr>"
    by (auto simp: fill_writable_range_def Let_def split: prod.splits)
  note win = writable_range_grant [OF rings_okD(1) [OF rings] r]
  have "io_quiet g kr kt ?io io'"
    unfolding io' using win(4) by (intro handle_quiet) (auto simp: rings_ok_def handles_kept_def)
  with q show "io_quiet g kr kt io io'" by (rule io_quiet_trans)
  show "start w = cached_prod (xsk_fill (io_xsk io'))"
    "unat (amount w) = min (unat q) (unat (g_ring g) - length (fill_queue io'))"
    "unat (amount w) \<le> ring_room (xsk_fill (io_xsk io'))"
    using win by (simp_all add: io' queue_defs)
qed

lemma fill_queued_entry_count_ok:
  assumes "kernel_contract g kr kt K" "io_inv g kr kt skip staged io"
    and "fill_queued_entry_count K io = (c, io')"
  shows "io_quiet g kr kt io io'" and "unat c = length (fill_queue io')"
  using assms(3) kernel_progress_quiet [OF assms(1,2)]
  by (auto simp: fill_queued_entry_count_def queued_entry_count_def fill_queue_def Let_def)

lemma need_wakeup_ok:
  assumes "kernel_contract g kr kt K" "io_inv g kr kt skip staged io"
  shows "fill_need_wakeup K io = (b, io') \<Longrightarrow> io_quiet g kr kt io io'"
    and "tx_need_wakeup K io = (b, io') \<Longrightarrow> io_quiet g kr kt io io'"
  using kernel_progress_quiet [OF assms]
  by (auto simp: fill_need_wakeup_def tx_need_wakeup_def Let_def)

lemma syscall_quiet:
  assumes "kernel_contract g kr kt K" "io_inv g kr kt skip staged io"
  shows "io_quiet g kr kt io (io\<lparr>io_world := snd (k_recvfrom K (io_world io))\<rparr>)"
    and "io_quiet g kr kt io (io\<lparr>io_world := snd (k_sendto K (io_world io))\<rparr>)"
  using assms(1) io_inv_world_ok [OF assms(2)] kernel_guar_quiet [OF assms(2)]
  by (auto simp: kernel_contract_def)

text \<open>A wakeup, whatever it returns, moves nothing on the worker's side.\<close>

lemma request_rx_progress_quiet:
  assumes K: "kernel_contract g kr kt K" and inv: "io_inv g kr kt skip staged io"
    and call: "request_rx_progress K io = (res, io')"
  shows "io_quiet g kr kt io io'"
proof (cases "xsk_busy_poll (io_xsk io)")
  case True
  then show ?thesis using call syscall_quiet(1) [OF K inv]
    by (auto simp: request_rx_progress_def Let_def split: prod.splits if_splits)
next
  case False
  obtain b io1 where nw: "fill_need_wakeup K io = (b, io1)" by (rule prod.exhaust)
  have q: "io_quiet g kr kt io io1" by (rule need_wakeup_ok(1) [OF K inv nw])
  show ?thesis
    using call False nw q syscall_quiet(1) [OF K io_quiet_inv [OF q inv]]
    by (auto simp: request_rx_progress_def Let_def intro: io_quiet_trans split: prod.splits if_splits)
qed

lemma request_tx_progress_quiet:
  assumes K: "kernel_contract g kr kt K" and inv: "io_inv g kr kt skip staged io"
    and call: "request_tx_progress K io = (res, io')"
  shows "io_quiet g kr kt io io'"
proof (cases "xsk_busy_poll (io_xsk io)")
  case True
  then show ?thesis using call syscall_quiet(2) [OF K inv]
    by (auto simp: request_tx_progress_def Let_def split: prod.splits if_splits)
next
  case False
  obtain b io1 where nw: "tx_need_wakeup K io = (b, io1)" by (rule prod.exhaust)
  have q: "io_quiet g kr kt io io1" by (rule need_wakeup_ok(2) [OF K inv nw])
  show ?thesis
    using call False nw q syscall_quiet(2) [OF K io_quiet_inv [OF q inv]]
    by (auto simp: request_tx_progress_def Let_def intro: io_quiet_trans split: prod.splits if_splits)
qed

text \<open>Operations that move entries of one ring; everything else stays as it is.\<close>

lemma rx_desc_at_queue:
  assumes "rings_ok g io" "i < length (rx_queue io)"
  shows "rx_desc_at (cached_cons (xsk_rx (io_xsk io)) + of_nat i) io = Some (rx_queue io ! i)"
  using consumer.entry_queue [OF rings_okD(3) [OF assms(1)]] assms(2)
  by (simp add: rx_desc_at_def rx_queue_def)

lemma cq_desc_at_queue:
  assumes "rings_ok g io" "i < length (cq_queue io)"
  shows "cq_desc_at (cached_cons (xsk_completion (io_xsk io)) + of_nat i) io = Some (cq_queue io ! i)"
  using consumer.entry_queue [OF rings_okD(4) [OF assms(1)]] assms(2)
  by (simp add: cq_desc_at_def cq_queue_def)

lemma rx_release_queues:
  assumes "rings_ok g io" "k \<le> unat (cached_prod (xsk_rx (io_xsk io)) - cached_cons (xsk_rx (io_xsk io)))"
  defines "io' \<equiv> rx_release (of_nat k) io"
  shows "rings_ok g io'" and "rx_queue io' = drop k (rx_queue io)"
    and "tx_queue io' = tx_queue io" "fill_queue io' = fill_queue io" "cq_queue io' = cq_queue io"
    and "io_alloc io' = io_alloc io" "w_umem (io_world io') = w_umem (io_world io)"
      "w_kern (io_world io') = w_kern (io_world io)" "xsk_tx (io_xsk io') = xsk_tx (io_xsk io)"
      "w_tx (io_world io') = w_tx (io_world io)" "xsk_fill (io_xsk io') = xsk_fill (io_xsk io)"
      "xsk_busy_poll (io_xsk io') = xsk_busy_poll (io_xsk io)"
proof -
  obtain r s where rs: "release_consumed_entries (of_nat k) (xsk_rx (io_xsk io)) (w_rx (io_world io)) = (r, s)"
    by (rule prod.exhaust)
  note rel = consumer.release_inv [OF rings_okD(3) [OF assms(1)] assms(2) rs]
    consumer.release_queue [OF rings_okD(3) [OF assms(1)] assms(2) rs]
  show "rings_ok g io'"
    using assms(1) rel(1) by (simp add: io'_def rx_release_def rs rings_ok_def)
  show "rx_queue io' = drop k (rx_queue io)"
    using rel(2) by (simp add: io'_def rx_release_def rs rx_queue_def)
qed (simp_all add: io'_def rx_release_def release_consumed_entries_def queue_defs)

lemma cq_release_queues:
  assumes "rings_ok g io"
    "k \<le> unat (cached_prod (xsk_completion (io_xsk io)) - cached_cons (xsk_completion (io_xsk io)))"
  defines "io' \<equiv> cq_release (of_nat k) io"
  shows "rings_ok g io'" and "cq_queue io' = drop k (cq_queue io)"
    and "tx_queue io' = tx_queue io" "fill_queue io' = fill_queue io" "rx_queue io' = rx_queue io"
    and "io_alloc io' = io_alloc io" "w_umem (io_world io') = w_umem (io_world io)"
      "w_kern (io_world io') = w_kern (io_world io)" "xsk_tx (io_xsk io') = xsk_tx (io_xsk io)"
      "w_tx (io_world io') = w_tx (io_world io)" "xsk_rx (io_xsk io') = xsk_rx (io_xsk io)"
      "xsk_busy_poll (io_xsk io') = xsk_busy_poll (io_xsk io)"
proof -
  obtain r s where rs: "release_consumed_entries (of_nat k) (xsk_completion (io_xsk io)) (w_cq (io_world io)) = (r, s)"
    by (rule prod.exhaust)
  note rel = consumer.release_inv [OF rings_okD(4) [OF assms(1)] assms(2) rs]
    consumer.release_queue [OF rings_okD(4) [OF assms(1)] assms(2) rs]
  show "rings_ok g io'"
    using assms(1) rel(1) by (simp add: io'_def cq_release_def rs rings_ok_def)
  show "cq_queue io' = drop k (cq_queue io)"
    using rel(2) by (simp add: io'_def cq_release_def rs cq_queue_def)
qed (simp_all add: io'_def cq_release_def release_consumed_entries_def queue_defs)

lemma tx_publish_queues:
  assumes "rings_ok g io" "k \<le> ring_room (xsk_tx (io_xsk io))"
  defines "io' \<equiv> tx_publish (of_nat k) io"
  shows "rings_ok g io'" and "tx_queue io' = tx_queue io @ tx_pending io k"
    and "rx_queue io' = rx_queue io" "fill_queue io' = fill_queue io" "cq_queue io' = cq_queue io"
    and "io_alloc io' = io_alloc io" "w_umem (io_world io') = w_umem (io_world io)"
      "w_kern (io_world io') = w_kern (io_world io)" "xsk_rx (io_xsk io') = xsk_rx (io_xsk io)"
      "xsk_busy_poll (io_xsk io') = xsk_busy_poll (io_xsk io)"
proof -
  obtain r s where rs: "publish_written_entries (of_nat k) (xsk_tx (io_xsk io)) (w_tx (io_world io)) = (r, s)"
    by (rule prod.exhaust)
  note pub = producer.publish_inv [OF rings_okD(2) [OF assms(1)] assms(2) rs]
    producer.publish_queue [OF rings_okD(2) [OF assms(1)] assms(2) rs]
  show "rings_ok g io'"
    using assms(1) pub(1) by (simp add: io'_def tx_publish_def rs rings_ok_def)
  show "tx_queue io' = tx_queue io @ tx_pending io k"
    using pub(2) by (simp add: io'_def tx_publish_def rs tx_queue_def tx_pending_def)
qed (simp_all add: io'_def tx_publish_def publish_written_entries_def queue_defs)

lemma fill_publish_queues:
  assumes "rings_ok g io" "k \<le> ring_room (xsk_fill (io_xsk io))"
  defines "io' \<equiv> fill_publish (of_nat k) io"
  shows "rings_ok g io'"
    and "fill_queue io' = fill_queue io @ ring_pending (xsk_fill (io_xsk io)) (w_fill (io_world io)) k"
    and "rx_queue io' = rx_queue io" "tx_queue io' = tx_queue io" "cq_queue io' = cq_queue io"
    and "io_alloc io' = io_alloc io" "w_umem (io_world io') = w_umem (io_world io)"
      "w_kern (io_world io') = w_kern (io_world io)" "xsk_rx (io_xsk io') = xsk_rx (io_xsk io)"
      "xsk_tx (io_xsk io') = xsk_tx (io_xsk io)" "w_tx (io_world io') = w_tx (io_world io)"
      "xsk_busy_poll (io_xsk io') = xsk_busy_poll (io_xsk io)"
proof -
  obtain r s where rs: "publish_written_entries (of_nat k) (xsk_fill (io_xsk io)) (w_fill (io_world io)) = (r, s)"
    by (rule prod.exhaust)
  note pub = producer.publish_inv [OF rings_okD(1) [OF assms(1)] assms(2) rs]
    producer.publish_queue [OF rings_okD(1) [OF assms(1)] assms(2) rs]
  show "rings_ok g io'"
    using assms(1) pub(1) by (simp add: io'_def fill_publish_def rs rings_ok_def)
  show "fill_queue io' = fill_queue io @ ring_pending (xsk_fill (io_xsk io)) (w_fill (io_world io)) k"
    using pub(2) by (simp add: io'_def fill_publish_def rs fill_queue_def)
qed (simp_all add: io'_def fill_publish_def publish_written_entries_def queue_defs)

lemma tx_desc_put_ok:
  assumes "rings_ok g io" "j < ring_room (xsk_tx (io_xsk io))"
  shows "\<exists>s. tx_desc_put (cached_prod (xsk_tx (io_xsk io)) + of_nat j) d io =
      Some (io\<lparr>io_world := (io_world io)\<lparr>w_tx := s\<rparr>\<rparr>) \<and>
    rings_ok g (io\<lparr>io_world := (io_world io)\<lparr>w_tx := s\<rparr>\<rparr>) \<and>
    ring_queue s = tx_queue io \<and> ring_pending (xsk_tx (io_xsk io)) s (Suc j) = tx_pending io j @ [d]"
proof -
  note inv = rings_okD(2) [OF assms(1)]
  from producer.put_total [OF inv assms(2)] obtain s where
    s: "desc_put (cached_prod (xsk_tx (io_xsk io)) + of_nat j) d (xsk_tx (io_xsk io)) (w_tx (io_world io)) = Some s"
    by blast
  note put = producer.put_inv [OF inv assms(2) s] producer.put_queue [OF inv assms(2) s]
    producer.put_pending [OF inv assms(2) s]
  show ?thesis
    using assms(1) put by (auto simp: tx_desc_put_def s rings_ok_def tx_queue_def tx_pending_def)
qed

lemma fill_desc_put_ok:
  assumes "rings_ok g io" "j < ring_room (xsk_fill (io_xsk io))"
  shows "\<exists>s. fill_desc_put (cached_prod (xsk_fill (io_xsk io)) + of_nat j) d io =
      Some (io\<lparr>io_world := (io_world io)\<lparr>w_fill := s\<rparr>\<rparr>) \<and>
    rings_ok g (io\<lparr>io_world := (io_world io)\<lparr>w_fill := s\<rparr>\<rparr>) \<and>
    ring_queue s = fill_queue io \<and>
    ring_pending (xsk_fill (io_xsk io)) s (Suc j) =
      ring_pending (xsk_fill (io_xsk io)) (w_fill (io_world io)) j @ [d]"
proof -
  note inv = rings_okD(1) [OF assms(1)]
  from producer.put_total [OF inv assms(2)] obtain s where
    s: "desc_put (cached_prod (xsk_fill (io_xsk io)) + of_nat j) d (xsk_fill (io_xsk io)) (w_fill (io_world io)) = Some s"
    by blast
  note put = producer.put_inv [OF inv assms(2) s] producer.put_queue [OF inv assms(2) s]
    producer.put_pending [OF inv assms(2) s]
  show ?thesis
    using assms(1) put by (auto simp: fill_desc_put_def s rings_ok_def fill_queue_def)
qed

section \<open>Refilling the fill ring\<close>

text \<open>
  What the loop of \<open>refill_fill\<close> has done when it stops: the frames \<open>xs\<close> left the top of the
  allocator's stack, in that order, for the slots from \<open>pushed\<close> on.
\<close>

definition refilled :: "geometry \<Rightarrow> u32 \<Rightarrow> nat \<Rightarrow> 'k io \<Rightarrow> u64 list \<Rightarrow> 'k io \<Rightarrow> bool" where
  "refilled g n pushed io xs io' \<longleftrightarrow> rings_ok g io' \<and> alloc_inv (g_cap g) (io_alloc io') \<and>
     free_frames (io_alloc io) = free_frames (io_alloc io') @ rev xs \<and>
     pushed + length xs \<le> unat n \<and> (pushed + length xs = unat n \<or> free_frames (io_alloc io') = []) \<and>
     fill_queue io' = fill_queue io \<and>
     ring_pending (xsk_fill (io_xsk io)) (w_fill (io_world io')) (pushed + length xs) =
       ring_pending (xsk_fill (io_xsk io)) (w_fill (io_world io)) pushed @ xs \<and>
     (\<exists>a s. io' = io\<lparr>io_alloc := a, io_world := (io_world io)\<lparr>w_fill := s\<rparr>\<rparr>)"

lemma refilled_Nil:
  assumes "rings_ok g io" "alloc_inv (g_cap g) (io_alloc io)" "p \<le> unat n"
    and "p = unat n \<or> free_frames (io_alloc io) = []"
  shows "refilled g n p io [] io"
proof -
  have "\<exists>a s. io = io\<lparr>io_alloc := a, io_world := (io_world io)\<lparr>w_fill := s\<rparr>\<rparr>"
    by (rule exI [of _ "io_alloc io"], rule exI [of _ "w_fill (io_world io)"]) simp
  with assms show ?thesis by (auto simp: refilled_def)
qed

lemma refill_loop_ok:
  "rings_ok g io \<Longrightarrow> alloc_inv (g_cap g) (io_alloc io) \<Longrightarrow>
   strt = cached_prod (xsk_fill (io_xsk io)) \<Longrightarrow> pushed \<le> n \<Longrightarrow>
   unat n \<le> ring_room (xsk_fill (io_xsk io)) \<Longrightarrow>
   \<exists>xs io'. refill_loop n strt pushed io = Some (of_nat (unat pushed + length xs), io') \<and>
     refilled g n (unat pushed) io xs io'"
proof (induction n strt pushed io rule: refill_loop.induct)
  case (1 n strt pushed io)
  show ?case
  proof (cases "pushed < n \<and> free_frames (io_alloc io) \<noteq> []")
    case False
    then have "refill_loop n strt pushed io = Some (pushed, io)"
      using pool.take_empty [OF "1.prems"(2)] by (subst refill_loop.simps) auto
    moreover have "refilled g n (unat pushed) io [] io"
      using False "1.prems" by (intro refilled_Nil) (auto simp: word_le_nat_alt)
    ultimately show ?thesis by (intro exI [of _ "[]"] exI [of _ io]) simp
  next
    case True
    then obtain f a where al: "alloc (io_alloc io) = Some (Some f, a)" "alloc_inv (g_cap g) a"
        "free_frames (io_alloc io) = free_frames a @ [f]"
      using pool.take_cases [OF "1.prems"(2)] by auto
    let ?io = "io\<lparr>io_alloc := a\<rparr>"
    have room: "unat pushed < ring_room (xsk_fill (io_xsk ?io))"
      using True "1.prems"(5) by (simp add: word_less_nat_alt)
    have "rings_ok g ?io" using "1.prems"(1) by (simp add: rings_ok_def)
    from fill_desc_put_ok [OF this room, of f] obtain s where
      put: "fill_desc_put (strt + pushed) f ?io = Some (?io\<lparr>io_world := (io_world io)\<lparr>w_fill := s\<rparr>\<rparr>)"
        "rings_ok g (?io\<lparr>io_world := (io_world io)\<lparr>w_fill := s\<rparr>\<rparr>)" "ring_queue s = fill_queue io"
        "ring_pending (xsk_fill (io_xsk io)) s (Suc (unat pushed)) =
          ring_pending (xsk_fill (io_xsk io)) (w_fill (io_world io)) (unat pushed) @ [f]"
      using "1.prems"(3) by (auto simp: fill_queue_def)
    let ?io' = "?io\<lparr>io_world := (io_world io)\<lparr>w_fill := s\<rparr>\<rparr>"
    have inc: "unat (pushed + 1) = Suc (unat pushed)" "pushed + 1 \<le> n"
      using True by (auto simp: unat_inc word_le_nat_alt word_less_nat_alt)
    have "\<exists>xs io''. refill_loop n strt (pushed + 1) ?io' = Some (of_nat (unat (pushed + 1) + length xs), io'') \<and>
        refilled g n (unat (pushed + 1)) ?io' xs io''"
      using True al put inc "1.prems" by (intro "1.IH") auto
    then obtain xs io'' where rec: "refill_loop n strt (pushed + 1) ?io' = Some (of_nat (unat (pushed + 1) + length xs), io'')"
        "refilled g n (Suc (unat pushed)) ?io' xs io''"
      unfolding inc by blast
    have "refill_loop n strt pushed io = Some (of_nat (unat pushed + length (f # xs)), io'')"
      using True al(1) put(1) rec(1) inc by (subst refill_loop.simps) simp
    moreover have "refilled g n (unat pushed) io (f # xs) io''"
      using rec(2) al(3) put(3,4) by (auto simp: refilled_def fill_queue_def)
    ultimately show ?thesis by blast
  qed
qed

text \<open>The run of \<open>refill_fill\<close>: query the window, loop, publish what was pushed.\<close>

lemma refill_fill_run:
  assumes K: "kernel_contract g kr kt K" and inv: "io_inv g kr kt skip staged io"
  shows "\<exists>io1 n xs io2. io_quiet g kr kt io io1 \<and> refilled g n 0 io1 xs io2 \<and>
    unat n = unat (g_ring g) - length (fill_queue io1) \<and>
    length xs \<le> ring_room (xsk_fill (io_xsk io2)) \<and>
    refill_fill K io = Some (of_nat (length xs), fill_publish (of_nat (length xs)) io2)"
proof -
  let ?cap = "capacity (xsk_fill (io_xsk io))"
  obtain w io1 where fw: "fill_writable_range K ?cap io = (w, io1)" by (rule prod.exhaust)
  note win = fill_writable_range_ok [OF K inv fw]
  have cap: "?cap = g_ring g"
    using rings_okD(1) [OF io_inv_rings [OF inv]]
    by (simp add: capacity_def prod_inv_def ring_geometry_def)
  from io_quiet_inv [OF win(1) inv] have "rings_ok g io1" "alloc_inv (g_cap g) (io_alloc io1)"
    by (auto simp: io_inv_def)
  from refill_loop_ok [OF this win(2) _ win(4), of 0] obtain xs io2 where
    loop: "refill_loop (amount w) (start w) 0 io1 = Some (of_nat (length xs), io2)"
      "refilled g (amount w) 0 io1 xs io2" by auto
  then have "rings_ok g io2" "xsk_fill (io_xsk io2) = xsk_fill (io_xsk io1)"
    by (auto simp: refilled_def)
  moreover from this have "fill_publish 0 io2 = io2"
    by (simp add: fill_publish_def publish_written_entries_def rings_ok_def prod_inv_def)
  then have "refill_fill K io = Some (of_nat (length xs), fill_publish (of_nat (length xs)) io2)"
    using fw loop(1) by (auto simp: refill_fill_def word_gt_0)
  moreover have "length xs \<le> unat (amount w)" using loop(2) by (simp add: refilled_def)
  ultimately show ?thesis
    using win loop(2) cap by (intro exI [of _ io1] exI [of _ "amount w"] exI [of _ xs] exI [of _ io2]) auto
qed

text \<open>
  The whole refill never faults, keeps every frame, and stops only when the fill ring is full or
  the allocator is empty: \<open>io1\<close> is the state the kernel has reached when the free slots are counted.
\<close>

lemma refill_fill_ok:
  assumes K: "kernel_contract g kr kt K" and inv: "io_inv g kr kt skip staged io"
  shows "\<exists>io1 xs io'. refill_fill K io = Some (of_nat (length xs), io') \<and>
    io_quiet g kr kt io io1 \<and> io_inv g kr kt skip staged io' \<and>
    free_frames (io_alloc io) = free_frames (io_alloc io') @ rev xs \<and>
    fill_queue io' = fill_queue io1 @ xs \<and>
    (length (fill_queue io') = unat (g_ring g) \<or> free_frames (io_alloc io') = []) \<and>
    in_flight kt io' = in_flight kt io \<and> (\<forall>j. tx_pending io' j = tx_pending io j) \<and>
    rx_queue io' = rx_queue io1 \<and> handles_kept io io' \<and>
    w_umem (io_world io') = w_umem (io_world io1)"
proof -
  from refill_fill_run [OF assms] obtain io1 n xs io2 where q: "io_quiet g kr kt io io1"
    and loop: "refilled g n 0 io1 xs io2" and n: "unat n = unat (g_ring g) - length (fill_queue io1)"
    and room: "length xs \<le> ring_room (xsk_fill (io_xsk io2))"
    and call: "refill_fill K io = Some (of_nat (length xs), fill_publish (of_nat (length xs)) io2)"
    by blast
  let ?io' = "fill_publish (of_nat (length xs)) io2"
  from loop obtain a s where io2: "io2 = io1\<lparr>io_alloc := a, io_world := (io_world io1)\<lparr>w_fill := s\<rparr>\<rparr>"
    by (auto simp: refilled_def)
  from loop have "rings_ok g io2" by (simp add: refilled_def)
  note pub = fill_publish_queues [OF this room]
  note inv1 = io_quiet_inv [OF q inv]
  have fq: "fill_queue ?io' = fill_queue io1 @ xs"
    using pub(2) loop by (simp add: refilled_def io2 ring_pending_def)
  have ff: "free_frames (io_alloc io) = free_frames (io_alloc ?io') @ rev xs"
    using loop q by (simp add: refilled_def pub io_quiet_def)
  have same: "rx_queue ?io' = rx_queue io1" "tx_queue ?io' = tx_queue io1" "cq_queue ?io' = cq_queue io1"
    "w_kern (io_world ?io') = w_kern (io_world io1)" "w_umem (io_world ?io') = w_umem (io_world io1)"
    using pub by (simp_all add: io2 queue_defs)
  have "owned g kr kt skip staged ?io' = owned g kr kt skip staged io1"
    unfolding owned_def same fq using ff q by (simp add: io_quiet_def ac_simps)
  then have inv': "io_inv g kr kt skip staged ?io'"
    using inv1 pub(1) loop by (simp add: io_inv_def same refilled_def pub)
  have "length (fill_queue io1) \<le> unat (g_ring g)"
    using prod_inv_room(3) [OF rings_okD(1) [OF io_inv_rings [OF inv1]]] by (simp add: fill_queue_def)
  then have "length (fill_queue ?io') = unat (g_ring g) \<or> free_frames (io_alloc ?io') = []"
    using loop n by (auto simp: refilled_def pub(6) fq)
  moreover have "in_flight kt ?io' = in_flight kt io"
    using q by (simp add: io_quiet_def in_flight_def same)
  moreover have "handles_kept io1 ?io'" "\<forall>j. tx_pending ?io' j = tx_pending io1 j"
    using pub by (simp_all add: handles_kept_def io2 tx_pending_def)
  then have "handles_kept io ?io'" "\<forall>j. tx_pending ?io' j = tx_pending io j"
    using q by (auto simp: io_quiet_def intro: handles_kept_trans)
  ultimately show ?thesis
    using call q inv' ff fq same(1,5) by blast
qed

section \<open>Counting and framing\<close>

lemma owned_size:
  assumes "io_inv g kr kt skip staged io"
  shows "length (free_frames (io_alloc io)) + length (fill_queue io) + size (kr (w_kern (io_world io))) +
    (length (rx_queue io) - skip) + length staged + in_flight kt io = unat (g_num_frames g)"
proof -
  have "size (owned g kr kt skip staged io) = size (mset (all_frames g))"
    using assms by (simp add: io_inv_def)
  then show ?thesis by (simp add: owned_def in_flight_def all_frames_def)
qed

text \<open>The RX window stays in place: entries may be appended to the queue, none removed.\<close>

definition rx_kept :: "'k io \<Rightarrow> 'k io \<Rightarrow> bool" where
  "rx_kept io io' \<longleftrightarrow> (let r = xsk_rx (io_xsk io); r' = xsk_rx (io_xsk io') in
     cached_cons r' = cached_cons r \<and>
     unat (cached_prod r - cached_cons r) \<le> unat (cached_prod r' - cached_cons r') \<and>
     (\<exists>rs. rx_queue io' = rx_queue io @ rs) \<and> xsk_busy_poll (io_xsk io') = xsk_busy_poll (io_xsk io))"

lemma rx_kept_refl [simp, intro!]: "rx_kept io io"
  by (simp add: rx_kept_def)

lemma rx_kept_trans: "rx_kept a b \<Longrightarrow> rx_kept b c \<Longrightarrow> rx_kept a c"
  by (auto simp: rx_kept_def Let_def)

lemma io_quiet_rx_kept: "io_quiet g kr kt io io' \<Longrightarrow> rx_kept io io'"
  by (auto simp: io_quiet_def rx_kept_def handles_kept_def Let_def)

lemma rx_keptI:
  assumes "xsk_rx (io_xsk io') = xsk_rx (io_xsk io)" "rx_queue io' = rx_queue io"
    "xsk_busy_poll (io_xsk io') = xsk_busy_poll (io_xsk io)"
  shows "rx_kept io io'"
  using assms by (simp add: rx_kept_def)

end
