(* ===== verification/Transmitter.thy ===== *)
theory Transmitter
  imports Ownership
begin

text \<open>
  \<^verbatim>\<open>include/afxdp/transmitter.hpp\<close>: staging received frames for transmission in place, publishing
  the staged batch, taking completed frames back and draining at shutdown. The transmitter shares
  the socket and the allocator with the receiver, so its operations pass the common state \<open>io\<close>.
  \<open>tx_inv\<close> ties its counters to the rings: the staged descriptors are the first \<open>tx_used\<close> pending
  slots of the TX window, and \<open>outstanding\<close> is the number of frames the kernel still owes.
\<close>

record Transmitter =
  tr_frame_size :: u32
  tr_frame_mask :: u64
  tx_start :: u32
  tx_avail :: u32
  tx_used :: u32
  reserved :: bool
  outstanding :: u32
  frames_submitted :: u64
  frames_reclaimed :: u64
  frames_rejected :: u64
  retryable_wakeup_errors :: u64
  tx_first_wakeup_error :: int

definition Transmitter_new :: "u32 \<Rightarrow> Transmitter option" where
  "Transmitter_new frame_size =
     (if frame_size \<noteq> 0 \<and> (frame_size AND (frame_size - 1)) = 0
      then Some \<lparr>tr_frame_size = frame_size, tr_frame_mask = frame_mask frame_size,
                 tx_start = 0, tx_avail = 0, tx_used = 0, reserved = False, outstanding = 0,
                 frames_submitted = 0, frames_reclaimed = 0, frames_rejected = 0,
                 retryable_wakeup_errors = 0, tx_first_wakeup_error = 0\<rparr>
      else None)"

section \<open>Taking completed frames back\<close>

function reclaim_loop :: "u64 \<Rightarrow> u32 \<Rightarrow> u32 \<Rightarrow> u32 \<Rightarrow> 'k io \<Rightarrow> 'k io option" where
  "reclaim_loop fmask strt n i io =
     (if i < n
      then do {
        addr \<leftarrow> cq_desc_at (strt + i) io;
        a \<leftarrow> free (addr AND fmask) (io_alloc io);
        reclaim_loop fmask strt n (i + 1) (io\<lparr>io_alloc := a\<rparr>) }
      else Some io)"
  by pat_completeness auto
termination
  by (relation "measure (\<lambda>(fmask, strt, n, i, io). unat n - unat i)") (auto simp: unat_Suc_less)

declare reclaim_loop.simps [simp del]

definition reclaim_completed_frames ::
  "'k kernel \<Rightarrow> u32 \<Rightarrow> Transmitter \<Rightarrow> 'k io \<Rightarrow> (u32 \<times> Transmitter \<times> 'k io) option" where
  "reclaim_completed_frames K budget tr io0 =
     (let (w, io) = cq_readable_range K budget io0; n = amount w
      in if n = 0 then Some (0, tr, io)
         else if \<not> n \<le> outstanding tr then None
         else do {
           io \<leftarrow> reclaim_loop (tr_frame_mask tr) (start w) n 0 io;
           Some (n, tr\<lparr>outstanding := outstanding tr - n,
                      frames_reclaimed := frames_reclaimed tr + ucast n\<rparr>, cq_release n io) })"

section \<open>Staging\<close>

definition reject :: "Transmitter \<Rightarrow> Transmitter" where
  "reject tr = tr\<lparr>frames_rejected := frames_rejected tr + 1\<rparr>"

text \<open>The first staging of a batch reserves the whole free part of the TX ring.\<close>

definition reserve_window :: "'k kernel \<Rightarrow> Transmitter \<Rightarrow> 'k io \<Rightarrow> Transmitter \<times> 'k io" where
  "reserve_window K tr io =
     (if \<not> reserved tr
      then let (w, io) = tx_writable_range K (capacity (xsk_tx (io_xsk io))) io
           in (tr\<lparr>tx_avail := amount w, tx_start := start w, tx_used := 0, reserved := True\<rparr>, io)
      else (tr, io))"

text \<open>A used-up window is measured again; the result tells whether it is still used up.\<close>

definition refresh_window :: "'k kernel \<Rightarrow> Transmitter \<Rightarrow> 'k io \<Rightarrow> bool \<times> Transmitter \<times> 'k io" where
  "refresh_window K tr io =
     (if tx_used tr = tx_avail tr
      then let (w, io) = tx_writable_range K (capacity (xsk_tx (io_xsk io))) io;
               tr = tr\<lparr>tx_avail := amount w\<rparr>
           in (tx_used tr = tx_avail tr, tr, io)
      else (False, tr, io))"

definition send_in_place ::
  "'k kernel \<Rightarrow> u64 \<Rightarrow> u32 \<Rightarrow> Transmitter \<Rightarrow> 'k io \<Rightarrow> (bool \<times> Transmitter \<times> 'k io) option" where
  "send_in_place K addr len tr io =
     (if len = 0 \<or> len > tr_frame_size tr then Some (False, reject tr, io)
      else
        let (tr, io) = reserve_window K tr io;
            (full, tr, io) = refresh_window K tr io
        in if full then Some (False, reject tr, io)
           else do {
             io \<leftarrow> tx_desc_put (tx_start tr + tx_used tr)
                     \<lparr>d_addr = addr, d_len = len, d_options = 0\<rparr> io;
             Some (True, tr\<lparr>tx_used := tx_used tr + 1\<rparr>, io) })"

section \<open>Publication and service\<close>

definition publish_staged :: "Transmitter \<Rightarrow> 'k io \<Rightarrow> Transmitter \<times> 'k io" where
  "publish_staged tr io =
     (let (tr, io) =
        (if tx_used tr > 0
         then (tr\<lparr>outstanding := outstanding tr + tx_used tr,
                  frames_submitted := frames_submitted tr + ucast (tx_used tr)\<rparr>,
               tx_publish (tx_used tr) io)
         else (tr, io))
      in (tr\<lparr>tx_used := 0, reserved := False\<rparr>, io))"

definition note_wakeup :: "int + unit \<Rightarrow> Transmitter \<Rightarrow> Transmitter" where
  "note_wakeup result tr =
     (case result of
        Inr _ \<Rightarrow> tr
      | Inl error \<Rightarrow>
          if is_expected_wakeup_retry error \<or> error = ENOBUFS
          then tr\<lparr>retryable_wakeup_errors := retryable_wakeup_errors tr + 1\<rparr>
          else if tx_first_wakeup_error tr = 0 then tr\<lparr>tx_first_wakeup_error := error\<rparr> else tr)"

definition publish_and_service_tx ::
  "'k kernel \<Rightarrow> Transmitter \<Rightarrow> 'k io \<Rightarrow> (Transmitter \<times> 'k io) option" where
  "publish_and_service_tx K tr0 io0 =
     (let (tr, io) = publish_staged tr0 io0
      in if outstanding tr = 0 then Some (tr, io)
         else do {
           let budget = capacity (xsk_completion (io_xsk io));
           (reaped, tr, io) \<leftarrow> reclaim_completed_frames K budget tr io;
           if outstanding tr = 0 then Some (tr, io)
           else
             let (result, io) = request_tx_progress K io;
                 tr = note_wakeup result tr
             in if reaped < budget
                then do { (_, tr, io) \<leftarrow> reclaim_completed_frames K (budget - reaped) tr io; Some (tr, io) }
                else Some (tr, io) })"

text \<open>
  The loop of \<open>drain_until\<close>; \<open>clk i\<close> is what the clock shows when it is read for the \<open>i\<close>-th time.
  Here \<open>None\<close> is a fault or a loop that does not end.
\<close>

partial_function (option) drain_loop ::
  "'k kernel \<Rightarrow> (nat \<Rightarrow> int) \<Rightarrow> int \<Rightarrow> nat \<Rightarrow> Transmitter \<Rightarrow> 'k io \<Rightarrow> (u32 \<times> Transmitter \<times> 'k io) option" where
  "drain_loop K clk deadline i tr io =
     Option.bind (publish_and_service_tx K tr io) (\<lambda>(tr', io').
       if outstanding tr' \<noteq> 0 \<and> clk i < deadline
       then drain_loop K clk deadline (Suc i) tr' io'
       else Some (outstanding tr', tr', io'))"

definition drain_until ::
  "'k kernel \<Rightarrow> (nat \<Rightarrow> int) \<Rightarrow> int \<Rightarrow> Transmitter \<Rightarrow> 'k io \<Rightarrow> (u32 \<times> Transmitter \<times> 'k io) option" where
  "drain_until K clk deadline tr io = drain_loop K clk deadline 0 tr io"

record Transmitter_Stats =
  st_frames_submitted :: u64
  st_frames_reclaimed :: u64
  st_frames_rejected :: u64
  st_retryable_wakeup_errors :: u64
  st_tx_first_wakeup_error :: int

definition transmitter_stats :: "Transmitter \<Rightarrow> Transmitter_Stats" where
  "transmitter_stats tr =
     \<lparr>st_frames_submitted = frames_submitted tr, st_frames_reclaimed = frames_reclaimed tr,
      st_frames_rejected = frames_rejected tr, st_retryable_wakeup_errors = retryable_wakeup_errors tr,
      st_tx_first_wakeup_error = tx_first_wakeup_error tr\<rparr>"

declare reclaim_completed_frames_def [tx_defs] send_in_place_def [tx_defs]
  publish_staged_def [tx_defs] publish_and_service_tx_def [tx_defs]

section \<open>Invariant\<close>

definition tx_inv ::
  "geometry \<Rightarrow> ('k \<Rightarrow> u64 multiset) \<Rightarrow> ('k \<Rightarrow> u64 multiset) \<Rightarrow> nat \<Rightarrow> Transmitter \<Rightarrow> 'k io \<Rightarrow> bool" where
  "tx_inv g kr kt skip tr io \<longleftrightarrow>
     io_inv g kr kt skip (tx_pending io (unat (tx_used tr))) io \<and>
     tr_frame_size tr = g_frame_size g \<and> tr_frame_mask tr = frame_mask (g_frame_size g) \<and>
     (if reserved tr
      then tx_start tr = cached_prod (xsk_tx (io_xsk io)) \<and> tx_used tr \<le> tx_avail tr \<and>
           unat (tx_avail tr) \<le> ring_room (xsk_tx (io_xsk io))
      else tx_used tr = 0) \<and>
     unat (outstanding tr) = in_flight kt io \<and>
     frames_submitted tr = frames_reclaimed tr + ucast (outstanding tr)"

lemma tx_invD:
  assumes "tx_inv g kr kt skip tr io"
  shows "io_inv g kr kt skip (tx_pending io (unat (tx_used tr))) io"
    and "tr_frame_size tr = g_frame_size g" and "tr_frame_mask tr = frame_mask (g_frame_size g)"
    and "unat (outstanding tr) = in_flight kt io"
    and "unat (tx_used tr) \<le> ring_room (xsk_tx (io_xsk io))"
    and "rings_ok g io" and "geometry_ok g"
  using assms
  by (auto simp: tx_inv_def io_inv_def word_le_nat_alt split: if_splits)

text \<open>Kernel progress does not disturb the transmitter.\<close>

lemma tx_inv_quiet:
  assumes "io_quiet g kr kt io io'" "tx_inv g kr kt skip tr io"
  shows "tx_inv g kr kt skip tr io'"
proof -
  from assms(1) have "tx_pending io' j = tx_pending io j" for j by (simp add: io_quiet_def)
  with io_quiet_inv [OF assms(1) tx_invD(1) [OF assms(2)]] assms show ?thesis
    by (auto simp: tx_inv_def io_quiet_def handles_kept_def Let_def)
qed

section \<open>Reclaiming\<close>

lemma reclaim_loop_ok:
  "rings_ok g io \<Longrightarrow> alloc_inv (g_cap g) (io_alloc io) \<Longrightarrow>
   strt = cached_cons (xsk_completion (io_xsk io)) \<Longrightarrow> i \<le> n \<Longrightarrow> unat n \<le> length (cq_queue io) \<Longrightarrow>
   length (free_frames (io_alloc io)) + (unat n - unat i) \<le> g_cap g \<Longrightarrow>
   \<exists>a. reclaim_loop fmask strt n i io = Some (io\<lparr>io_alloc := a\<rparr>) \<and> alloc_inv (g_cap g) a \<and>
     free_frames a = free_frames (io_alloc io) @
       map (\<lambda>c. c AND fmask) (take (unat n - unat i) (drop (unat i) (cq_queue io)))"
proof (induction fmask strt n i io rule: reclaim_loop.induct)
  case (1 fmask strt n i io)
  show ?case
  proof (cases "i < n")
    case False
    with "1.prems"(4) have "i = n" by simp
    with "1.prems"(2) show ?thesis
      by (intro exI [of _ "io_alloc io"]) (simp add: reclaim_loop.simps)
  next
    case True
    then have lt: "unat i < unat n" and inc: "unat (i + 1) = Suc (unat i)"
      by (simp_all add: word_less_nat_alt unat_inc)
    have le: "i + 1 \<le> n" using lt inc by (simp add: word_le_nat_alt)
    let ?c = "cq_queue io ! unat i"
    have at: "cq_desc_at (strt + i) io = Some ?c"
      using cq_desc_at_queue [OF "1.prems"(1), of "unat i"] lt "1.prems"(3,5) by simp
    have "length (free_frames (io_alloc io)) < g_cap g" using lt "1.prems"(6) by linarith
    then obtain a where a: "free (?c AND fmask) (io_alloc io) = Some a"
        "alloc_inv (g_cap g) a" "free_frames a = free_frames (io_alloc io) @ [?c AND fmask]"
      using pool.give_top [OF "1.prems"(2), of "?c AND fmask"] by auto
    let ?io = "io\<lparr>io_alloc := a\<rparr>"
    have io: "rings_ok g ?io" "cq_queue ?io = cq_queue io"
      using "1.prems"(1) by (simp_all add: rings_ok_def cq_queue_def)
    have "\<exists>b. reclaim_loop fmask strt n (i + 1) ?io = Some (?io\<lparr>io_alloc := b\<rparr>) \<and> alloc_inv (g_cap g) b \<and>
        free_frames b = free_frames (io_alloc ?io) @
          map (\<lambda>c. c AND fmask) (take (unat n - unat (i + 1)) (drop (unat (i + 1)) (cq_queue ?io)))"
      using True at a io le lt inc "1.prems" by (intro "1.IH") auto
    then obtain b where b: "reclaim_loop fmask strt n (i + 1) ?io = Some (io\<lparr>io_alloc := b\<rparr>)"
        "alloc_inv (g_cap g) b" "free_frames b = free_frames (io_alloc io) @ (?c AND fmask) #
          map (\<lambda>c. c AND fmask) (take (unat n - Suc (unat i)) (drop (Suc (unat i)) (cq_queue io)))"
      by (auto simp: a(3) io(2) inc)
    have "take (unat n - unat i) (drop (unat i) (cq_queue io)) =
        ?c # take (unat n - Suc (unat i)) (drop (Suc (unat i)) (cq_queue io))"
      using lt "1.prems"(5) by (simp add: Suc_diff_Suc flip: Cons_nth_drop_Suc take_Suc_Cons)
    with b True at a(1) show ?thesis
      by (intro exI [of _ b]) (simp add: reclaim_loop.simps [of fmask strt n i io])
  qed
qed

text \<open>
  What a reclaim pass has done: the frames of the first \<open>n\<close> completions are on the allocator's
  stack, the completions are released, and \<open>outstanding\<close> is smaller by \<open>n\<close>.
\<close>

definition reclaimed :: "geometry \<Rightarrow> u32 \<Rightarrow> Transmitter \<Rightarrow> 'k io \<Rightarrow> Transmitter \<Rightarrow> 'k io \<Rightarrow> bool" where
  "reclaimed g n tr io tr' io' \<longleftrightarrow>
     unat n \<le> length (cq_queue io) \<and> cq_queue io' = drop (unat n) (cq_queue io) \<and>
     free_frames (io_alloc io') =
       free_frames (io_alloc io) @ map (frame_base g) (take (unat n) (cq_queue io)) \<and>
     tx_queue io' = tx_queue io \<and> rx_queue io' = rx_queue io \<and> fill_queue io' = fill_queue io \<and>
     tr' = tr\<lparr>outstanding := outstanding tr - n, frames_reclaimed := frames_reclaimed tr + ucast n\<rparr>"

lemma unat_sub_le: "unat (n :: 'a::len word) \<le> unat m \<Longrightarrow> unat (m - n) = unat m - unat n"
  by (rule unat_sub) (simp add: word_le_nat_alt)

lemma ucast_sub_u32:
  fixes m n :: u32
  assumes "n \<le> m"
  shows "(ucast m :: u64) = ucast n + ucast (m - n)"
proof -
  have "unat (ucast n + ucast (m - n) :: u64) = unat n + unat (m - n)"
    using u32_bound [of n] u32_bound [of "m - n"] by (simp add: unat_word_ariths)
  then show ?thesis
    using assms by (simp add: word_unat_eq_iff unat_sub_le word_le_nat_alt)
qed

lemma reclaim_release:
  assumes inv: "tx_inv g kr kt skip tr io" and n: "unat n \<le> length (cq_queue io)"
    and seen: "unat n \<le> unat (cached_prod (xsk_completion (io_xsk io)) - cached_cons (xsk_completion (io_xsk io)))"
    and a: "alloc_inv (g_cap g) a"
      "free_frames a = free_frames (io_alloc io) @ map (frame_base g) (take (unat n) (cq_queue io))"
  defines "io' \<equiv> cq_release n (io\<lparr>io_alloc := a\<rparr>)"
    and "tr' \<equiv> tr\<lparr>outstanding := outstanding tr - n, frames_reclaimed := frames_reclaimed tr + ucast n\<rparr>"
  shows "tx_inv g kr kt skip tr' io'" and "reclaimed g n tr io tr' io'" and "rx_kept io io'"
proof -
  let ?io = "io\<lparr>io_alloc := a\<rparr>"
  have "rings_ok g ?io" using tx_invD(6) [OF inv] by (simp add: rings_ok_def)
  note rel = cq_release_queues [OF this, of "unat n", folded io'_def, unfolded io'_def of_nat_unat_u32, folded io'_def]
  have q: "rings_ok g io'" "cq_queue io' = drop (unat n) (cq_queue io)" "tx_queue io' = tx_queue io"
    "fill_queue io' = fill_queue io" "rx_queue io' = rx_queue io" "io_alloc io' = a"
    "w_umem (io_world io') = w_umem (io_world io)" "w_kern (io_world io') = w_kern (io_world io)"
    using rel seen by (simp_all add: queue_defs)
  have tx: "xsk_tx (io_xsk io') = xsk_tx (io_xsk io)" "\<And>j. tx_pending io' j = tx_pending io j"
    using rel seen by (simp_all add: tx_pending_def)
  show "reclaimed g n tr io tr' io'" using n a by (simp add: reclaimed_def q tr'_def)
  show "rx_kept io io'" using rel seen by (intro rx_keptI) (simp_all add: q)
  let ?st = "tx_pending io (unat (tx_used tr))"
  have cq: "addr_frames g (cq_queue io) = mset (map (frame_base g) (take (unat n) (cq_queue io))) +
      addr_frames g (cq_queue io')"
    unfolding q addr_frames_def mset_map by (metis append_take_drop_id image_mset_union mset_append)
  have "owned g kr kt skip ?st io' = owned g kr kt skip ?st io"
    unfolding owned_def q by (simp add: a cq ac_simps q)
  then have io_inv: "io_inv g kr kt skip ?st io'"
    using tx_invD(1) [OF inv] a(1) by (simp add: io_inv_def q)
  have le: "unat n \<le> unat (outstanding tr)" using n tx_invD(4) [OF inv] by (simp add: in_flight_def)
  have "unat (outstanding tr') = in_flight kt io'"
    using le n tx_invD(4) [OF inv] by (simp add: tr'_def unat_sub_le in_flight_def q)
  moreover have "frames_submitted tr' = frames_reclaimed tr' + ucast (outstanding tr')"
    using inv ucast_sub_u32 [of n "outstanding tr"] le
    by (simp add: tr'_def tx_inv_def word_le_nat_alt add.assoc)
  ultimately show "tx_inv g kr kt skip tr' io'"
    using inv io_inv by (simp add: tx_inv_def tx tr'_def)
qed

lemma reclaim_ok:
  assumes K: "kernel_contract g kr kt K" and inv: "tx_inv g kr kt skip tr io"
  shows "\<exists>io1 n tr' io'. reclaim_completed_frames K budget tr io = Some (n, tr', io') \<and>
    io_quiet g kr kt io io1 \<and> reclaimed g n tr io1 tr' io' \<and> n \<le> budget \<and>
    (n = 0 \<longleftrightarrow> budget = 0 \<or> cq_queue io1 = []) \<and> tx_inv g kr kt skip tr' io' \<and> rx_kept io io'"
proof -
  obtain w io1 where cw: "cq_readable_range K budget io = (w, io1)" by (rule prod.exhaust)
  note win = cq_readable_range_ok [OF K tx_invD(1) [OF inv] cw]
  note inv1 = tx_inv_quiet [OF win(1) inv]
  show ?thesis
  proof (cases "amount w = 0")
    case True
    then have "reclaim_completed_frames K budget tr io = Some (0, tr, io1)"
      by (simp add: reclaim_completed_frames_def cw)
    moreover have "reclaimed g 0 tr io1 tr io1" by (simp add: reclaimed_def)
    ultimately show ?thesis
      using True win inv1 io_quiet_rx_kept [OF win(1)] by (intro exI conjI) auto
  next
    case False
    let ?n = "amount w"
    have le: "?n \<le> outstanding tr"
      using win(4) tx_invD(4) [OF inv1] by (simp add: word_le_nat_alt in_flight_def)
    from tx_invD(1) [OF inv1] have a1: "alloc_inv (g_cap g) (io_alloc io1)" by (simp add: io_inv_def)
    have "length (free_frames (io_alloc io1)) + (unat ?n - unat (0 :: u32)) \<le> g_cap g"
      using owned_size [OF tx_invD(1) [OF inv1]] win(4) tx_invD(7) [OF inv1]
      by (simp add: in_flight_def geometry_ok_def)
    from reclaim_loop_ok [OF tx_invD(6) [OF inv1] a1 win(2) _ win(4) this, of "tr_frame_mask tr"]
    obtain a where loop: "reclaim_loop (tr_frame_mask tr) (start w) ?n 0 io1 = Some (io1\<lparr>io_alloc := a\<rparr>)"
      and a: "alloc_inv (g_cap g) a"
      "free_frames a = free_frames (io_alloc io1) @ map (frame_base g) (take (unat ?n) (cq_queue io1))"
      using tx_invD(3) [OF inv] by (auto simp: frame_base_def [abs_def])
    note rel = reclaim_release [OF inv1 win(4,3) a]
    have "reclaim_completed_frames K budget tr io =
        Some (?n, tr\<lparr>outstanding := outstanding tr - ?n, frames_reclaimed := frames_reclaimed tr + ucast ?n\<rparr>,
          cq_release ?n (io1\<lparr>io_alloc := a\<rparr>))"
      using False le by (simp add: reclaim_completed_frames_def cw loop Let_def)
    then show ?thesis
      using rel win(1,5,6) rx_kept_trans [OF io_quiet_rx_kept [OF win(1)] rel(3)] by blast
  qed
qed

lemma reclaim_outcome:
  assumes "kernel_contract g kr kt K" "tx_inv g kr kt skip tr io"
  obtains n tr' io' where "reclaim_completed_frames K budget tr io = Some (n, tr', io')"
    "tx_inv g kr kt skip tr' io'" "rx_kept io io'" "outstanding tr' = outstanding tr - n"
    "tx_used tr' = tx_used tr" "reserved tr' = reserved tr" "frames_submitted tr' = frames_submitted tr"
    "unat (outstanding tr') \<le> unat (outstanding tr)" "frames_rejected tr' = frames_rejected tr"
proof -
  from reclaim_ok [OF assms, of budget] obtain io1 n tr' io' where
    r: "reclaim_completed_frames K budget tr io = Some (n, tr', io')" "io_quiet g kr kt io io1"
      "reclaimed g n tr io1 tr' io'" "tx_inv g kr kt skip tr' io'" "rx_kept io io'" by blast
  have "unat n \<le> unat (outstanding tr)"
    using r(3) tx_invD(4) [OF tx_inv_quiet [OF r(2) assms(2)]] by (simp add: reclaimed_def in_flight_def)
  with r show thesis
    by (intro that [of n tr' io']) (auto simp: reclaimed_def unat_sub_le)
qed

section \<open>Staging\<close>

lemma tx_window:
  assumes K: "kernel_contract g kr kt K" and inv: "tx_inv g kr kt skip tr io"
    and call: "tx_writable_range K (capacity (xsk_tx (io_xsk io))) io = (w, io')"
  shows "io_quiet g kr kt io io'" and "tx_inv g kr kt skip tr io'"
    and "start w = cached_prod (xsk_tx (io_xsk io'))"
    and "unat (amount w) = unat (g_ring g) - length (tx_queue io')"
    and "unat (amount w) \<le> ring_room (xsk_tx (io_xsk io'))" and "tx_used tr \<le> amount w"
proof -
  note win = tx_writable_range_ok [OF K tx_invD(1) [OF inv] call]
  show "io_quiet g kr kt io io'" by (rule win(1))
  show inv': "tx_inv g kr kt skip tr io'" by (rule tx_inv_quiet [OF win(1) inv])
  have "capacity (xsk_tx (io_xsk io)) = g_ring g"
    using rings_okD(2) [OF tx_invD(6) [OF inv]]
    by (simp add: capacity_def prod_inv_def ring_geometry_def)
  with win(3) show am: "unat (amount w) = unat (g_ring g) - length (tx_queue io')" by simp
  show "start w = cached_prod (xsk_tx (io_xsk io'))" "unat (amount w) \<le> ring_room (xsk_tx (io_xsk io'))"
    by (rule win)+
  show "tx_used tr \<le> amount w"
    using tx_invD(5) [OF inv'] am producer.room_bound [OF rings_okD(2) [OF tx_invD(6) [OF inv']]]
    by (simp add: word_le_nat_alt tx_queue_def)
qed

text \<open>A frame of the RX queue goes into the next pending slot; the RX entry is dealt with.\<close>

lemma stage_ok:
  assumes inv: "tx_inv g kr kt skip tr io" and res: "reserved tr" "tx_used tr < tx_avail tr"
    and d: "skip < length (rx_queue io)" "addr = d_addr (rx_queue io ! skip)"
      "len = d_len (rx_queue io ! skip)" "len \<noteq> 0"
  defines "e \<equiv> \<lparr>d_addr = addr, d_len = len, d_options = 0\<rparr>" and "tr' \<equiv> tr\<lparr>tx_used := tx_used tr + 1\<rparr>"
  shows "\<exists>s. tx_desc_put (tx_start tr + tx_used tr) e io = Some (io\<lparr>io_world := (io_world io)\<lparr>w_tx := s\<rparr>\<rparr>) \<and>
    tx_inv g kr kt (Suc skip) tr' (io\<lparr>io_world := (io_world io)\<lparr>w_tx := s\<rparr>\<rparr>) \<and>
    tx_pending (io\<lparr>io_world := (io_world io)\<lparr>w_tx := s\<rparr>\<rparr>) (unat (tx_used tr')) =
      tx_pending io (unat (tx_used tr)) @ [e]"
proof -
  let ?j = "unat (tx_used tr)"
  have inc: "unat (tx_used tr + 1) = Suc ?j" using res(2) by (rule unat_inc)
  have win: "tx_start tr = cached_prod (xsk_tx (io_xsk io))" "unat (tx_avail tr) \<le> ring_room (xsk_tx (io_xsk io))"
    using inv res(1) by (auto simp: tx_inv_def)
  then have "?j < ring_room (xsk_tx (io_xsk io))" using res(2) by (simp add: word_less_nat_alt)
  from tx_desc_put_ok [OF tx_invD(6) [OF inv] this, of e] obtain s where
    put: "tx_desc_put (tx_start tr + tx_used tr) e io = Some (io\<lparr>io_world := (io_world io)\<lparr>w_tx := s\<rparr>\<rparr>)"
      "rings_ok g (io\<lparr>io_world := (io_world io)\<lparr>w_tx := s\<rparr>\<rparr>)" "ring_queue s = tx_queue io"
      "ring_pending (xsk_tx (io_xsk io)) s (Suc ?j) = tx_pending io ?j @ [e]"
    using win(1) by auto
  let ?io = "io\<lparr>io_world := (io_world io)\<lparr>w_tx := s\<rparr>\<rparr>"
  have pend: "tx_pending ?io (Suc ?j) = tx_pending io ?j @ [e]" using put(4) by (simp add: tx_pending_def)
  have q: "tx_queue ?io = tx_queue io" "rx_queue ?io = rx_queue io" "fill_queue ?io = fill_queue io"
    "cq_queue ?io = cq_queue io" using put(3) by (simp_all add: queue_defs)
  have split: "drop skip (rx_queue io) = rx_queue io ! skip # drop (Suc skip) (rx_queue io)"
    using d(1) by (simp add: Cons_nth_drop_Suc)
  have "owned g kr kt (Suc skip) (tx_pending io ?j @ [e]) ?io = owned g kr kt skip (tx_pending io ?j) io"
    unfolding owned_def q split by (simp add: desc_frames_def e_def d(2) ac_simps)
  moreover have "desc_ok g (rx_queue io ! skip)"
    using tx_invD(1) [OF inv] d(1) by (simp add: io_inv_def)
  then have "tx_desc_ok g e" using d by (simp add: tx_desc_ok_def desc_ok_def e_def)
  ultimately have "io_inv g kr kt (Suc skip) (tx_pending io ?j @ [e]) ?io"
    using tx_invD(1) [OF inv] put(2) d(1) by (auto simp: io_inv_def q)
  then have "tx_inv g kr kt (Suc skip) tr' ?io"
    using inv res win inc pend
    by (simp add: tx_inv_def tr'_def in_flight_def q word_le_nat_alt word_less_nat_alt)
  then show ?thesis using put(1) pend inc by (auto simp: tr'_def)
qed

lemma reserve_window_ok:
  assumes K: "kernel_contract g kr kt K" and inv: "tx_inv g kr kt skip tr io"
    and call: "reserve_window K tr io = (tr', io')"
  shows "io_quiet g kr kt io io'" and "tx_inv g kr kt skip tr' io'" and "reserved tr'"
    and "tx_used tr' = tx_used tr" and "tr_frame_size tr' = tr_frame_size tr"
proof -
  have "io_quiet g kr kt io io' \<and> tx_inv g kr kt skip tr' io' \<and> reserved tr' \<and>
      tx_used tr' = tx_used tr \<and> tr_frame_size tr' = tr_frame_size tr"
  proof (cases "reserved tr")
    case True
    with inv call show ?thesis by (simp add: reserve_window_def)
  next
    case False
    obtain w io1 where w: "tx_writable_range K (capacity (xsk_tx (io_xsk io))) io = (w, io1)"
      by (rule prod.exhaust)
    note win = tx_window [OF K inv w]
    from False inv have "tx_used tr = 0" by (simp add: tx_inv_def)
    moreover have "tx_inv g kr kt skip
        (tr\<lparr>tx_avail := amount w, tx_start := start w, tx_used := 0, reserved := True\<rparr>) io1"
      using win(2,3,5) False by (auto simp: tx_inv_def)
    ultimately show ?thesis
      using call False win(1) by (auto simp: reserve_window_def w)
  qed
  then show "io_quiet g kr kt io io'" "tx_inv g kr kt skip tr' io'" "reserved tr'"
    "tx_used tr' = tx_used tr" "tr_frame_size tr' = tr_frame_size tr" by blast+
qed

lemma refresh_window_ok:
  assumes K: "kernel_contract g kr kt K" and inv: "tx_inv g kr kt skip tr io" and res: "reserved tr"
    and call: "refresh_window K tr io = (full, tr', io')"
  shows "io_quiet g kr kt io io'" and "tx_inv g kr kt skip tr' io'" and "reserved tr'"
    and "tx_used tr' = tx_used tr"
    and "full \<longleftrightarrow> \<not> tx_used tr' < tx_avail tr'"
    and "full \<Longrightarrow> length (tx_queue io') + unat (tx_used tr') = unat (g_ring g)"
proof -
  have "io_quiet g kr kt io io' \<and> tx_inv g kr kt skip tr' io' \<and> reserved tr' \<and>
      tx_used tr' = tx_used tr \<and> (full \<longleftrightarrow> \<not> tx_used tr' < tx_avail tr') \<and>
      (full \<longrightarrow> length (tx_queue io') + unat (tx_used tr') = unat (g_ring g))"
  proof (cases "tx_used tr = tx_avail tr")
    case False
    with inv res have "tx_used tr < tx_avail tr" by (simp add: tx_inv_def order_less_le)
    with False inv call res show ?thesis by (simp add: refresh_window_def)
  next
    case True
    obtain w io1 where w: "tx_writable_range K (capacity (xsk_tx (io_xsk io))) io = (w, io1)"
      by (rule prod.exhaust)
    note win = tx_window [OF K inv w]
    have "tx_inv g kr kt skip (tr\<lparr>tx_avail := amount w\<rparr>) io1"
      using win(2,5,6) res by (simp add: tx_inv_def)
    moreover have "length (tx_queue io1) \<le> unat (g_ring g)"
      using producer.room_bound [OF rings_okD(2) [OF tx_invD(6) [OF win(2)]]] by (simp add: tx_queue_def)
    ultimately show ?thesis
      using call True win(1,4,6) res by (auto simp: refresh_window_def w)
  qed
  then show "io_quiet g kr kt io io'" "tx_inv g kr kt skip tr' io'" "reserved tr'"
    "tx_used tr' = tx_used tr" "full \<longleftrightarrow> \<not> tx_used tr' < tx_avail tr'"
    "full \<Longrightarrow> length (tx_queue io') + unat (tx_used tr') = unat (g_ring g)" by blast+
qed

lemma tx_inv_reject [simp]: "tx_inv g kr kt skip (reject tr) io = tx_inv g kr kt skip tr io"
  by (simp add: tx_inv_def reject_def)

lemma reject_simps [simp]:
  "frames_rejected (reject tr) = frames_rejected tr + 1" "tx_used (reject tr) = tx_used tr"
  by (simp_all add: reject_def)

lemma send_window_ok:
  assumes K: "kernel_contract g kr kt K" and inv: "tx_inv g kr kt skip tr io"
    and r1: "reserve_window K tr io = (tr1, io1)" and r2: "refresh_window K tr1 io1 = (full, tr2, io2)"
  shows "io_quiet g kr kt io io2" and "tx_inv g kr kt skip tr2 io2" and "reserved tr2"
    and "tx_used tr2 = tx_used tr" and "full \<longleftrightarrow> \<not> tx_used tr2 < tx_avail tr2"
    and "full \<Longrightarrow> length (tx_queue io2) + unat (tx_used tr2) = unat (g_ring g)"
    and "frames_rejected tr2 = frames_rejected tr"
proof -
  note w1 = reserve_window_ok [OF K inv r1]
  note w2 = refresh_window_ok [OF K w1(2,3) r2]
  show "io_quiet g kr kt io io2" using w1(1) w2(1) by (rule io_quiet_trans)
  show "tx_used tr2 = tx_used tr" using w1(4) w2(4) by simp
  show "frames_rejected tr2 = frames_rejected tr"
    using r1 r2 by (auto simp: reserve_window_def refresh_window_def Let_def split: if_splits prod.splits)
qed (use refresh_window_ok [OF K reserve_window_ok(2,3) [OF K inv r1] r2] in blast)+

text \<open>
  Staging the RX entry \<open>skip\<close> never faults. Success moves the frame into the staged batch; failure
  leaves it with the caller, and happens only for a length no frame can have or a TX ring in which
  published and staged descriptors fill every slot. \<open>send_outcome\<close> states this of a call that
  answers \<open>b\<close>.
\<close>

definition send_outcome ::
  "geometry \<Rightarrow> ('k \<Rightarrow> u64 multiset) \<Rightarrow> ('k \<Rightarrow> u64 multiset) \<Rightarrow> nat \<Rightarrow> u64 \<Rightarrow> u32 \<Rightarrow> bool \<Rightarrow>
   Transmitter \<Rightarrow> 'k io \<Rightarrow> Transmitter \<Rightarrow> 'k io \<Rightarrow> bool" where
  "send_outcome g kr kt skip addr len b tr io tr' io' \<longleftrightarrow>
     rx_kept io io' \<and> umem_kept g kr io io' \<and> io_alloc io' = io_alloc io \<and>
     (if b then tx_inv g kr kt (Suc skip) tr' io' \<and> frames_rejected tr' = frames_rejected tr \<and>
         tx_pending io' (unat (tx_used tr')) =
           tx_pending io (unat (tx_used tr)) @ [\<lparr>d_addr = addr, d_len = len, d_options = 0\<rparr>]
      else tx_inv g kr kt skip tr' io' \<and> frames_rejected tr' = frames_rejected tr + 1 \<and>
         tx_used tr' = tx_used tr \<and>
         tx_pending io' (unat (tx_used tr')) = tx_pending io (unat (tx_used tr)) \<and>
         (len = 0 \<or> len > g_frame_size g \<or>
          length (tx_queue io') + unat (tx_used tr') = unat (g_ring g)))"

text \<open>The two ways on from a window: rejection when it is full, staging when it has room.\<close>

lemma reject_outcome:
  assumes "io_quiet g kr kt io io2" "tx_inv g kr kt skip tr2 io2"
    and "tx_used tr2 = tx_used tr" "frames_rejected tr2 = frames_rejected tr"
    and "len = 0 \<or> len > g_frame_size g \<or> length (tx_queue io2) + unat (tx_used tr2) = unat (g_ring g)"
  shows "send_outcome g kr kt skip addr len False tr io (reject tr2) io2"
  using assms io_quiet_rx_kept [OF assms(1)] by (simp add: send_outcome_def io_quiet_def)

lemma stage_outcome:
  assumes q: "io_quiet g kr kt io io2" and inv: "tx_inv g kr kt skip tr2 io2" and res: "reserved tr2"
    and room: "tx_used tr2 < tx_avail tr2" and len: "len \<noteq> 0" "\<not> len > tr_frame_size tr2"
    and same: "tx_used tr2 = tx_used tr" "frames_rejected tr2 = frames_rejected tr"
    and d: "skip < length (rx_queue io)" "addr = d_addr (rx_queue io ! skip)" "len = d_len (rx_queue io ! skip)"
  shows "\<exists>io'. tx_desc_put (tx_start tr2 + tx_used tr2) \<lparr>d_addr = addr, d_len = len, d_options = 0\<rparr> io2 = Some io' \<and>
    send_outcome g kr kt skip addr len True tr io (tr2\<lparr>tx_used := tx_used tr2 + 1\<rparr>) io'"
proof -
  let ?e = "\<lparr>d_addr = addr, d_len = len, d_options = 0\<rparr>"
  from q have al: "io_alloc io2 = io_alloc io" "umem_kept g kr io io2"
    and pend: "\<And>j. tx_pending io2 j = tx_pending io j" and rx: "\<exists>rs. rx_queue io2 = rx_queue io @ rs"
    by (simp_all add: io_quiet_def)
  from rx d(1) have at: "skip < length (rx_queue io2)" "rx_queue io2 ! skip = rx_queue io ! skip"
    by (auto simp: nth_append)
  obtain s where st: "tx_desc_put (tx_start tr2 + tx_used tr2) ?e io2 = Some (io2\<lparr>io_world := (io_world io2)\<lparr>w_tx := s\<rparr>\<rparr>)"
      "tx_inv g kr kt (Suc skip) (tr2\<lparr>tx_used := tx_used tr2 + 1\<rparr>) (io2\<lparr>io_world := (io_world io2)\<lparr>w_tx := s\<rparr>\<rparr>)"
      "tx_pending (io2\<lparr>io_world := (io_world io2)\<lparr>w_tx := s\<rparr>\<rparr>) (unat (tx_used tr2 + 1)) =
        tx_pending io2 (unat (tx_used tr2)) @ [?e]"
    using stage_ok [OF inv res room at(1), of addr len] d at(2) len by auto
  let ?io = "io2\<lparr>io_world := (io_world io2)\<lparr>w_tx := s\<rparr>\<rparr>"
  have "rx_kept io2 ?io" "umem_kept g kr io2 ?io"
    by (auto simp: rx_kept_def umem_kept_def rx_held_def queue_defs)
  with st(2,3) al same pend have "send_outcome g kr kt skip addr len True tr io (tr2\<lparr>tx_used := tx_used tr2 + 1\<rparr>) ?io"
    using rx_kept_trans [OF io_quiet_rx_kept [OF q]] umem_kept_trans [OF al(2)]
    by (simp add: send_outcome_def)
  with st(1) show ?thesis by blast
qed

lemma send_in_place_ok:
  assumes K: "kernel_contract g kr kt K" and inv: "tx_inv g kr kt skip tr io"
    and d: "skip < length (rx_queue io)" "addr = d_addr (rx_queue io ! skip)" "len = d_len (rx_queue io ! skip)"
  shows "\<exists>b tr' io'. send_in_place K addr len tr io = Some (b, tr', io') \<and>
    send_outcome g kr kt skip addr len b tr io tr' io'"
proof (cases "len = 0 \<or> len > tr_frame_size tr")
  case True
  with inv tx_invD(2) [OF inv] show ?thesis by (auto simp: send_in_place_def send_outcome_def)
next
  case len: False
  obtain tr1 io1 where r1: "reserve_window K tr io = (tr1, io1)" by (rule prod.exhaust)
  obtain full tr2 io2 where r2: "refresh_window K tr1 io1 = (full, tr2, io2)" by (metis prod.exhaust)
  note w = send_window_ok [OF K inv r1 r2]
  have size: "tr_frame_size tr2 = tr_frame_size tr" using tx_invD(2) [OF inv] tx_invD(2) [OF w(2)] by simp
  show ?thesis
  proof (cases full)
    case True
    then have "send_in_place K addr len tr io = Some (False, reject tr2, io2)"
      using len by (simp add: send_in_place_def r1 r2)
    with reject_outcome [OF w(1,2,4,7)] w(6) [OF True] show ?thesis by blast
  next
    case False
    with w(5) len size stage_outcome [OF w(1-3) _ _ _ w(4,7) d] obtain io' where
      "tx_desc_put (tx_start tr2 + tx_used tr2) \<lparr>d_addr = addr, d_len = len, d_options = 0\<rparr> io2 = Some io'"
      "send_outcome g kr kt skip addr len True tr io (tr2\<lparr>tx_used := tx_used tr2 + 1\<rparr>) io'" by auto
    with False len show ?thesis by (auto simp: send_in_place_def r1 r2)
  qed
qed

section \<open>Publication and service\<close>

lemma publish_staged_ok:
  assumes inv: "tx_inv g kr kt skip tr io"
  defines "tr' \<equiv> fst (publish_staged tr io)" and "io' \<equiv> snd (publish_staged tr io)"
  shows "tx_inv g kr kt skip tr' io'" and "tx_queue io' = tx_queue io @ tx_pending io (unat (tx_used tr))"
    and "tx_used tr' = 0" "\<not> reserved tr'" and "rx_kept io io'"
    and "unat (outstanding tr') = unat (outstanding tr) + unat (tx_used tr)"
    and "frames_submitted tr' = frames_submitted tr + ucast (tx_used tr)"
    and "cq_queue io' = cq_queue io" "io_alloc io' = io_alloc io"
    and "frames_rejected tr' = frames_rejected tr"
proof -
  let ?u = "unat (tx_used tr)"
  have tr': "tr' = tr\<lparr>outstanding := outstanding tr + tx_used tr,
      frames_submitted := frames_submitted tr + ucast (tx_used tr), tx_used := 0, reserved := False\<rparr>"
    by (simp add: tr'_def publish_staged_def Let_def word_gt_0)
  have "tx_publish 0 io = io"
    using tx_invD(6) [OF inv]
    by (simp add: tx_publish_def publish_written_entries_def rings_ok_def prod_inv_def)
  then have io': "io' = tx_publish (of_nat ?u) io"
    by (simp add: io'_def publish_staged_def Let_def word_gt_0)
  note pub = tx_publish_queues [OF tx_invD(6,5) [OF inv], folded io']
  show "tx_queue io' = tx_queue io @ tx_pending io ?u" "tx_used tr' = 0" "\<not> reserved tr'"
    "frames_submitted tr' = frames_submitted tr + ucast (tx_used tr)"
    "cq_queue io' = cq_queue io" "io_alloc io' = io_alloc io" "frames_rejected tr' = frames_rejected tr"
    by (simp_all add: pub tr')
  show "rx_kept io io'" by (intro rx_keptI) (simp_all add: pub)
  have "length (tx_pending io ?u) + in_flight kt io \<le> unat (g_num_frames g)"
    using owned_size [OF tx_invD(1) [OF inv]] by linarith
  then have "unat (outstanding tr) + ?u < 2 ^ 32"
    using tx_invD(4) [OF inv] u32_bound [of "g_num_frames g"] by (simp add: tx_pending_def ring_pending_def)
  then have sum: "unat (outstanding tr + tx_used tr) = unat (outstanding tr) + ?u"
    by (simp add: unat_word_ariths)
  then show "unat (outstanding tr') = unat (outstanding tr) + ?u" by (simp add: tr')
  have "owned g kr kt skip [] io' = owned g kr kt skip (tx_pending io ?u) io"
    unfolding owned_def by (simp add: pub ac_simps)
  then have "io_inv g kr kt skip [] io'"
    using tx_invD(1) [OF inv] by (auto simp: io_inv_def pub)
  moreover have "in_flight kt io' = unat (outstanding tr) + ?u"
    using tx_invD(4) [OF inv] by (simp add: in_flight_def pub tx_pending_def ring_pending_def)
  moreover have "(ucast (outstanding tr + tx_used tr) :: u64) = ucast (outstanding tr) + ucast (tx_used tr)"
    using ucast_sub_u32 [of "outstanding tr" "outstanding tr + tx_used tr"] sum
    by (simp add: word_le_nat_alt)
  ultimately show "tx_inv g kr kt skip tr' io'"
    using inv sum by (simp add: tx_inv_def tr' tx_pending_def ring_pending_def)
qed

lemma tx_inv_note_wakeup [simp]: "tx_inv g kr kt skip (note_wakeup res tr) io = tx_inv g kr kt skip tr io"
  by (cases res) (auto simp: tx_inv_def note_wakeup_def)

lemma note_wakeup_simps [simp]:
  "outstanding (note_wakeup res tr) = outstanding tr" "tx_used (note_wakeup res tr) = tx_used tr"
  "reserved (note_wakeup res tr) = reserved tr"
  "frames_submitted (note_wakeup res tr) = frames_submitted tr"
  "frames_rejected (note_wakeup res tr) = frames_rejected tr"
  by (cases res; simp add: note_wakeup_def)+

text \<open>
  A service pass publishes the staged batch whole and in order, never faults (in particular the
  \<open>assert(n <= outstanding_)\<close> holds in both reclaim passes), and leaves the transmitter idle.
\<close>

lemma publish_and_service_tx_ok:
  assumes K: "kernel_contract g kr kt K" and inv: "tx_inv g kr kt skip tr io"
  shows "\<exists>tr' io'. publish_and_service_tx K tr io = Some (tr', io') \<and> tx_inv g kr kt skip tr' io' \<and>
    tx_used tr' = 0 \<and> \<not> reserved tr' \<and> rx_kept io io' \<and>
    frames_submitted tr' = frames_submitted tr + ucast (tx_used tr) \<and>
    unat (outstanding tr') \<le> unat (outstanding tr) + unat (tx_used tr) \<and>
    frames_rejected tr' = frames_rejected tr"
proof -
  obtain tr1 io1 where p: "publish_staged tr io = (tr1, io1)" by (rule prod.exhaust)
  note pub = publish_staged_ok [OF inv, unfolded p fst_conv snd_conv]
  define bud where "bud = capacity (xsk_completion (io_xsk io1))"
  obtain n1 tr2 io2 where r1: "reclaim_completed_frames K bud tr1 io1 = Some (n1, tr2, io2)"
      "tx_inv g kr kt skip tr2 io2" "rx_kept io1 io2" and n1: "outstanding tr2 = outstanding tr1 - n1"
      "tx_used tr2 = tx_used tr1" "reserved tr2 = reserved tr1" "frames_submitted tr2 = frames_submitted tr1"
      "unat (outstanding tr2) \<le> unat (outstanding tr1)" "frames_rejected tr2 = frames_rejected tr1"
    by (rule reclaim_outcome [OF K pub(1)])
  obtain res io3 where rq: "request_tx_progress K io2 = (res, io3)" by (rule prod.exhaust)
  have q3: "io_quiet g kr kt io2 io3" by (rule request_tx_progress_quiet [OF K tx_invD(1) [OF r1(2)] rq])
  have inv3: "tx_inv g kr kt skip (note_wakeup res tr2) io3"
    using tx_inv_quiet [OF q3 r1(2)] by simp
  obtain n2 tr4 io4 where r2: "reclaim_completed_frames K (bud - n1) (note_wakeup res tr2) io3 = Some (n2, tr4, io4)"
      "tx_inv g kr kt skip tr4 io4" "rx_kept io3 io4"
      and n2: "outstanding tr4 = outstanding (note_wakeup res tr2) - n2"
      "tx_used tr4 = tx_used (note_wakeup res tr2)" "reserved tr4 = reserved (note_wakeup res tr2)"
      "frames_submitted tr4 = frames_submitted (note_wakeup res tr2)"
      "unat (outstanding tr4) \<le> unat (outstanding (note_wakeup res tr2))"
      "frames_rejected tr4 = frames_rejected (note_wakeup res tr2)"
    by (rule reclaim_outcome [OF K inv3])
  have kept: "rx_kept io io2" "rx_kept io io3" "rx_kept io io4"
    using pub(5) r1(3) io_quiet_rx_kept [OF q3] r2(3) by (blast intro: rx_kept_trans)+
  let ?r = "if outstanding tr1 = 0 then (tr1, io1) else if outstanding tr2 = 0 then (tr2, io2)
      else if n1 < bud then (tr4, io4) else (note_wakeup res tr2, io3)"
  have "publish_and_service_tx K tr io = Some ?r"
    using r1(1) r2(1) by (simp add: publish_and_service_tx_def p rq Let_def bud_def)
  then show ?thesis
    using pub r1(2) inv3 r2(2) n1 n2 kept by (intro exI [of _ "fst ?r"] exI [of _ "snd ?r"]) auto
qed

section \<open>Draining\<close>

text \<open>A given number of service passes, one after the other.\<close>

primrec service_passes ::
  "'k kernel \<Rightarrow> nat \<Rightarrow> Transmitter \<Rightarrow> 'k io \<Rightarrow> (Transmitter \<times> 'k io) option" where
  "service_passes K 0 tr io = Some (tr, io)"
| "service_passes K (Suc n) tr io =
     Option.bind (publish_and_service_tx K tr io) (\<lambda>(tr', io'). service_passes K n tr' io')"

text \<open>
  The drain makes one service pass, and further ones as long as frames are outstanding and the
  deadline has not passed: \<open>k\<close> is the number of the clock reading at which it stops.
\<close>

definition drained ::
  "'k kernel \<Rightarrow> (nat \<Rightarrow> int) \<Rightarrow> int \<Rightarrow> nat \<Rightarrow> nat \<Rightarrow> Transmitter \<Rightarrow> 'k io \<Rightarrow> Transmitter \<Rightarrow> 'k io \<Rightarrow> bool" where
  "drained K clk deadline i k tr io tr' io' \<longleftrightarrow>
     service_passes K (Suc k) tr io = Some (tr', io') \<and>
     (outstanding tr' = 0 \<or> deadline \<le> clk (i + k)) \<and>
     (\<forall>m < k. clk (i + m) < deadline \<and>
        (\<exists>t w. service_passes K (Suc m) tr io = Some (t, w) \<and> outstanding t \<noteq> 0))"

lemma drained_Suc:
  assumes "publish_and_service_tx K tr io = Some (tr1, io1)" "outstanding tr1 \<noteq> 0" "clk i < deadline"
    and "drained K clk deadline (Suc i) k tr1 io1 tr' io'"
  shows "drained K clk deadline i (Suc k) tr io tr' io'"
  using assms unfolding drained_def
  by (auto simp: less_Suc_eq_0_disj)

lemma drain_loop_returns:
  assumes K: "kernel_contract g kr kt K" and late: "deadline \<le> clk j"
  shows "i \<le> j \<Longrightarrow> tx_inv g kr kt skip tr io \<Longrightarrow>
    \<exists>k tr' io'. drain_loop K clk deadline i tr io = Some (outstanding tr', tr', io') \<and>
      drained K clk deadline i k tr io tr' io' \<and> i + k \<le> j \<and>
      tx_inv g kr kt skip tr' io' \<and> tx_used tr' = 0 \<and> \<not> reserved tr' \<and>
      frames_submitted tr' = frames_submitted tr + ucast (tx_used tr) \<and>
      frames_rejected tr' = frames_rejected tr"
proof (induction "j - i" arbitrary: i tr io)
  case 0
  then have ij: "i = j" by simp
  from publish_and_service_tx_ok [OF K 0(3)] obtain tr' io' where
    s: "publish_and_service_tx K tr io = Some (tr', io')" "tx_inv g kr kt skip tr' io'"
    "tx_used tr' = 0" "\<not> reserved tr'" "frames_submitted tr' = frames_submitted tr + ucast (tx_used tr)"
    "frames_rejected tr' = frames_rejected tr"
    by blast
  have "drained K clk deadline i 0 tr io tr' io'" using s(1) late ij by (simp add: drained_def)
  with late ij s show ?case
    by (intro exI [of _ 0] exI [of _ tr'] exI [of _ io']) (simp add: drain_loop.simps)
next
  case (Suc d)
  from publish_and_service_tx_ok [OF K Suc(4)] obtain tr1 io1 where
    s: "publish_and_service_tx K tr io = Some (tr1, io1)" "tx_inv g kr kt skip tr1 io1"
      "tx_used tr1 = 0" "\<not> reserved tr1" "frames_submitted tr1 = frames_submitted tr + ucast (tx_used tr)"
      "frames_rejected tr1 = frames_rejected tr"
    by blast
  show ?case
  proof (cases "outstanding tr1 \<noteq> 0 \<and> clk i < deadline")
    case False
    then have "drained K clk deadline i 0 tr io tr1 io1" using s(1) by (auto simp: drained_def)
    with False s Suc(3) show ?thesis
      by (intro exI [of _ 0] exI [of _ tr1] exI [of _ io1]) (auto simp: drain_loop.simps)
  next
    case True
    have "d = j - Suc i" "Suc i \<le> j" using Suc(2) by auto
    from Suc(1) [OF this s(2)] obtain k tr' io' where
      r: "drain_loop K clk deadline (Suc i) tr1 io1 = Some (outstanding tr', tr', io')"
      "drained K clk deadline (Suc i) k tr1 io1 tr' io'" "Suc i + k \<le> j"
      "tx_inv g kr kt skip tr' io'" "tx_used tr' = 0" "\<not> reserved tr'"
      "frames_submitted tr' = frames_submitted tr1 + ucast (tx_used tr1)"
      "frames_rejected tr' = frames_rejected tr1" by blast
    have "drained K clk deadline i (Suc k) tr io tr' io'"
      using drained_Suc [OF s(1) _ _ r(2)] True by simp
    with True s r show ?thesis
      by (intro exI [of _ "Suc k"] exI [of _ tr'] exI [of _ io']) (simp add: drain_loop.simps [of K clk deadline i])
  qed
qed

end
