(* ===== verification/Text.thy ===== *)
theory Text
  imports Prelude
begin

text \<open>
  Text as the program makes it: decimal and hexadecimal numbers, the messages it prints with
  \<^verbatim>\<open>std::println\<close> and \<^verbatim>\<open>std::format\<close>, and \<^verbatim>\<open>printf\<close> with the conversions that \<^verbatim>\<open>main.cpp\<close> uses. A message
  is a list of pieces; what the C library and the compiler put in (the text of an error number, file
  and function names, the text of an exception) is a piece of its own, and \<open>render\<close> gives the string
  for any choice of these. The lemmas say that printed numbers read back, and that a text of lines
  \<^verbatim>\<open>key=value\<close> printed by \<open>printf\<close> is well typed and reads back.
\<close>

section \<open>Numbers\<close>

fun show_nat :: "nat \<Rightarrow> string" where
  "show_nat n = (if n < 10 then [char_of (48 + n)] else show_nat (n div 10) @ [char_of (48 + n mod 10)])"

declare show_nat.simps [simp del]

definition show_int :: "int \<Rightarrow> string" where
  "show_int i = (if i < 0 then CHR ''-'' # show_nat (nat (- i)) else show_nat (nat i))"

fun show_hex :: "nat \<Rightarrow> string" where
  "show_hex n = (if n < 16 then [''0123456789abcdef'' ! n] else show_hex (n div 16) @ [''0123456789abcdef'' ! (n mod 16)])"

declare show_hex.simps [simp del]

definition is_digit :: "char \<Rightarrow> bool" where
  "is_digit c \<longleftrightarrow> 48 \<le> (of_char c :: nat) \<and> (of_char c :: nat) \<le> 57"

definition digit_val :: "char \<Rightarrow> nat" where
  "digit_val c = of_char c - 48"

definition digits_val :: "string \<Rightarrow> nat" where
  "digits_val ds = fold (\<lambda>c n. 10 * n + digit_val c) ds 0"

text \<open>Reading a printed number.\<close>

definition read_nat :: "string \<Rightarrow> nat option" where
  "read_nat ds = (if ds \<noteq> [] \<and> list_all is_digit ds then Some (digits_val ds) else None)"

definition read_int :: "string \<Rightarrow> int option" where
  "read_int str = (case str of
       c # cs \<Rightarrow> if c = CHR ''-'' then map_option (\<lambda>n. - int n) (read_nat cs) else map_option int (read_nat str)
     | [] \<Rightarrow> None)"

section \<open>Messages\<close>

datatype exn = invalid_argument | out_of_range | bad_alloc | system_error int

text \<open>A position in the sources: file and line.\<close>

type_synonym source_location = "string \<times> nat"

datatype piece =
    Str string
  | Num int
  | Ptr int
  | Strerror int
  | File_name string
  | Function_name source_location
  | What exn

type_synonym message = "piece list"

record c_library =
  lib_strerror :: "int \<Rightarrow> string"
  lib_file_name :: "string \<Rightarrow> string"
  lib_function_name :: "source_location \<Rightarrow> string"
  lib_what :: "exn \<Rightarrow> string"

fun render_piece :: "c_library \<Rightarrow> piece \<Rightarrow> string" where
  "render_piece L (Str s) = s"
| "render_piece L (Num i) = show_int i"
| "render_piece L (Ptr p) = ''0x'' @ show_hex (nat p)"
| "render_piece L (Strerror e) = lib_strerror L e"
| "render_piece L (File_name f) = lib_file_name L f"
| "render_piece L (Function_name loc) = lib_function_name L loc"
| "render_piece L (What e) = lib_what L e"

definition render :: "c_library \<Rightarrow> message \<Rightarrow> string" where
  "render L msg = concat (map (render_piece L) msg)"

text \<open>A word as \<^verbatim>\<open>{}\<close> prints it.\<close>

abbreviation (input) Wnum :: "'a::len word \<Rightarrow> piece" where
  "Wnum w \<equiv> Num (uint w)"

section \<open>printf\<close>

text \<open>
  An argument carries its C type. A conversion that does not fit its argument, or that has none, is
  undefined behaviour: \<open>None\<close>. The text of a floating point number is a function of the conversion.
\<close>

datatype arg =
    A_str string
  | A_int int
  | A_uint u32
  | A_longlong int
  | A_ulonglong u64
  | A_size u64
  | A_double "string \<Rightarrow> string"

fun show_arg :: "string \<Rightarrow> arg \<Rightarrow> string option" where
  "show_arg spec (A_str s) = (if spec = ''s'' then Some s else None)"
| "show_arg spec (A_int i) = (if spec = ''d'' then Some (show_int i) else None)"
| "show_arg spec (A_uint w) = (if spec = ''u'' then Some (show_nat (unat w)) else None)"
| "show_arg spec (A_longlong i) = (if spec = ''lld'' then Some (show_int i) else None)"
| "show_arg spec (A_ulonglong w) = (if spec = ''llu'' then Some (show_nat (unat w)) else None)"
| "show_arg spec (A_size w) = (if spec = ''zu'' then Some (show_nat (unat w)) else None)"
| "show_arg spec (A_double f) = (if spec \<in> {''.0f'', ''.3f'', ''.12g''} then Some (f spec) else None)"

text \<open>The conversion behind a percent sign ends with its conversion letter.\<close>

definition conversion_end :: "char \<Rightarrow> bool" where
  "conversion_end c \<longleftrightarrow> c \<in> set ''sdufg''"

definition conversion :: "string \<Rightarrow> (string \<times> string) option" where
  "conversion fmt = (case dropWhile (\<lambda>c. \<not> conversion_end c) fmt of
       [] \<Rightarrow> None
     | c # rest \<Rightarrow> Some (takeWhile (\<lambda>c. \<not> conversion_end c) fmt @ [c], rest))"

lemma conversion_shorter:
  assumes "conversion fmt = Some (spec, rest)"
  shows "length rest < length fmt"
proof -
  obtain c where "dropWhile (\<lambda>c. \<not> conversion_end c) fmt = c # rest"
    using assms by (auto simp: conversion_def split: list.splits)
  then have "length (c # rest) \<le> length fmt" by (metis length_dropWhile_le)
  then show ?thesis by simp
qed

function printf :: "string \<Rightarrow> arg list \<Rightarrow> string option" where
  "printf [] args = Some []"
| "printf (c # cs) args =
     (if c \<noteq> CHR ''%'' then map_option ((#) c) (printf cs args)
      else case (conversion cs, args) of
             (Some (spec, rest), a # args) \<Rightarrow>
               (case show_arg spec a of
                  Some t \<Rightarrow> map_option ((@) t) (printf rest args)
                | None \<Rightarrow> None)
           | _ \<Rightarrow> None)"
  by pat_completeness auto
termination
  by (relation "measure (\<lambda>(fmt, args). length fmt)") (auto dest!: conversion_shorter [OF sym])

section \<open>Lines of fields\<close>

definition nl :: string where
  "nl = [CHR 0x0A]"

text \<open>A line \<^verbatim>\<open>key=value\<close> of a format: the value is a conversion with its argument, or fixed.\<close>

datatype field = Conv string string arg | Fixed string string

fun field_format :: "field \<Rightarrow> string" where
  "field_format (Conv key spec a) = key @ ''=%'' @ spec @ nl"
| "field_format (Fixed key v) = key @ ''='' @ v @ nl"

fun field_args :: "field \<Rightarrow> arg list" where
  "field_args (Conv key spec a) = [a]"
| "field_args (Fixed key v) = []"

fun field_key :: "field \<Rightarrow> string" where
  "field_key (Conv key spec a) = key"
| "field_key (Fixed key v) = key"

fun field_value :: "field \<Rightarrow> string option" where
  "field_value (Conv key spec a) = show_arg spec a"
| "field_value (Fixed key v) = Some v"

text \<open>The key has neither percent sign, equals sign nor newline, and the argument has the right type.\<close>

fun field_ok :: "field \<Rightarrow> bool" where
  "field_ok (Conv key spec a) \<longleftrightarrow> set key \<inter> {CHR ''%'', CHR ''='', CHR 0x0A} = {} \<and> show_arg spec a \<noteq> None"
| "field_ok (Fixed key v) \<longleftrightarrow> set key \<inter> {CHR ''%'', CHR ''='', CHR 0x0A} = {} \<and> CHR ''%'' \<notin> set v"

definition field_line :: "field \<Rightarrow> string" where
  "field_line f = field_key f @ ''='' @ the (field_value f) @ nl"

text \<open>Reading a text of lines: what stands before and after the first equals sign of each line.\<close>

function read_lines :: "string \<Rightarrow> string list" where
  "read_lines str = (if str = [] then []
     else takeWhile (\<lambda>c. c \<noteq> CHR 0x0A) str # read_lines (drop 1 (dropWhile (\<lambda>c. c \<noteq> CHR 0x0A) str)))"
  by pat_completeness auto
termination
proof (relation "measure length")
  fix str :: string
  assume "str \<noteq> []"
  have "length (dropWhile (\<lambda>c. c \<noteq> CHR 0x0A) str) \<le> length str" by (rule length_dropWhile_le)
  with \<open>str \<noteq> []\<close> show "(drop 1 (dropWhile (\<lambda>c. c \<noteq> CHR 0x0A) str), str) \<in> measure length"
    by (cases str) auto
qed simp

declare read_lines.simps [simp del]

definition read_field :: "string \<Rightarrow> string \<times> string" where
  "read_field line = (takeWhile (\<lambda>c. c \<noteq> CHR ''='') line, drop 1 (dropWhile (\<lambda>c. c \<noteq> CHR ''='') line))"

definition read_fields :: "string \<Rightarrow> (string \<times> string) list" where
  "read_fields str = map read_field (read_lines str)"

section \<open>Printed numbers read back\<close>

lemma digit_char:
  assumes "n < 10"
  shows "is_digit (char_of (48 + n))" "digit_val (char_of (48 + n)) = n"
  using assms by (simp_all add: is_digit_def digit_val_def)

lemma digits_val_snoc: "digits_val (ds @ [c]) = 10 * digits_val ds + digit_val c"
  by (simp add: digits_val_def)

lemma show_nat_ok: "show_nat n \<noteq> [] \<and> (\<forall>c \<in> set (show_nat n). is_digit c) \<and> digits_val (show_nat n) = n"
proof (induction n rule: show_nat.induct)
  case (1 n)
  note d = digit_char [of "n mod 10"]
  show ?case
  proof (cases "n < 10")
    case True
    with digit_char [OF True] show ?thesis by (subst (1 2 3) show_nat.simps) (simp add: digits_val_def)
  next
    case False
    with 1 [OF False] d show ?thesis by (subst (1 2 3) show_nat.simps) (auto simp: digits_val_snoc)
  qed
qed

lemma read_show_nat [simp]: "read_nat (show_nat n) = Some n"
  using show_nat_ok [of n] by (simp add: read_nat_def list_all_iff)

lemma not_digit: "\<not> is_digit (CHR ''-'')" "\<not> is_digit (CHR ''+'')" "\<not> is_digit (CHR '' '')" "\<not> is_digit (CHR 0x0A)"
  by (simp_all add: is_digit_def)

lemma show_nat_Cons:
  obtains c cs where "show_nat n = c # cs" "is_digit c" "c \<noteq> CHR ''-''" "c \<noteq> CHR ''+''"
proof -
  obtain c cs where c: "show_nat n = c # cs" using show_nat_ok [of n] by (cases "show_nat n") auto
  then have "is_digit c" using show_nat_ok [of n] by simp
  with c that not_digit show ?thesis by metis
qed

lemma read_show_int [simp]: "read_int (show_int i) = Some i"
proof (cases "i < 0")
  case False
  obtain c cs where c: "show_nat (nat i) = c # cs" "c \<noteq> CHR ''-''" by (rule show_nat_Cons [of "nat i"])
  have "read_nat (c # cs) = Some (nat i)" by (simp add: c(1) [symmetric])
  with False c show ?thesis by (simp add: show_int_def read_int_def)
qed (simp add: show_int_def read_int_def)

lemma read_int_show_nat [simp]: "read_int (show_nat n) = Some (int n)"
  using read_show_int [of "int n"] by (simp add: show_int_def)

text \<open>A printed number has no newline.\<close>

lemma show_nat_line [simp]: "CHR 0x0A \<notin> set (show_nat n)"
  using show_nat_ok [of n] not_digit(4) by blast

lemma show_int_line [simp]: "CHR 0x0A \<notin> set (show_int i)"
  by (simp add: show_int_def)

section \<open>Printed fields read back\<close>

lemma printf_literal:
  "CHR ''%'' \<notin> set l \<Longrightarrow> printf (l @ fmt) args = map_option ((@) l) (printf fmt args)"
proof (induction l)
  case Nil
  have "((@) []) = (\<lambda>t :: string. t)" by (simp add: fun_eq_iff)
  then show ?case by (simp add: option.map_ident)
next
  case (Cons c l)
  then have "c \<noteq> CHR ''%''" by auto
  with Cons show ?case by (simp add: option.map_comp comp_def)
qed

text \<open>The conversions of the program, each ended by its only conversion letter.\<close>

lemma show_arg_conversion:
  assumes "show_arg spec a \<noteq> None"
  shows "conversion (spec @ rest) = Some (spec, rest)"
proof -
  from assms have "spec \<in> {''s'', ''d'', ''u'', ''lld'', ''llu'', ''zu'', ''.0f'', ''.3f'', ''.12g''}"
    by (cases a) (auto split: if_splits)
  then show ?thesis by (auto simp: conversion_def conversion_end_def)
qed

lemma printf_field:
  assumes "field_ok f"
  shows "printf (field_format f @ fmt) (field_args f @ args) = map_option ((@) (field_line f)) (printf fmt args)"
proof (cases f)
  case (Conv key spec a)
  from assms Conv obtain t where t: "show_arg spec a = Some t" by auto
  have "CHR ''%'' \<notin> set (key @ ''='')" using assms Conv by auto
  note lit = printf_literal [OF this, of "CHR ''%'' # spec @ nl @ fmt" "a # args"]
  have nl: "printf (nl @ fmt) args = map_option ((@) nl) (printf fmt args)"
    by (rule printf_literal) (simp add: nl_def)
  have "printf (CHR ''%'' # spec @ nl @ fmt) (a # args) = map_option ((@) (t @ nl)) (printf fmt args)"
    using show_arg_conversion [of spec a "nl @ fmt"] t nl by (cases "printf fmt args") simp_all
  with lit show ?thesis by (cases "printf fmt args") (simp_all add: Conv t field_line_def)
next
  case (Fixed key v)
  have "CHR ''%'' \<notin> set (key @ ''='' @ v @ nl)" using assms Fixed by (auto simp: nl_def)
  from printf_literal [OF this, of fmt args] Fixed show ?thesis by (simp add: field_line_def)
qed

lemma printf_fields:
  assumes "list_all field_ok fs"
  shows "printf (concat (map field_format fs)) (concat (map field_args fs)) = Some (concat (map field_line fs))"
  using assms
proof (induction fs)
  case (Cons f fs)
  then show ?case using printf_field [of f "concat (map field_format fs)" "concat (map field_args fs)"] by simp
qed simp

lemma split_at:
  assumes "x \<notin> set l"
  shows "takeWhile (\<lambda>c. c \<noteq> x) (l @ x # rest) = l" "dropWhile (\<lambda>c. c \<noteq> x) (l @ x # rest) = x # rest"
  using assms by (induction l) auto

lemma read_lines_Cons:
  "CHR 0x0A \<notin> set l \<Longrightarrow> read_lines (l @ nl @ str) = l # read_lines str"
  by (subst read_lines.simps) (simp add: nl_def split_at)

lemma read_field_line:
  assumes "CHR ''='' \<notin> set key"
  shows "read_field (key @ ''='' @ v) = (key, v)"
  using assms by (simp add: read_field_def split_at)

text \<open>A value without a newline reads back.\<close>

lemma read_fields_lines:
  assumes "list_all field_ok fs" "\<forall>f \<in> set fs. CHR 0x0A \<notin> set (the (field_value f))"
  shows "read_fields (concat (map field_line fs) @ rest) = map (\<lambda>f. (field_key f, the (field_value f))) fs @ read_fields rest"
  using assms
proof (induction fs)
  case (Cons f fs)
  have key: "CHR ''='' \<notin> set (field_key f)" "CHR 0x0A \<notin> set (field_key f)" using Cons.prems(1) by (cases f; auto)+
  let ?l = "field_key f @ ''='' @ the (field_value f)"
  have "CHR 0x0A \<notin> set ?l" using key Cons.prems(2) by simp
  note line = read_lines_Cons [OF this, of "concat (map field_line fs) @ rest"]
  have "concat (map field_line (f # fs)) @ rest = ?l @ nl @ (concat (map field_line fs) @ rest)"
    by (simp add: field_line_def)
  with line have "read_fields (concat (map field_line (f # fs)) @ rest) =
      read_field ?l # read_fields (concat (map field_line fs) @ rest)"
    unfolding read_fields_def by (simp only: list.map)
  with Cons read_field_line [OF key(1)] show ?case by simp
qed simp

end
