(* ===== verification/System.thy ===== *)
theory System
  imports Text
begin

text \<open>
  The calls into the operating system and libbpf that start-up and shutdown make, console output
  and thread operations included, and \<^verbatim>\<open>include/afxdp/common.hpp\<close>: errors, log lines and the owner of
  file descriptors. The operating system is a parameter: a function from the calls made so far and
  the next call to its return value and the value of \<open>errno\<close> afterwards. The state \<open>sys\<close> records
  every call with its result, so theorems speak about the order of calls, and about resources:
  \<open>acquired\<close> and \<open>released\<close> read them off a trace, and \<open>holds_after s R s'\<close> says that the steps from
  \<open>s\<close> to \<open>s'\<close> leave exactly the resources \<open>R\<close> held. \<open>emits A m\<close> bounds the calls a step can make.

  A step fails with an error value (\<^verbatim>\<open>std::unexpected\<close>) or with an exception. \<^verbatim>\<open>std::println\<close> throws
  \<^verbatim>\<open>std::system_error\<close> when it cannot write, so every line of output is a point where a function can
  be left; memory exhaustion while a string is built is left out.
\<close>

section \<open>Calls\<close>

record umem_reg =
  reg_addr :: int
  reg_len :: u64
  reg_chunk_size :: u32
  reg_headroom :: u32
  reg_flags :: u32

datatype sockopt =
    XDP_RX_RING u32 | XDP_TX_RING u32 | XDP_UMEM_FILL_RING u32 | XDP_UMEM_COMPLETION_RING u32
  | XDP_UMEM_REG umem_reg
  | SO_PREFER_BUSY_POLL int | SO_BUSY_POLL int | SO_BUSY_POLL_BUDGET int

datatype stream = Stdout | Stderr

datatype map_kind = AnonymousHuge | Anonymous | SharedFd int u64

datatype syscall =
    Setrlimit_memlock
  | Mmap u64 map_kind
  | Munmap int u64
  | Mlock int u64
  | Socket_xdp
  | Setsockopt int sockopt
  | Getsockopt_offsets int
  | Getsockopt_statistics int
  | If_nametoindex string
  | Bind int u32 u32 u16
  | Close int
  | Bpf_object_open string
  | Bpf_object_load int
  | Bpf_object_close int
  | Bpf_find_map int string
  | Bpf_map_fd int
  | Bpf_map_update int u32 int
  | Bpf_map_delete int u32
  | Bpf_find_program int string
  | Bpf_program_fd int
  | Bpf_xdp_attach u32 int u32
  | Bpf_xdp_detach u32 u32
  | Println stream message
  | Fprintf stream string
  | Operator_new nat
  | Pthread_setaffinity "1024 word"
  | Sched_setscheduler int int
  | Thread_start
  | Thread_request_stop
  | Thread_join

record sys =
  sys_trace :: "(syscall \<times> int) list"
  sys_errno :: int

type_synonym os = "(syscall \<times> int) list \<Rightarrow> syscall \<Rightarrow> int \<times> int"

definition call :: "os \<Rightarrow> syscall \<Rightarrow> sys \<Rightarrow> int \<times> sys" where
  "call os c s =
     (let (ret, e) = os (sys_trace s) c
      in (ret, \<lparr>sys_trace = sys_trace s @ [(c, ret)], sys_errno = e\<rparr>))"

definition MAP_FAILED :: int where "MAP_FAILED = -1"

section \<open>Errors\<close>

record AfxdpError =
  code :: int
  err_context :: message

text \<open>The context says where the error was made.\<close>

definition located :: "source_location \<Rightarrow> string \<Rightarrow> message" where
  "located loc ctx = [File_name (fst loc), Str '':'', Num (int (snd loc)), Str '' in '', Function_name loc, Str '': '', Str ctx]"

definition make_errno_error :: "source_location \<Rightarrow> string \<Rightarrow> sys \<Rightarrow> AfxdpError" where
  "make_errno_error loc ctx s = \<lparr>code = sys_errno s, err_context = located loc ctx\<rparr>"

definition make_logic_error :: "source_location \<Rightarrow> string \<Rightarrow> AfxdpError" where
  "make_logic_error loc ctx = \<lparr>code = 0, err_context = located loc ctx\<rparr>"

definition error_message :: "AfxdpError \<Rightarrow> message" where
  "error_message e =
     (if code e \<noteq> 0
      then err_context e @ [Str '': '', Strerror (code e), Str '' (errno='', Num (code e), Str '')'']
      else err_context e)"

text \<open>A name in single quotes, as the messages have it.\<close>

definition quoted :: "string \<Rightarrow> string" where
  "quoted name = CHR 0x27 # name @ [CHR 0x27]"

section \<open>File descriptors\<close>

record FileDesc =
  fd_raw :: int

definition FileDesc_reset :: "os \<Rightarrow> FileDesc \<Rightarrow> sys \<Rightarrow> FileDesc \<times> sys" where
  "FileDesc_reset os f s =
     (if fd_raw f \<ge> 0 then let (_, s) = call os (Close (fd_raw f)) s in (f\<lparr>fd_raw := -1\<rparr>, s) else (f, s))"

text \<open>The move constructor gives the new object and what is left of the old one.\<close>

definition FileDesc_move :: "FileDesc \<Rightarrow> FileDesc \<times> FileDesc" where
  "FileDesc_move f = (\<lparr>fd_raw = fd_raw f\<rparr>, f\<lparr>fd_raw := -1\<rparr>)"

text \<open>Move assignment from another object.\<close>

definition FileDesc_assign :: "os \<Rightarrow> FileDesc \<Rightarrow> FileDesc \<Rightarrow> sys \<Rightarrow> (FileDesc \<times> FileDesc) \<times> sys" where
  "FileDesc_assign os f other s =
     (let (f, s) = FileDesc_reset os f s in ((f\<lparr>fd_raw := fd_raw other\<rparr>, other\<lparr>fd_raw := -1\<rparr>), s))"

definition FileDesc_release :: "FileDesc \<Rightarrow> int \<times> FileDesc" where
  "FileDesc_release f = (fd_raw f, f\<lparr>fd_raw := -1\<rparr>)"

definition FileDesc_valid :: "FileDesc \<Rightarrow> bool" where
  "FileDesc_valid f \<longleftrightarrow> fd_raw f \<ge> 0"

section \<open>Resources of a trace\<close>

datatype resource = Fd int | Mapping int u64 | BpfObject int | Attached u32 u32 | Worker

fun acquires :: "syscall \<times> int \<Rightarrow> resource multiset" where
  "acquires (Socket_xdp, r) = (if r < 0 then {#} else {#Fd r#})"
| "acquires (Mmap n k, r) = (if r = MAP_FAILED then {#} else {#Mapping r n#})"
| "acquires (Bpf_object_open p, r) = (if r = 0 then {#} else {#BpfObject r#})"
| "acquires (Bpf_xdp_attach i p fl, r) = (if r = 0 then {#Attached i fl#} else {#})"
| "acquires (Thread_start, r) = (if r = 0 then {#Worker#} else {#})"
| "acquires _ = {#}"

text \<open>A call that gives a resource up counts whether or not it succeeds; a failed detach does not.\<close>

fun releases :: "syscall \<times> int \<Rightarrow> resource multiset" where
  "releases (Close fd, r) = {#Fd fd#}"
| "releases (Munmap b n, r) = {#Mapping b n#}"
| "releases (Bpf_object_close ob, r) = {#BpfObject ob#}"
| "releases (Bpf_xdp_detach i fl, r) = (if r = 0 then {#Attached i fl#} else {#})"
| "releases (Thread_join, r) = {#Worker#}"
| "releases _ = {#}"

definition acquired :: "(syscall \<times> int) list \<Rightarrow> resource multiset" where
  "acquired t = sum_list (map acquires t)"

definition released :: "(syscall \<times> int) list \<Rightarrow> resource multiset" where
  "released t = sum_list (map releases t)"

definition holds_after :: "sys \<Rightarrow> resource multiset \<Rightarrow> sys \<Rightarrow> bool" where
  "holds_after s R s' \<longleftrightarrow> (\<exists>t. sys_trace s' = sys_trace s @ t \<and> acquired t = released t + R)"

lemma holds_after_refl [intro!]: "holds_after s {#} s"
  by (auto simp: holds_after_def acquired_def released_def)

lemma holds_after_trans:
  assumes "holds_after s R s1" "holds_after s1 Q s2"
  shows "holds_after s (R + Q) s2"
proof -
  from assms obtain t u where "sys_trace s1 = sys_trace s @ t" "acquired t = released t + R"
    "sys_trace s2 = sys_trace s1 @ u" "acquired u = released u + Q" by (auto simp: holds_after_def)
  then have "sys_trace s2 = sys_trace s @ (t @ u)" "acquired (t @ u) = released (t @ u) + (R + Q)"
    by (simp_all add: acquired_def released_def)
  then show ?thesis unfolding holds_after_def by blast
qed

lemma call_trace:
  "call os c s = (r, s') \<Longrightarrow> sys_trace s' = sys_trace s @ [(c, r)]"
  by (auto simp: call_def Let_def split: prod.splits)

lemma call_errno: "call os c s = (r, s') \<Longrightarrow> os (sys_trace s) c = (r, sys_errno s')"
  by (auto simp: call_def Let_def split: prod.splits)

text \<open>A call that releases nothing, and one that releases a held resource.\<close>

lemma holds_call:
  assumes "holds_after s R s1" "call os c s1 = (r, s2)" "releases (c, r) = {#}"
  shows "holds_after s (R + acquires (c, r)) s2"
proof -
  from assms(1) obtain t where t: "sys_trace s1 = sys_trace s @ t" "acquired t = released t + R"
    by (auto simp: holds_after_def)
  with call_trace [OF assms(2)] assms(3) show ?thesis
    unfolding holds_after_def by (intro exI [of _ "t @ [(c, r)]"]) (simp add: acquired_def released_def)
qed

lemma holds_release:
  assumes "holds_after s R s1" "call os c s1 = (r, s2)" "acquires (c, r) = {#}" "R = Q + releases (c, r)"
  shows "holds_after s Q s2"
proof -
  from assms(1) obtain t where t: "sys_trace s1 = sys_trace s @ t" "acquired t = released t + R"
    by (auto simp: holds_after_def)
  with call_trace [OF assms(2)] assms(3,4) show ?thesis
    unfolding holds_after_def
    by (intro exI [of _ "t @ [(c, r)]"]) (simp add: acquired_def released_def)
qed

lemma FileDesc_reset_holds:
  assumes "holds_after s (R + {#Fd (fd_raw f)#}) s1" "FileDesc_reset os f s1 = (f', s2)" "0 \<le> fd_raw f"
  shows "holds_after s R s2"
  using assms holds_release [OF assms(1)]
  by (auto simp: FileDesc_reset_def Let_def split: prod.splits if_splits)

lemma FileDesc_reset_invalid: "FileDesc_reset os f s = (f', s') \<Longrightarrow> fd_raw f < 0 \<Longrightarrow> s' = s \<and> f' = f"
  by (auto simp: FileDesc_reset_def)

section \<open>Steps that can fail\<close>

text \<open>
  \<^verbatim>\<open>expect<T>\<close>: a step returns an error or a value, or throws. \<open>ebind\<close> is the early return of the code,
  and \<open>on_error\<close> the destructors of the local objects that run on an early return (the error object
  has been made by then) and when an exception passes.
\<close>

datatype failure = Failed AfxdpError | Thrown exn

type_synonym 'a step = "sys \<Rightarrow> (failure + 'a) \<times> sys"

definition ebind :: "'a step \<Rightarrow> ('a \<Rightarrow> 'b step) \<Rightarrow> 'b step" where
  "ebind m f s = (case m s of (Inl e, s) \<Rightarrow> (Inl e, s) | (Inr a, s) \<Rightarrow> f a s)"

definition on_error :: "'a step \<Rightarrow> (sys \<Rightarrow> sys) \<Rightarrow> 'a step" where
  "on_error m cleanup s = (case m s of (Inl e, s) \<Rightarrow> (Inl e, cleanup s) | (Inr a, s) \<Rightarrow> (Inr a, s))"

definition ereturn :: "'a \<Rightarrow> 'a step" where
  "ereturn a s = (Inr a, s)"

definition efail :: "AfxdpError \<Rightarrow> 'a step" where
  "efail e s = (Inl (Failed e), s)"

text \<open>A call that fails with \<open>errno\<close> unless its result is acceptable.\<close>

definition ecall :: "os \<Rightarrow> syscall \<Rightarrow> (int \<Rightarrow> bool) \<Rightarrow> source_location \<Rightarrow> string \<Rightarrow> int step" where
  "ecall os c ok loc ctx s =
     (let (r, s) = call os c s in if ok r then (Inr r, s) else (Inl (Failed (make_errno_error loc ctx s)), s))"

text \<open>A lookup that fails with a logic error on a null result, and a call that cannot fail.\<close>

definition efind :: "os \<Rightarrow> syscall \<Rightarrow> source_location \<Rightarrow> string \<Rightarrow> int step" where
  "efind os c loc ctx s =
     (let (r, s) = call os c s in if r = 0 then (Inl (Failed (make_logic_error loc ctx)), s) else (Inr r, s))"

definition eplain :: "os \<Rightarrow> syscall \<Rightarrow> int step" where
  "eplain os c s = (let (r, s) = call os c s in (Inr r, s))"

text \<open>A line of output, and a line of the log.\<close>

definition try_print :: "os \<Rightarrow> stream \<Rightarrow> message \<Rightarrow> sys \<Rightarrow> exn option \<times> sys" where
  "try_print os st msg s =
     (let (r, s) = call os (Println st msg) s in (if r < 0 then Some (system_error (sys_errno s)) else None, s))"

definition println :: "os \<Rightarrow> stream \<Rightarrow> message \<Rightarrow> unit step" where
  "println os st msg s =
     (case try_print os st msg s of (Some e, s) \<Rightarrow> (Inl (Thrown e), s) | (None, s) \<Rightarrow> (Inr (), s))"

datatype LogLevel = Debug | Info | Warn | Error

fun log_prefix :: "LogLevel \<Rightarrow> string" where
  "log_prefix Debug = ''[DBG] ''"
| "log_prefix Info = ''[INF] ''"
| "log_prefix Warn = ''[WRN] ''"
| "log_prefix Error = ''[ERR] ''"

definition log_line :: "os \<Rightarrow> source_location \<Rightarrow> LogLevel \<Rightarrow> message \<Rightarrow> unit step" where
  "log_line os loc level msg =
     println os Stderr (Str (log_prefix level) # msg @
       [Str ''  ('', File_name (fst loc), Str '':'', Num (int (snd loc)), Str '')''])"

text \<open>An exception that leaves a \<open>noexcept\<close> function ends the program: the outer left value.\<close>

definition noexcept :: "'a step \<Rightarrow> sys \<Rightarrow> (exn + (AfxdpError + 'a)) \<times> sys" where
  "noexcept m s =
     (case m s of
        (Inl (Thrown e), s) \<Rightarrow> (Inl e, s)
      | (Inl (Failed e), s) \<Rightarrow> (Inr (Inl e), s)
      | (Inr a, s) \<Rightarrow> (Inr (Inr a), s))"

text \<open>
  \<open>owns Q m E R\<close>: started with the resources \<open>Q\<close> held, the step holds \<open>E\<close> after an error and \<open>R a\<close>
  after the result \<open>a\<close>.
\<close>

definition owns :: "resource multiset \<Rightarrow> 'a step \<Rightarrow> resource multiset \<Rightarrow> ('a \<Rightarrow> resource multiset) \<Rightarrow> bool" where
  "owns Q m E R \<longleftrightarrow> (\<forall>s0 s. holds_after s0 Q s \<longrightarrow>
     (case m s of (Inl e, s') \<Rightarrow> holds_after s0 E s' | (Inr a, s') \<Rightarrow> holds_after s0 (R a) s'))"

lemma owns_bind_result:
  assumes "owns Q m E R" "\<And>s a s'. m s = (Inr a, s') \<Longrightarrow> owns (R a) (f a) E P"
  shows "owns Q (ebind m f) E P"
  unfolding owns_def
proof (intro allI impI)
  fix s0 s assume h: "holds_after s0 Q s"
  obtain res s' where m: "m s = (res, s')" by (rule prod.exhaust)
  show "case ebind m f s of (Inl e, s') \<Rightarrow> holds_after s0 E s' | (Inr a, s') \<Rightarrow> holds_after s0 (P a) s'"
  proof (cases res)
    case (Inl e)
    with assms(1) h m show ?thesis by (fastforce simp: owns_def ebind_def)
  next
    case (Inr a)
    with assms(1) h m have "holds_after s0 (R a) s'" by (fastforce simp: owns_def)
    with assms(2) [of s a s'] m Inr show ?thesis by (simp add: owns_def ebind_def)
  qed
qed

lemma owns_bind:
  assumes "owns Q m E R" "\<And>a. owns (R a) (f a) E P"
  shows "owns Q (ebind m f) E P"
  using assms(1) by (rule owns_bind_result) (rule assms(2))

lemma owns_read:
  assumes "\<And>x. owns Q (m x) E R"
  shows "owns Q (\<lambda>s. m (f s) s) E R"
  unfolding owns_def
proof (intro allI impI)
  fix s0 s assume "holds_after s0 Q s"
  with assms [of "f s"] show "case m (f s) s of (Inl e, s') \<Rightarrow> holds_after s0 E s'
      | (Inr a, s') \<Rightarrow> holds_after s0 (R a) s'" by (simp add: owns_def)
qed

lemma owns_weaken:
  assumes "owns Q m E R" "\<And>s a s'. m s = (Inr a, s') \<Longrightarrow> R a = P a"
  shows "owns Q m E P"
  using assms unfolding owns_def by (fastforce split: prod.splits sum.splits)

lemma owns_on_error:
  assumes "owns Q m E R" "\<And>s0 s. holds_after s0 E s \<Longrightarrow> holds_after s0 E' (cleanup s)"
  shows "owns Q (on_error m cleanup) E' R"
  using assms unfolding owns_def on_error_def by (fastforce split: prod.splits sum.splits)

lemma owns_return: "owns (R a) (ereturn a) E R"
  by (simp add: owns_def ereturn_def)

lemma owns_fail: "owns E (efail e) E R"
  by (simp add: owns_def efail_def)

lemma owns_call:
  assumes "\<And>r. releases (c, r) = {#}" "\<And>r. \<not> ok r \<Longrightarrow> acquires (c, r) = {#}"
  shows "owns Q (ecall os c ok loc ctx) Q (\<lambda>r. Q + acquires (c, r))"
  unfolding owns_def
proof (intro allI impI)
  fix s0 s assume h: "holds_after s0 Q s"
  obtain r s' where c: "call os c s = (r, s')" by (rule prod.exhaust)
  from holds_call [OF h c assms(1)] show "case ecall os c ok loc ctx s of (Inl e, s') \<Rightarrow> holds_after s0 Q s'
      | (Inr r, s') \<Rightarrow> holds_after s0 (Q + acquires (c, r)) s'"
    using c assms(2) [of r] by (cases "ok r") (simp_all add: ecall_def)
qed

text \<open>The common case: a call that neither acquires nor releases.\<close>

lemma owns_plain:
  assumes "\<And>r. releases (c, r) = {#}" "\<And>r. acquires (c, r) = {#}"
  shows "owns Q (ecall os c ok loc ctx) Q (\<lambda>r. Q)"
  using owns_call [of c ok Q os loc ctx] assms by simp

lemma owns_find:
  assumes "\<And>r. releases (c, r) = {#}" "\<And>r. acquires (c, r) = {#}"
  shows "owns Q (efind os c loc ctx) Q (\<lambda>r. Q)"
  using holds_call [where c = c] assms by (fastforce simp: owns_def efind_def Let_def split: prod.splits)

lemma owns_eplain:
  assumes "\<And>r. releases (c, r) = {#}" "\<And>r. acquires (c, r) = {#}"
  shows "owns Q (eplain os c) E (\<lambda>r. Q)"
  using holds_call [where c = c] assms by (fastforce simp: owns_def eplain_def Let_def split: prod.splits)

lemma owns_println: "owns Q (println os st msg) Q (\<lambda>_. Q)"
  using holds_call [where c = "Println st msg"] by (fastforce simp: owns_def println_def try_print_def Let_def split: prod.splits)

lemma owns_log_line: "owns Q (log_line os loc level msg) Q (\<lambda>_. Q)"
  unfolding log_line_def by (rule owns_println)

lemma ecall_result:
  "ecall os c ok loc ctx s = (Inr r, s') \<Longrightarrow> ok r \<and> sys_trace s' = sys_trace s @ [(c, r)]"
  by (auto simp: ecall_def call_def Let_def split: prod.splits if_splits)

lemma ebind_Inr: "ebind m f s = (Inr b, s') \<Longrightarrow> \<exists>a s1. m s = (Inr a, s1) \<and> f a s1 = (Inr b, s')"
  by (auto simp: ebind_def split: prod.splits sum.splits)

lemma on_error_Inr: "on_error m c s = (Inr b, s') \<Longrightarrow> m s = (Inr b, s')"
  by (auto simp: on_error_def split: prod.splits sum.splits)

text \<open>The one call of a step, as the trace has it.\<close>

lemma efind_result: "efind os c loc ctx s = (Inr r, s') \<Longrightarrow> r \<noteq> 0 \<and> sys_trace s' = sys_trace s @ [(c, r)]"
  by (auto simp: efind_def call_def Let_def split: prod.splits if_splits)

lemma eplain_result: "eplain os c s = (Inr r, s') \<Longrightarrow> sys_trace s' = sys_trace s @ [(c, r)]"
  by (auto simp: eplain_def call_def Let_def split: prod.splits)

lemma println_result:
  "println os st msg s = (Inr u, s') \<Longrightarrow> \<exists>r \<ge> 0. sys_trace s' = sys_trace s @ [(Println st msg, r)]"
  by (auto simp: println_def try_print_def call_def Let_def split: prod.splits if_splits)

lemmas log_line_result = println_result [folded log_line_def]

lemmas step_results = ecall_result efind_result eplain_result println_result

section \<open>The calls a step can make\<close>

text \<open>Every call between two states satisfies \<open>A\<close>.\<close>

definition called :: "(syscall \<Rightarrow> bool) \<Rightarrow> sys \<Rightarrow> sys \<Rightarrow> bool" where
  "called A s s' \<longleftrightarrow> (\<exists>t. sys_trace s' = sys_trace s @ t \<and> (\<forall>x \<in> set t. A (fst x)))"

lemma called_refl: "called A s s"
  by (simp add: called_def)

lemma called_trans: "called A s s1 \<Longrightarrow> called A s1 s2 \<Longrightarrow> called A s s2"
  by (auto simp: called_def)

lemma called_call: "call os c s = (r, s') \<Longrightarrow> A c \<Longrightarrow> called A s s'"
  by (auto simp: called_def dest!: call_trace)

definition emits :: "(syscall \<Rightarrow> bool) \<Rightarrow> 'a step \<Rightarrow> bool" where
  "emits A m \<longleftrightarrow> (\<forall>s. \<exists>t. sys_trace (snd (m s)) = sys_trace s @ t \<and> (\<forall>x \<in> set t. A (fst x)))"

definition calls_only :: "(syscall \<Rightarrow> bool) \<Rightarrow> (sys \<Rightarrow> sys) \<Rightarrow> bool" where
  "calls_only A f \<longleftrightarrow> (\<forall>s. \<exists>t. sys_trace (f s) = sys_trace s @ t \<and> (\<forall>x \<in> set t. A (fst x)))"

lemma calls_only_id: "calls_only A (\<lambda>s. s)"
  by (simp add: calls_only_def)

lemma calls_only_call:
  assumes "A c"
  shows "calls_only A (\<lambda>s. snd (call os c s))"
  unfolding calls_only_def
proof
  fix s
  obtain r s' where c: "call os c s = (r, s')" by (rule prod.exhaust)
  from call_trace [OF c] c assms
  show "\<exists>t. sys_trace (snd (call os c s)) = sys_trace s @ t \<and> (\<forall>x \<in> set t. A (fst x))"
    by (intro exI [of _ "[(c, r)]"]) simp
qed

lemma calls_only_comp:
  assumes "calls_only A f" "calls_only A g"
  shows "calls_only A (\<lambda>s. g (f s))"
  unfolding calls_only_def
proof
  fix s
  from assms(1) obtain t where "sys_trace (f s) = sys_trace s @ t" "\<forall>x \<in> set t. A (fst x)"
    unfolding calls_only_def by blast
  moreover from assms(2) obtain u where "sys_trace (g (f s)) = sys_trace (f s) @ u" "\<forall>x \<in> set u. A (fst x)"
    unfolding calls_only_def by blast
  ultimately show "\<exists>t. sys_trace (g (f s)) = sys_trace s @ t \<and> (\<forall>x \<in> set t. A (fst x))"
    by (intro exI [of _ "t @ u"]) auto
qed

lemma emits_calls_only: "emits A m \<longleftrightarrow> calls_only A (\<lambda>s. snd (m s))"
  by (simp add: emits_def calls_only_def)

lemma emits_weaken: "emits A m \<Longrightarrow> (\<And>c. A c \<Longrightarrow> B c) \<Longrightarrow> emits B m"
  unfolding emits_def by meson

lemma emits_bind:
  assumes "emits A m" "\<And>a. emits A (f a)"
  shows "emits A (ebind m f)"
  unfolding emits_def
proof
  fix s
  obtain res s1 where m: "m s = (res, s1)" by (rule prod.exhaust)
  from assms(1) m obtain t where t: "sys_trace s1 = sys_trace s @ t" "\<forall>x \<in> set t. A (fst x)"
    by (auto simp: emits_def dest!: spec [of _ s])
  show "\<exists>t. sys_trace (snd (ebind m f s)) = sys_trace s @ t \<and> (\<forall>x \<in> set t. A (fst x))"
  proof (cases res)
    case (Inl e)
    with m t show ?thesis by (simp add: ebind_def)
  next
    case (Inr a)
    from assms(2) [of a] obtain u where "sys_trace (snd (f a s1)) = sys_trace s1 @ u" "\<forall>x \<in> set u. A (fst x)"
      by (auto simp: emits_def)
    with m t Inr show ?thesis by (intro exI [of _ "t @ u"]) (auto simp: ebind_def)
  qed
qed

lemma emits_on_error:
  assumes "emits A m" "calls_only A cleanup"
  shows "emits A (on_error m cleanup)"
  unfolding emits_def
proof
  fix s
  obtain res s1 where m: "m s = (res, s1)" by (rule prod.exhaust)
  from assms(1) m obtain t where t: "sys_trace s1 = sys_trace s @ t" "\<forall>x \<in> set t. A (fst x)"
    by (auto simp: emits_def dest!: spec [of _ s])
  from assms(2) obtain u where "sys_trace (cleanup s1) = sys_trace s1 @ u" "\<forall>x \<in> set u. A (fst x)"
    by (auto simp: calls_only_def)
  with m t show "\<exists>t. sys_trace (snd (on_error m cleanup s)) = sys_trace s @ t \<and> (\<forall>x \<in> set t. A (fst x))"
    by (cases res) (auto simp: on_error_def intro: exI [of _ "t @ u"])
qed

lemma emits_call:
  "A c \<Longrightarrow> emits A (ecall os c ok loc ctx)" "A c \<Longrightarrow> emits A (efind os c loc ctx)" "A c \<Longrightarrow> emits A (eplain os c)"
  using calls_only_call [of A c os]
  by (auto simp: emits_calls_only calls_only_def ecall_def efind_def eplain_def Let_def split: prod.splits if_splits)
    (metis snd_conv)+

lemma emits_print:
  "A (Println st msg) \<Longrightarrow> emits A (println os st msg)"
  using calls_only_call [of A "Println st msg" os]
  by (auto simp: emits_calls_only calls_only_def println_def try_print_def Let_def split: prod.splits if_splits)
    (metis snd_conv)

lemma emits_log: "(\<And>msg. A (Println Stderr msg)) \<Longrightarrow> emits A (log_line os loc level msg)"
  by (simp add: log_line_def emits_print)

lemma emits_pure: "emits A (ereturn a)" "emits A (efail e)"
  by (simp_all add: emits_def ereturn_def efail_def)

lemmas emits_rules = emits_bind emits_on_error emits_call emits_print emits_log emits_pure

lemma calls_only_if: "calls_only A f \<Longrightarrow> calls_only A (\<lambda>s. if b then f s else s)"
  by (cases b) (simp_all add: calls_only_id)

lemma emits_if: "(b \<Longrightarrow> emits A m) \<Longrightarrow> (\<not> b \<Longrightarrow> emits A n) \<Longrightarrow> emits A (if b then m else n)"
  by simp

lemma emits_state: "(\<And>x. emits A (m x)) \<Longrightarrow> emits A (\<lambda>s. m (f s) s)"
  by (simp add: emits_def)

lemma emits_called: "emits A m \<longleftrightarrow> (\<forall>s x s'. m s = (x, s') \<longrightarrow> called A s s')"
  unfolding emits_def called_def by (metis prod.collapse snd_conv)

lemma calls_only_called: "calls_only A f \<Longrightarrow> called A s (f s)"
  by (simp add: calls_only_def called_def)

section \<open>Owners\<close>

text \<open>
  What the program relies on for an object that owns resources: a failed creation leaves nothing
  behind, a successful one exactly the object's resources, and destroying the object gives them back.
  \<open>pre\<close> is what creation needs of the operating system.
\<close>

locale resource_owner =
  fixes pre :: bool and create :: "'a step" and destroy :: "'a \<Rightarrow> sys \<Rightarrow> sys" and res :: "'a \<Rightarrow> resource multiset"
  assumes failed: "pre \<Longrightarrow> create s = (Inl (Failed e), s') \<Longrightarrow> holds_after s {#} s'"
    and created: "pre \<Longrightarrow> create s = (Inr a, s') \<Longrightarrow> holds_after s (res a) s'"
    and destroyed: "pre \<Longrightarrow> create s = (Inr a, s') \<Longrightarrow> holds_after s0 (R + res a) t \<Longrightarrow> holds_after s0 R (destroy a t)"
begin

text \<open>A block in which the object lives: what is left at its end is what the rest of the block left.\<close>

lemma scope:
  assumes "pre" "create s = (Inr a, s1)" "holds_after s1 R t"
  shows "holds_after s R (destroy a t)"
proof (rule destroyed [OF assms(1,2)])
  show "holds_after s (R + res a) t"
    using holds_after_trans [OF created [OF assms(1,2)] assms(3)] by (simp add: ac_simps)
qed

lemma scope_empty: "pre \<Longrightarrow> create s = (Inr a, s1) \<Longrightarrow> holds_after s {#} (destroy a s1)"
  by (rule scope) auto

end

text \<open>An owner that is also safe when an exception leaves its creation.\<close>

locale unwinding_owner = resource_owner +
  assumes thrown: "pre \<Longrightarrow> create s = (Inl (Thrown e), s') \<Longrightarrow> holds_after s {#} s'"
begin

lemma not_created: "pre \<Longrightarrow> create s = (Inl f, s') \<Longrightarrow> holds_after s {#} s'"
  by (cases f) (auto intro: failed thrown)

end

text \<open>An ownership triple gives the laws on creation.\<close>

lemma owns_create:
  assumes "owns {#} m {#} R"
  shows "m s = (Inl e, s') \<Longrightarrow> holds_after s {#} s'" and "m s = (Inr a, s') \<Longrightarrow> holds_after s (R a) s'"
  using assms unfolding owns_def by (auto dest!: spec [of _ s])

end
