(* ===== verification/Receiver.thy ===== *)
theory Receiver
  imports Ownership System
begin

text \<open>
  \<^verbatim>\<open>include/afxdp/receiver.hpp\<close>: the poll loop. The template parameters \<open>Callback\<close> and \<open>CommitTX\<close>
  are arguments here too: \<open>callback\<close> and \<open>commit_tx\<close> act on a client state \<open>'c\<close> and on the
  common state \<open>io\<close>. The locale \<open>rx_client\<close> is what the receive loop relies on (a callback that
  returns \<open>Transferred\<close> has moved the frame elsewhere, one that returns \<open>Recycle\<close> has left it), and
  \<open>receiver_client\<close> adds what the whole pass relies on; the lemmas inside show that a pass never
  faults, recycles or hands over each received frame exactly once and keeps every frame.
\<close>

section \<open>Data\<close>

text \<open>The span of the packet as offset into the UMEM area and size.\<close>

record PacketView =
  pv_data :: u64
  pv_size :: u32
  pv_addr :: u64

datatype FrameDisposition = Recycle | Transferred

record ReceiverConfig =
  cpu_affinity :: int
  realtime_sched :: bool
  batch_size :: int
  fill_refill_threshold :: u32

record Receiver =
  rc_cfg :: ReceiverConfig
  fill_threshold :: u32
  rc_busy_poll :: bool
  rc_frame_mask :: u64
  packets_received :: u64
  fill_refills :: u64
  rc_first_wakeup_error :: int

definition Receiver_new :: "Xsk \<Rightarrow> u32 \<Rightarrow> ReceiverConfig \<Rightarrow> Receiver" where
  "Receiver_new xsk frame_size cfg =
     \<lparr>rc_cfg = cfg,
      fill_threshold = (if fill_refill_threshold cfg > 0 then fill_refill_threshold cfg
                        else capacity (xsk_fill xsk) div 2),
      rc_busy_poll = xsk_busy_poll xsk, rc_frame_mask = frame_mask frame_size,
      packets_received = 0, fill_refills = 0, rc_first_wakeup_error = 0\<rparr>"

section \<open>Thread preparation\<close>

text \<open>The calls on the worker's own thread: the affinity call returns its error, the scheduler call sets \<open>errno\<close>.\<close>

definition EINVAL :: int where "EINVAL = 22"
definition CPU_SETSIZE :: int where "CPU_SETSIZE = 1024"
definition SCHED_FIFO :: int where "SCHED_FIFO = 1"

definition pin_to_cpu :: "os \<Rightarrow> int \<Rightarrow> sys \<Rightarrow> (int + unit) \<times> sys" where
  "pin_to_cpu os cpu s =
     (if cpu \<ge> CPU_SETSIZE then (Inl EINVAL, s)
      else let cpuset = 0; cpuset = cpuset OR push_bit (nat cpu) 1;
               (rc, s) = call os (Pthread_setaffinity cpuset) s
           in if rc \<noteq> 0 then (Inl rc, s) else (Inr (), s))"

definition set_realtime :: "os \<Rightarrow> sys \<Rightarrow> (int + unit) \<times> sys" where
  "set_realtime os s =
     (let (ret, s) = call os (Sched_setscheduler SCHED_FIFO 99) s
      in if ret \<noteq> 0 then (Inl (sys_errno s), s) else (Inr (), s))"

definition prepare_thread :: "os \<Rightarrow> Receiver \<Rightarrow> sys \<Rightarrow> (int + unit) \<times> sys" where
  "prepare_thread os r s =
     (case (if cpu_affinity (rc_cfg r) \<ge> 0 then pin_to_cpu os (cpu_affinity (rc_cfg r)) s else (Inr (), s)) of
        (Inl e, s) \<Rightarrow> (Inl e, s)
      | (Inr _, s) \<Rightarrow> if realtime_sched (rc_cfg r) then set_realtime os s else (Inr (), s))"

text \<open>
  The calls a preparation is to make, in order. One that succeeds has made them all with success, one
  that fails has stopped at the first call that failed, and reports that call's error.
\<close>

definition planned_calls :: "Receiver \<Rightarrow> syscall list" where
  "planned_calls r =
     (if cpu_affinity (rc_cfg r) \<ge> 0 then [Pthread_setaffinity (push_bit (nat (cpu_affinity (rc_cfg r))) 1)] else []) @
     (if realtime_sched (rc_cfg r) then [Sched_setscheduler SCHED_FIFO 99] else [])"

definition thread_error :: "syscall \<Rightarrow> int \<Rightarrow> int \<Rightarrow> int" where
  "thread_error c ret errno = (case c of Pthread_setaffinity _ \<Rightarrow> ret | _ \<Rightarrow> errno)"

lemma prepare_thread_calls:
  assumes "prepare_thread os r s = (res, s')"
  shows "\<exists>t. sys_trace s' = sys_trace s @ t \<and> map fst t = take (length t) (planned_calls r) \<and>
    (case res of
       Inr _ \<Rightarrow> length t = length (planned_calls r) \<and> (\<forall>x \<in> set t. snd x = 0) \<and> cpu_affinity (rc_cfg r) < CPU_SETSIZE
     | Inl e \<Rightarrow> if CPU_SETSIZE \<le> cpu_affinity (rc_cfg r) then t = [] \<and> e = EINVAL
               else t \<noteq> [] \<and> (\<forall>x \<in> set (butlast t). snd x = 0) \<and> snd (last t) \<noteq> 0 \<and>
                 e = thread_error (fst (last t)) (snd (last t)) (sys_errno s'))"
proof -
  let ?cpu = "cpu_affinity (rc_cfg r)" and ?a = "Pthread_setaffinity (push_bit (nat (cpu_affinity (rc_cfg r))) 1)"
    and ?b = "Sched_setscheduler SCHED_FIFO 99"
  obtain r1 s1 where c1: "call os ?a s = (r1, s1)" by (rule prod.exhaust)
  obtain r2 s2 where c2: "call os ?b s1 = (r2, s2)" by (rule prod.exhaust)
  obtain r3 s3 where c3: "call os ?b s = (r3, s3)" by (rule prod.exhaust)
  note tr = call_trace [OF c1] call_trace [OF c2] call_trace [OF c3]
  note defs = prepare_thread_def pin_to_cpu_def set_realtime_def planned_calls_def thread_error_def CPU_SETSIZE_def
  consider "?cpu \<ge> 1024" | "0 \<le> ?cpu" "?cpu < 1024" "r1 \<noteq> 0" | "0 \<le> ?cpu" "?cpu < 1024" "r1 = 0" "realtime_sched (rc_cfg r)"
    | "0 \<le> ?cpu" "?cpu < 1024" "r1 = 0" "\<not> realtime_sched (rc_cfg r)" | "?cpu < 0" "realtime_sched (rc_cfg r)"
    | "?cpu < 0" "\<not> realtime_sched (rc_cfg r)" by linarith
  then show ?thesis
  proof cases
    case 1
    with assms show ?thesis by (intro exI [of _ "[]"]) (auto simp: defs)
  next
    case 2
    with assms c1 tr show ?thesis by (intro exI [of _ "[(?a, r1)]"]) (auto simp: defs)
  next
    case 3
    with assms c1 c2 tr show ?thesis by (intro exI [of _ "[(?a, r1), (?b, r2)]"]) (auto simp: defs split: if_splits)
  next
    case 4
    with assms c1 tr show ?thesis by (intro exI [of _ "[(?a, r1)]"]) (auto simp: defs)
  next
    case 5
    with assms c3 tr show ?thesis by (intro exI [of _ "[(?b, r3)]"]) (auto simp: defs split: if_splits)
  next
    case 6
    with assms show ?thesis by (intro exI [of _ "[]"]) (auto simp: defs)
  qed
qed

lemma affinity_mask:
  assumes "cpu_affinity (rc_cfg r) < CPU_SETSIZE" "Pthread_setaffinity cpuset \<in> set (planned_calls r)"
  shows "bit cpuset i = (int i = cpu_affinity (rc_cfg r))"
proof -
  from assms(2) have "cpuset = push_bit (nat (cpu_affinity (rc_cfg r))) 1" "0 \<le> cpu_affinity (rc_cfg r)"
    by (auto simp: planned_calls_def split: if_splits)
  with assms(1) show ?thesis by (auto simp: push_bit_eq_mult bit_exp_iff CPU_SETSIZE_def)
qed

lemma planned_calls_kinds: "c \<in> set (planned_calls r) \<Longrightarrow> (\<exists>m. c = Pthread_setaffinity m) \<or> (\<exists>p n. c = Sched_setscheduler p n)"
  by (auto simp: planned_calls_def split: if_splits)

section \<open>The pass\<close>

type_synonym ('c, 'k) callback = "PacketView \<Rightarrow> 'c \<Rightarrow> 'k io \<Rightarrow> (FrameDisposition \<times> 'c \<times> 'k io) option"
type_synonym ('c, 'k) commit = "'c \<Rightarrow> 'k io \<Rightarrow> ('c \<times> 'k io) option"

text \<open>
  The batch loop. \<open>desc\<close> is a reference into the ring, so its address is loaded again for \<open>free\<close>.
\<close>

function receive_loop ::
  "('c, 'k) callback \<Rightarrow> u64 \<Rightarrow> u32 \<Rightarrow> u32 \<Rightarrow> u32 \<Rightarrow> 'c \<Rightarrow> 'k io \<Rightarrow> ('c \<times> 'k io) option" where
  "receive_loop callback fmask strt n i c io =
     (if i < n
      then do {
        desc \<leftarrow> rx_desc_at (strt + i) io;
        (disposition, c', io') \<leftarrow>
          callback \<lparr>pv_data = d_addr desc, pv_size = d_len desc, pv_addr = d_addr desc\<rparr> c io;
        io'' \<leftarrow> (if disposition = Recycle
                  then do {
                    desc \<leftarrow> rx_desc_at (strt + i) io';
                    a \<leftarrow> free (d_addr desc AND fmask) (io_alloc io');
                    Some (io'\<lparr>io_alloc := a\<rparr>) }
                  else Some io');
        receive_loop callback fmask strt n (i + 1) c' io'' }
      else Some (c, io))"
  by pat_completeness auto
termination
  by (relation "measure (\<lambda>(callback, fmask, strt, n, i, c, io). unat n - unat i)")
    (auto simp: unat_Suc_less)

declare receive_loop.simps [simp del]

definition maintain_fill :: "'k kernel \<Rightarrow> Receiver \<Rightarrow> 'k io \<Rightarrow> (u32 \<times> Receiver \<times> 'k io) option" where
  "maintain_fill K r io =
     (let (queued, io) = fill_queued_entry_count K io
      in if queued < fill_threshold r
         then do {
           (pushed, io) \<leftarrow> refill_fill K io;
           Some (pushed, if pushed > 0 then r\<lparr>fill_refills := fill_refills r + 1\<rparr> else r, io) }
         else Some (0, r, io))"

definition note_rx_wakeup :: "int + unit \<Rightarrow> Receiver \<Rightarrow> Receiver" where
  "note_rx_wakeup result r =
     (case result of
        Inr _ \<Rightarrow> r
      | Inl error \<Rightarrow>
          if \<not> is_expected_wakeup_retry error \<and> rc_first_wakeup_error r = 0
          then r\<lparr>rc_first_wakeup_error := error\<rparr> else r)"

definition maintain_wakeup :: "'k kernel \<Rightarrow> u32 \<Rightarrow> u32 \<Rightarrow> Receiver \<Rightarrow> 'k io \<Rightarrow> Receiver \<times> 'k io" where
  "maintain_wakeup K n pushed r io =
     (let (kick, io) = (if n = 0 \<or> pushed > 0 then (True, io) else fill_need_wakeup K io)
      in if kick
         then let (result, io) = request_rx_progress K io in (note_rx_wakeup result r, io)
         else (r, io))"

definition process_rx_and_maintain_io ::
  "('c, 'k) callback \<Rightarrow> ('c, 'k) commit \<Rightarrow> 'k kernel \<Rightarrow> Receiver \<Rightarrow> 'c \<Rightarrow> 'k io \<Rightarrow>
   (u32 \<times> Receiver \<times> 'c \<times> 'k io) option" where
  "process_rx_and_maintain_io callback commit_tx K r c io =
     (let (w, io) = rx_readable_range K (word_of_int (batch_size (rc_cfg r))) io; n = amount w
      in do {
        (c, io) \<leftarrow> receive_loop callback (rc_frame_mask r) (start w) n 0 c io;
        let io = (if n > 0 then rx_release n io else io);
        (c, io) \<leftarrow> commit_tx c io;
        (pushed, r, io) \<leftarrow> maintain_fill K r io;
        let (r, io) = maintain_wakeup K n pushed r io;
        Some (n, r, c, io) })"

text \<open>
  The loop of \<open>run\<close>; \<open>stop i\<close> is the answer to the \<open>i\<close>-th \<open>stop_requested\<close>. The pause instruction
  of an idle pass has no effect here. \<open>None\<close> is a fault or a loop that does not end.
\<close>

partial_function (option) run_loop ::
  "('c, 'k) callback \<Rightarrow> ('c, 'k) commit \<Rightarrow> 'k kernel \<Rightarrow> (nat \<Rightarrow> bool) \<Rightarrow> nat \<Rightarrow>
   Receiver \<Rightarrow> 'c \<Rightarrow> 'k io \<Rightarrow> (Receiver \<times> 'c \<times> 'k io) option" where
  "run_loop callback commit_tx K stop i r c io =
     (if stop i then Some (r, c, io)
      else Option.bind (process_rx_and_maintain_io callback commit_tx K r c io) (\<lambda>(processed, r, c, io).
        run_loop callback commit_tx K stop (Suc i)
          (if processed = 0 then r else r\<lparr>packets_received := packets_received r + ucast processed\<rparr>) c io))"

definition run ::
  "('c, 'k) callback \<Rightarrow> ('c, 'k) commit \<Rightarrow> 'k kernel \<Rightarrow> (nat \<Rightarrow> bool) \<Rightarrow> Receiver \<Rightarrow> 'c \<Rightarrow> 'k io \<Rightarrow>
   (Receiver \<times> 'c \<times> 'k io) option" where
  "run callback commit_tx K stop r c io = run_loop callback commit_tx K stop 0 r c io"

text \<open>What the control thread reads: each counter on its own, not one coherent snapshot.\<close>

record Receiver_Stats =
  st_packets_received :: u64
  st_fill_refills :: u64
  st_rx_first_wakeup_error :: int

definition receiver_stats :: "Receiver \<Rightarrow> Receiver_Stats" where
  "receiver_stats r =
     \<lparr>st_packets_received = packets_received r, st_fill_refills = fill_refills r,
      st_rx_first_wakeup_error = rc_first_wakeup_error r\<rparr>"

section \<open>What the poll loop relies on\<close>

text \<open>The sending half of the state, as far as a client can depend on it, is unchanged.\<close>

definition tx_side_kept :: "('k \<Rightarrow> u64 multiset) \<Rightarrow> 'k io \<Rightarrow> 'k io \<Rightarrow> bool" where
  "tx_side_kept kt io io' \<longleftrightarrow> in_flight kt io' = in_flight kt io \<and>
     (\<forall>j. tx_pending io' j = tx_pending io j) \<and>
     cached_prod (xsk_tx (io_xsk io')) = cached_prod (xsk_tx (io_xsk io)) \<and>
     ring_room (xsk_tx (io_xsk io)) \<le> ring_room (xsk_tx (io_xsk io'))"

lemma io_quiet_tx_side: "io_quiet g kr kt io io' \<Longrightarrow> tx_side_kept kt io io'"
  by (auto simp: io_quiet_def tx_side_kept_def handles_kept_def Let_def)

text \<open>
  \<open>inv skip c io\<close>: the client state \<open>c\<close> is in order when the first \<open>skip\<close> entries of the RX ring
  have been dealt with; \<open>staged c io\<close> are the descriptors it holds unpublished.
\<close>

locale rx_client =
  fixes g :: geometry
    and kr kt :: "'k \<Rightarrow> u64 multiset"
    and callback :: "('c, 'k) callback"
    and inv :: "nat \<Rightarrow> 'c \<Rightarrow> 'k io \<Rightarrow> bool"
    and staged :: "'c \<Rightarrow> 'k io \<Rightarrow> xdp_desc list"
  assumes inv_io: "inv skip c io \<Longrightarrow> io_inv g kr kt skip (staged c io) io"
    and callback_ok: "inv skip c io \<Longrightarrow> skip < length (rx_queue io) \<Longrightarrow> d = rx_queue io ! skip \<Longrightarrow>
      \<exists>disp c' io'. callback \<lparr>pv_data = d_addr d, pv_size = d_len d, pv_addr = d_addr d\<rparr> c io =
          Some (disp, c', io') \<and> rx_kept io io' \<and>
        (case disp of Transferred \<Rightarrow> inv (Suc skip) c' io'
         | Recycle \<Rightarrow> io_inv g kr kt skip (staged c' io') io' \<and>
             (\<forall>a. alloc_inv (g_cap g) a \<longrightarrow>
               free_frames a = free_frames (io_alloc io') @ [frame_base g (d_addr d)] \<longrightarrow>
               inv (Suc skip) c' (io'\<lparr>io_alloc := a\<rparr>)))"
begin

lemma rx_kept_nth:
  "rx_kept io io' \<Longrightarrow> i < length (rx_queue io) \<Longrightarrow>
   i < length (rx_queue io') \<and> rx_queue io' ! i = rx_queue io ! i"
  by (auto simp: rx_kept_def Let_def nth_append)

text \<open>A recycled frame always fits: it is one of the frames the allocator does not hold.\<close>

lemma recycle_ok:
  assumes io: "io_inv g kr kt skip st io" and lt: "skip < length (rx_queue io)"
  shows "\<exists>a. free f (io_alloc io) = Some a \<and> alloc_inv (g_cap g) a \<and>
    free_frames a = free_frames (io_alloc io) @ [f]"
proof -
  have "length (free_frames (io_alloc io)) < unat (g_num_frames g)"
    using owned_size [OF io] lt by linarith
  also have "\<dots> \<le> g_cap g" using io_inv_geometry [OF io] by (simp add: geometry_ok_def)
  finally show ?thesis using io by (intro pool.give_top) (simp add: io_inv_def)
qed

text \<open>One turn of the loop, the recycling included.\<close>

lemma receive_step:
  assumes inv: "inv skip c io" and lt: "skip < length (rx_queue io)"
  defines "strt \<equiv> cached_cons (xsk_rx (io_xsk io)) + of_nat skip"
  shows "\<exists>d disp c' io' io''. rx_desc_at strt io = Some d \<and>
    callback \<lparr>pv_data = d_addr d, pv_size = d_len d, pv_addr = d_addr d\<rparr> c io = Some (disp, c', io') \<and>
    (if disp = Recycle
     then do { e \<leftarrow> rx_desc_at strt io'; a \<leftarrow> free (d_addr e AND frame_mask (g_frame_size g)) (io_alloc io');
               Some (io'\<lparr>io_alloc := a\<rparr>) }
     else Some io') = Some io'' \<and> inv (Suc skip) c' io'' \<and> rx_kept io io''"
proof -
  define d where "d = rx_queue io ! skip"
  have at: "rx_desc_at strt io = Some d"
    unfolding strt_def d_def using io_inv_rings [OF inv_io [OF inv]] lt by (rule rx_desc_at_queue)
  from callback_ok [OF inv lt d_def] obtain disp c' io' where
    cb: "callback \<lparr>pv_data = d_addr d, pv_size = d_len d, pv_addr = d_addr d\<rparr> c io = Some (disp, c', io')"
      "rx_kept io io'" and disp: "case disp of Transferred \<Rightarrow> inv (Suc skip) c' io'
        | Recycle \<Rightarrow> io_inv g kr kt skip (staged c' io') io' \<and> (\<forall>a. alloc_inv (g_cap g) a \<longrightarrow>
            free_frames a = free_frames (io_alloc io') @ [frame_base g (d_addr d)] \<longrightarrow>
            inv (Suc skip) c' (io'\<lparr>io_alloc := a\<rparr>))" by blast
  show ?thesis
  proof (cases disp)
    case Transferred
    with at cb disp show ?thesis
      by (intro exI [of _ d] exI [of _ disp] exI [of _ c'] exI [of _ io'] exI [of _ io']) simp
  next
    case Recycle
    note kept = rx_kept_nth [OF cb(2) lt]
    from Recycle disp kept obtain a where a: "free (frame_base g (d_addr d)) (io_alloc io') = Some a"
        "alloc_inv (g_cap g) a" "free_frames a = free_frames (io_alloc io') @ [frame_base g (d_addr d)]"
      using recycle_ok [of skip "staged c' io'" io'] by auto
    have "rx_desc_at strt io' = Some d"
      using rx_desc_at_queue [of g io' skip] io_inv_rings [of g kr kt skip "staged c' io'" io'] Recycle disp kept cb(2)
      by (simp add: strt_def d_def rx_kept_def Let_def)
    moreover have "rx_kept io (io'\<lparr>io_alloc := a\<rparr>)"
      using cb(2) by (simp add: rx_kept_def rx_queue_def)
    ultimately show ?thesis
      using at cb(1) a disp Recycle
      by (intro exI [of _ d] exI [of _ disp] exI [of _ c'] exI [of _ io'] exI [of _ "io'\<lparr>io_alloc := a\<rparr>"])
        (simp add: frame_base_def)
  qed
qed

lemma receive_loop_ok:
  "inv (unat i) c io \<Longrightarrow> i \<le> n \<Longrightarrow> unat n \<le> length (rx_queue io) \<Longrightarrow>
   strt = cached_cons (xsk_rx (io_xsk io)) \<Longrightarrow>
   \<exists>c' io'. receive_loop callback (frame_mask (g_frame_size g)) strt n i c io = Some (c', io') \<and>
     inv (unat n) c' io' \<and> rx_kept io io'"
proof (induction "unat n - unat i" arbitrary: i c io)
  case 0
  then have "i = n" by (simp add: word_le_nat_alt word_unat_eq_iff)
  with 0 show ?case by (simp add: receive_loop.simps)
next
  case (Suc k)
  then have lt: "i < n" by (simp add: word_less_nat_alt)
  then have inc: "unat (i + 1) = Suc (unat i)" by (rule unat_inc)
  have "unat i < length (rx_queue io)" using Suc(2,5) by linarith
  from receive_step [OF Suc(3) this] obtain d disp c' io' io'' where
    step: "rx_desc_at (strt + i) io = Some d"
      "callback \<lparr>pv_data = d_addr d, pv_size = d_len d, pv_addr = d_addr d\<rparr> c io = Some (disp, c', io')"
      "(if disp = Recycle
        then do { e \<leftarrow> rx_desc_at (strt + i) io';
                  a \<leftarrow> free (d_addr e AND frame_mask (g_frame_size g)) (io_alloc io');
                  Some (io'\<lparr>io_alloc := a\<rparr>) }
        else Some io') = Some io''"
      "inv (Suc (unat i)) c' io''" "rx_kept io io''"
    unfolding Suc(6) of_nat_unat_u32 by blast
  have "k = unat n - unat (i + 1)" "i + 1 \<le> n"
    using Suc(2) inc lt by (auto simp: word_le_nat_alt word_less_nat_alt)
  moreover have "unat n \<le> length (rx_queue io'')" "strt = cached_cons (xsk_rx (io_xsk io''))"
    using step(5) Suc(5,6) by (auto simp: rx_kept_def Let_def)
  ultimately obtain c2 io2 where
    "receive_loop callback (frame_mask (g_frame_size g)) strt n (i + 1) c' io'' = Some (c2, io2)"
    "inv (unat n) c2 io2" "rx_kept io'' io2"
    using Suc(1) [of "i + 1" c' io''] step(4) inc by auto
  with step lt show ?case
    by (intro exI [of _ c2] exI [of _ io2])
      (simp add: receive_loop.simps [of callback _ strt n i] rx_kept_trans [OF step(5)])
qed

end

section \<open>The pass keeps every frame\<close>

locale receiver_client = rx_client g kr kt callback inv staged
  for g :: geometry
    and kr kt :: "'k \<Rightarrow> u64 multiset"
    and callback :: "('c, 'k) callback"
    and inv :: "nat \<Rightarrow> 'c \<Rightarrow> 'k io \<Rightarrow> bool"
    and staged :: "'c \<Rightarrow> 'k io \<Rightarrow> xdp_desc list" +
  fixes K :: "'k kernel"
    and commit_tx :: "('c, 'k) commit"
  assumes contract: "inv skip c io \<Longrightarrow> kernel_contract g kr kt K"
    and frame: "inv skip c io \<Longrightarrow> tx_side_kept kt io io' \<Longrightarrow>
      io_inv g kr kt skip' (staged c io) io' \<Longrightarrow> inv skip' c io'"
    and commit_ok: "inv 0 c io \<Longrightarrow> \<exists>c' io'. commit_tx c io = Some (c', io') \<and> inv 0 c' io'"
begin

lemma quiet:
  assumes "io_quiet g kr kt io io'" "inv skip c io"
  shows "inv skip c io'"
  using assms(2) io_quiet_tx_side [OF assms(1)] io_quiet_inv [OF assms(1) inv_io [OF assms(2)]]
  by (rule frame)

lemma release_ok:
  assumes "inv k c io" "k \<le> unat (cached_prod (xsk_rx (io_xsk io)) - cached_cons (xsk_rx (io_xsk io)))"
  shows "inv 0 c (rx_release (of_nat k) io)"
proof (rule frame [OF assms(1)])
  note io = inv_io [OF assms(1)]
  note rel = rx_release_queues [OF io_inv_rings [OF io] assms(2)]
  show "tx_side_kept kt io (rx_release (of_nat k) io)"
    by (simp add: tx_side_kept_def in_flight_def tx_pending_def rel)
  have "owned g kr kt 0 (staged c io) (rx_release (of_nat k) io) = owned g kr kt k (staged c io) io"
    by (simp add: owned_def rel)
  then show "io_inv g kr kt 0 (staged c io) (rx_release (of_nat k) io)"
    using io rel by (auto simp: io_inv_def dest: in_set_dropD)
qed

lemma refill_ok:
  assumes "inv 0 c io"
  shows "\<exists>n io'. refill_fill K io = Some (n, io') \<and> inv 0 c io'"
proof -
  from refill_fill_ok [OF contract [OF assms] inv_io [OF assms]] obtain xs :: "u64 list" and io' where
    f: "refill_fill K io = Some (of_nat (length xs), io')" "io_inv g kr kt 0 (staged c io) io'"
      "in_flight kt io' = in_flight kt io" "\<forall>j. tx_pending io' j = tx_pending io j" "handles_kept io io'"
    by blast
  then have "tx_side_kept kt io io'" by (simp add: tx_side_kept_def handles_kept_def Let_def)
  with f show ?thesis using frame [OF assms] by blast
qed

lemma maintain_fill_ok:
  assumes "inv 0 c io"
  shows "\<exists>n r' io'. maintain_fill K r io = Some (n, r', io') \<and> inv 0 c io' \<and>
    rc_cfg r' = rc_cfg r \<and> rc_frame_mask r' = rc_frame_mask r \<and> packets_received r' = packets_received r"
proof -
  obtain q io1 where q: "fill_queued_entry_count K io = (q, io1)" by (rule prod.exhaust)
  have inv1: "inv 0 c io1"
    using fill_queued_entry_count_ok(1) [OF contract [OF assms] inv_io [OF assms] q] assms by (rule quiet)
  from refill_ok [OF this] obtain n io2 where "refill_fill K io1 = Some (n, io2)" "inv 0 c io2" by blast
  with inv1 q show ?thesis by (cases "q < fill_threshold r") (auto simp: maintain_fill_def)
qed

lemma maintain_wakeup_ok:
  assumes "inv 0 c io" "maintain_wakeup K n pushed r io = (r', io')"
  shows "inv 0 c io'" and "rc_cfg r' = rc_cfg r" and "rc_frame_mask r' = rc_frame_mask r"
    and "packets_received r' = packets_received r"
proof -
  obtain kick io1 where k: "(if n = 0 \<or> pushed > 0 then (True, io) else fill_need_wakeup K io) = (kick, io1)"
    by (rule prod.exhaust)
  have inv1: "inv 0 c io1"
    using k assms(1) quiet [OF need_wakeup_ok(1) [OF contract [OF assms(1)] inv_io [OF assms(1)]] assms(1)]
    by (auto split: if_splits)
  obtain res io2 where rq: "request_rx_progress K io1 = (res, io2)" by (rule prod.exhaust)
  have "inv 0 c io2"
    using request_rx_progress_quiet [OF contract [OF inv1] inv_io [OF inv1] rq] inv1 by (rule quiet)
  with inv1 assms(2) k rq show "inv 0 c io'" "rc_cfg r' = rc_cfg r" "rc_frame_mask r' = rc_frame_mask r"
    "packets_received r' = packets_received r"
    by (auto simp: maintain_wakeup_def note_rx_wakeup_def Let_def split: if_splits sum.splits)
qed

text \<open>
  The whole pass returns, keeps the invariant, processes no more than the batch, and processes
  nothing only when there was nothing to process.
\<close>

lemma process_ok:
  assumes inv: "inv 0 c io" and mask: "rc_frame_mask r = frame_mask (g_frame_size g)"
  shows "\<exists>n r' c' io'. process_rx_and_maintain_io callback commit_tx K r c io = Some (n, r', c', io') \<and>
    inv 0 c' io' \<and> n \<le> word_of_int (batch_size (rc_cfg r)) \<and>
    rc_cfg r' = rc_cfg r \<and> rc_frame_mask r' = rc_frame_mask r \<and> packets_received r' = packets_received r"
proof -
  obtain w io1 where w: "rx_readable_range K (word_of_int (batch_size (rc_cfg r))) io = (w, io1)"
    by (rule prod.exhaust)
  note win = rx_readable_range_ok [OF contract [OF inv] inv_io [OF inv] w]
  have "inv (unat (0::u32)) c io1" using quiet [OF win(1) inv] by simp
  from receive_loop_ok [OF this _ win(4,2)] obtain c2 io2 where
    lp: "receive_loop callback (frame_mask (g_frame_size g)) (start w) (amount w) 0 c io1 = Some (c2, io2)"
      "inv (unat (amount w)) c2 io2" "rx_kept io1 io2" by auto
  define io3 where "io3 = (if amount w > 0 then rx_release (amount w) io2 else io2)"
  have "unat (amount w) \<le> unat (cached_prod (xsk_rx (io_xsk io2)) - cached_cons (xsk_rx (io_xsk io2)))"
    using win(3) lp(3) by (auto simp: rx_kept_def Let_def)
  from release_ok [OF lp(2) this] lp(2) have "inv 0 c2 io3" by (auto simp: io3_def word_gt_0)
  from commit_ok [OF this] obtain c4 io4 where cm: "commit_tx c2 io3 = Some (c4, io4)" "inv 0 c4 io4"
    by blast
  from maintain_fill_ok [OF cm(2), of r] obtain p r5 io5 where mf: "maintain_fill K r io4 = Some (p, r5, io5)"
      "inv 0 c4 io5" "rc_cfg r5 = rc_cfg r" "rc_frame_mask r5 = rc_frame_mask r"
      "packets_received r5 = packets_received r" by blast
  obtain r6 io6 where mw: "maintain_wakeup K (amount w) p r5 io5 = (r6, io6)" by (rule prod.exhaust)
  note wk = maintain_wakeup_ok [OF mf(2) mw]
  have "process_rx_and_maintain_io callback commit_tx K r c io = Some (amount w, r6, c4, io6)"
    using w lp(1) cm(1) mf(1) mw by (simp add: process_rx_and_maintain_io_def mask io3_def)
  with wk mf win(5) show ?thesis
    by (intro exI [of _ "amount w"] exI [of _ r6] exI [of _ c4] exI [of _ io6]) simp
qed

text \<open>The loop returns once a stop is requested, with the invariant.\<close>

lemma run_loop_returns:
  assumes "stop j"
  shows "i \<le> j \<Longrightarrow> inv 0 c io \<Longrightarrow> rc_frame_mask r = frame_mask (g_frame_size g) \<Longrightarrow>
    \<exists>r' c' io'. run_loop callback commit_tx K stop i r c io = Some (r', c', io') \<and> inv 0 c' io' \<and>
      rc_frame_mask r' = rc_frame_mask r"
proof (induction "j - i" arbitrary: i r c io)
  case 0
  then show ?case using assms by (simp add: run_loop.simps)
next
  case (Suc k)
  show ?case
  proof (cases "stop i")
    case True
    with Suc show ?thesis by (simp add: run_loop.simps)
  next
    case False
    from process_ok [OF Suc(4,5)] obtain n r' c' io' where
      p: "process_rx_and_maintain_io callback commit_tx K r c io = Some (n, r', c', io')" "inv 0 c' io'"
        "rc_frame_mask r' = rc_frame_mask r" by blast
    let ?r = "if n = 0 then r' else r'\<lparr>packets_received := packets_received r' + ucast n\<rparr>"
    have "k = j - Suc i" "Suc i \<le> j" using Suc(2) by auto
    from Suc(1) [OF this p(2), of ?r] p(3) Suc(5) False p(1) show ?thesis
      by (simp add: run_loop.simps [of callback commit_tx K stop i])
  qed
qed

end

end
