(* ===== verification/Reflect.thy ===== *)
theory Reflect
  imports Prelude
begin

text \<open>
  \<^verbatim>\<open>include/afxdp/bench.hpp\<close>, \<open>reflect_swap\<close>: the packet check of the UDP reflector and the in-place
  swap of the Ethernet, IPv4 and UDP endpoints. Bytes are read and copied through \<open>mem_read\<close> and
  \<open>mem_write\<close>, which fault outside the span, so totality of \<open>reflect_swap\<close> is its memory safety.
  \<open>supported\<close> and \<open>reflected\<close> state, without the code's order of accesses, which frames are
  reflected and which permutation of the bytes a reflection is.
\<close>

section \<open>Byte access\<close>

definition mem_read :: "u8 list \<Rightarrow> nat \<Rightarrow> nat \<Rightarrow> u8 list option" where
  "mem_read f off n = (if off + n \<le> length f then Some (take n (drop off f)) else None)"

definition mem_write :: "nat \<Rightarrow> u8 list \<Rightarrow> u8 list \<Rightarrow> u8 list option" where
  "mem_write off bs f =
     (if off + length bs \<le> length f then Some (take off f @ bs @ drop (off + length bs) f) else None)"

text \<open>Network byte order: \<open>ntohs\<close> of the two bytes at an offset.\<close>

definition be16 :: "u8 \<Rightarrow> u8 \<Rightarrow> u16" where
  "be16 hi lo = push_bit 8 (ucast hi) OR ucast lo"

definition read_be16 :: "u8 list \<Rightarrow> nat \<Rightarrow> u16 option" where
  "read_be16 f off = do {
     bs \<leftarrow> mem_read f off 2;
     Some (be16 (bs ! 0) (bs ! 1)) }"

definition byte_at :: "u8 list \<Rightarrow> nat \<Rightarrow> u8 option" where
  "byte_at f i = (if i < length f then Some (f ! i) else None)"

section \<open>The reflector\<close>

definition REFLECTOR_IPV4_MTU :: nat where "REFLECTOR_IPV4_MTU = 1500"
definition ETH_P_IP :: u16 where "ETH_P_IP = 0x0800"
definition IPPROTO_UDP :: u8 where "IPPROTO_UDP = 17"

text \<open>Two fields of \<open>n\<close> bytes change places; for the MAC addresses the second read and the first write are one \<open>memcpy\<close>.\<close>

definition swap_fields :: "nat \<Rightarrow> nat \<Rightarrow> nat \<Rightarrow> u8 list \<Rightarrow> u8 list option" where
  "swap_fields a b n f = do {
     x \<leftarrow> mem_read f a n;
     y \<leftarrow> mem_read f b n;
     f \<leftarrow> mem_write a y f;
     mem_write b x f }"

definition reflect_swap :: "u8 list \<Rightarrow> (bool \<times> u8 list) option" where
  "reflect_swap f =
     (let ethernet = 14; ipv4 = 20; udp = 8 in
      if length f < ethernet + ipv4 + udp \<or> length f > ethernet + REFLECTOR_IPV4_MTU
      then Some (False, f)
      else do {
        proto \<leftarrow> read_be16 f 12;
        version \<leftarrow> byte_at f 14;
        protocol \<leftarrow> byte_at f 23;
        if proto \<noteq> ETH_P_IP \<or> version \<noteq> 0x45 \<or> protocol \<noteq> IPPROTO_UDP then Some (False, f)
        else do {
          fragment \<leftarrow> read_be16 f 20;
          if (fragment AND 0xbfff) \<noteq> 0 then Some (False, f)
          else do {
            l \<leftarrow> read_be16 f 16;
            let ip_length = unat l;
            udp_length \<leftarrow> read_be16 f 38;
            if ip_length < ipv4 + udp \<or> ip_length > length f - ethernet \<or>
               unat udp_length \<noteq> ip_length - ipv4
            then Some (False, f)
            else do {
              f \<leftarrow> swap_fields 0 6 6 f;
              f \<leftarrow> swap_fields 26 30 4 f;
              f \<leftarrow> swap_fields 34 36 2 f;
              Some (True, f) } } } })"

section \<open>What it should do\<close>

definition word_at :: "u8 list \<Rightarrow> nat \<Rightarrow> nat" where
  "word_at f i = unat (be16 (f ! i) (f ! Suc i))"

text \<open>
  An untagged IPv4 frame of at most the MTU: a 20-byte header, UDP, neither a fragment nor the
  reserved flag, the total length within the frame and the UDP length filling the datagram.
\<close>

definition supported :: "u8 list \<Rightarrow> bool" where
  "supported f \<longleftrightarrow> 42 \<le> length f \<and> length f \<le> 1514 \<and>
     word_at f 12 = 0x0800 \<and> f ! 14 = 0x45 \<and> f ! 23 = 17 \<and>
     (be16 (f ! 20) (f ! 21) AND 0xbfff) = 0 \<and>
     28 \<le> word_at f 16 \<and> 14 + word_at f 16 \<le> length f \<and> word_at f 38 + 20 = word_at f 16"

text \<open>Where the byte at a position of the reflected frame comes from.\<close>

definition reflect_index :: "nat \<Rightarrow> nat" where
  "reflect_index i =
     (if i < 6 then i + 6 else if i < 12 then i - 6
      else if 26 \<le> i \<and> i < 30 then i + 4 else if 30 \<le> i \<and> i < 34 then i - 4
      else if 34 \<le> i \<and> i < 36 then i + 2 else if 36 \<le> i \<and> i < 38 then i - 2 else i)"

definition reflected :: "u8 list \<Rightarrow> u8 list" where
  "reflected f = map (\<lambda>i. f ! reflect_index i) [0..<length f]"

text \<open>
  The sums the checksums cover: the ten words of the IPv4 header, and the UDP pseudo-header
  (addresses, protocol, length) with the datagram of \<open>word_at f 38\<close> bytes, odd lengths padded.
\<close>

definition ip_header_sum :: "u8 list \<Rightarrow> nat" where
  "ip_header_sum f = sum_list (map (\<lambda>k. word_at f (14 + 2 * k)) [0..<10])"

definition udp_sum :: "u8 list \<Rightarrow> nat" where
  "udp_sum f =
     sum_list (map (\<lambda>k. word_at f (26 + 2 * k)) [0..<4]) + 17 + word_at f 38 +
     sum_list (map (\<lambda>k. word_at f (34 + 2 * k)) [0..<word_at f 38 div 2]) +
     (if odd (word_at f 38) then unat (be16 (f ! (33 + word_at f 38)) 0) else 0)"

text \<open>A ones' complement sum is correct when it folds to all ones.\<close>

definition checksum_ok :: "nat \<Rightarrow> bool" where
  "checksum_ok s \<longleftrightarrow> s mod 65535 = 0 \<and> s \<noteq> 0"

section \<open>Correctness\<close>

lemma mem_write_Some:
  "off + length bs \<le> length f \<Longrightarrow>
   \<exists>f'. mem_write off bs f = Some f' \<and> length f' = length f \<and>
     (\<forall>i < length f. f' ! i = (if off \<le> i \<and> i < off + length bs then bs ! (i - off) else f ! i))"
  by (auto simp: mem_write_def nth_append)

text \<open>Where a byte comes from after two fields have changed places.\<close>

definition swap_index :: "nat \<Rightarrow> nat \<Rightarrow> nat \<Rightarrow> nat \<Rightarrow> nat" where
  "swap_index a b n i =
     (if a \<le> i \<and> i < a + n then i - a + b else if b \<le> i \<and> i < b + n then i - b + a else i)"

lemma swap_index_bound:
  "a + n \<le> b \<Longrightarrow> b + n \<le> l \<Longrightarrow> i < l \<Longrightarrow> swap_index a b n i < l"
  by (auto simp: swap_index_def)

lemma swap_fields_Some:
  assumes "a + n \<le> b" "b + n \<le> length f"
  obtains f' where "swap_fields a b n f = Some f'" "length f' = length f"
    "\<And>i. i < length f \<Longrightarrow> f' ! i = f ! swap_index a b n i"
proof -
  let ?x = "take n (drop a f)" and ?y = "take n (drop b f)"
  have rd: "mem_read f a n = Some ?x" "mem_read f b n = Some ?y" "length ?x = n" "length ?y = n"
    using assms by (auto simp: mem_read_def)
  obtain g where g: "mem_write a ?y f = Some g" "length g = length f"
      "\<forall>i < length f. g ! i = (if a \<le> i \<and> i < a + n then ?y ! (i - a) else f ! i)"
    using mem_write_Some [of a ?y f] assms rd by auto
  obtain h where h: "mem_write b ?x g = Some h" "length h = length g"
      "\<forall>i < length g. h ! i = (if b \<le> i \<and> i < b + n then ?x ! (i - b) else g ! i)"
    using mem_write_Some [of b ?x g] assms rd g by auto
  have "swap_fields a b n f = Some h" by (simp add: swap_fields_def rd g(1) h(1))
  moreover have "h ! i = f ! swap_index a b n i" if "i < length f" for i
    using that h(3) g(2,3) assms by (auto simp: add.commute swap_index_def)
  ultimately show ?thesis using that g(2) h(2) by metis
qed

lemma length_reflected [simp]: "length (reflected f) = length f"
  by (simp add: reflected_def)

lemma nth_reflected: "i < length f \<Longrightarrow> reflected f ! i = f ! reflect_index i"
  by (simp add: reflected_def)

lemma reflect_index_swaps:
  "swap_index 0 6 6 (swap_index 26 30 4 (swap_index 34 36 2 i)) = reflect_index i"
proof (cases "i < 38")
  case True
  have "\<forall>i \<in> set [0..<38].
      swap_index 0 6 6 (swap_index 26 30 4 (swap_index 34 36 2 i)) = reflect_index i"
    by code_simp
  with True show ?thesis by simp
qed (simp add: swap_index_def reflect_index_def)

lemma reflect_index_involution: "reflect_index (reflect_index i) = i"
proof (cases "i < 38")
  case True
  have "\<forall>i \<in> set [0..<38]. reflect_index (reflect_index i) = i" by code_simp
  with True show ?thesis by simp
qed (simp add: reflect_index_def)

lemma reflect_index_bound: "42 \<le> l \<Longrightarrow> i < l \<Longrightarrow> reflect_index i < l"
  by (auto simp: reflect_index_def)

lemma reflect_index_fix: "12 \<le> i \<Longrightarrow> i < 26 \<or> 38 \<le> i \<Longrightarrow> reflect_index i = i"
  by (auto simp: reflect_index_def)

lemma swaps_reflected:
  assumes "42 \<le> length f"
  shows "do { f \<leftarrow> swap_fields 0 6 6 f; f \<leftarrow> swap_fields 26 30 4 f; swap_fields 34 36 2 f } =
    Some (reflected f)"
proof -
  obtain g where g: "swap_fields 0 6 6 f = Some g" "length g = length f"
      "\<And>i. i < length f \<Longrightarrow> g ! i = f ! swap_index 0 6 6 i"
    using assms by (rule_tac swap_fields_Some [of 0 6 6 f]) auto
  obtain h where h: "swap_fields 26 30 4 g = Some h" "length h = length g"
      "\<And>i. i < length g \<Longrightarrow> h ! i = g ! swap_index 26 30 4 i"
    using assms g(2) by (rule_tac swap_fields_Some [of 26 4 30 g]) auto
  obtain k where k: "swap_fields 34 36 2 h = Some k" "length k = length h"
      "\<And>i. i < length h \<Longrightarrow> k ! i = h ! swap_index 34 36 2 i"
    using assms g(2) h(2) by (rule_tac swap_fields_Some [of 34 2 36 h]) auto
  have "k ! i = f ! reflect_index i" if i: "i < length f" for i
  proof -
    have i1: "swap_index 34 36 2 i < length f" using assms i by (intro swap_index_bound) auto
    have "swap_index 26 30 4 (swap_index 34 36 2 i) < length f"
      using assms i1 by (intro swap_index_bound [of 26]) auto
    with i i1 show ?thesis by (simp add: k(3) h(3) g(3) h(2) g(2) reflect_index_swaps)
  qed
  then have "k = reflected f"
    using k(2) h(2) g(2) by (intro nth_equalityI) (simp_all add: nth_reflected)
  then show ?thesis by (simp add: g(1) h(1) k(1))
qed

lemma read_be16_at: "Suc i < length f \<Longrightarrow> read_be16 f i = Some (be16 (f ! i) (f ! Suc i))"
  by (simp add: read_be16_def mem_read_def)

text \<open>The code's checks, in its order, decide \<open>supported\<close>.\<close>

lemma reflect_swap_spec:
  "reflect_swap f = Some (supported f, if supported f then reflected f else f)"
proof (cases "42 \<le> length f \<and> length f \<le> 1514")
  case False
  then show ?thesis by (auto simp: reflect_swap_def supported_def REFLECTOR_IPV4_MTU_def Let_def)
next
  case True
  have ip: "be16 (f ! 12) (f ! 13) = 0x0800 \<longleftrightarrow> word_at f 12 = 0x0800"
    by (simp add: word_at_def word_unat_eq_iff)
  note sw = swaps_reflected [of f]
  show ?thesis
  proof (cases "supported f")
    case s: True
    have "do { f \<leftarrow> swap_fields 0 6 6 f; f \<leftarrow> swap_fields 26 30 4 f; f \<leftarrow> swap_fields 34 36 2 f;
        Some (True, f) } = Some (True, reflected f)"
      using sw True by (auto split: Option.bind_splits)
    then show ?thesis
      using s True ip
      by (auto simp: reflect_swap_def supported_def REFLECTOR_IPV4_MTU_def ETH_P_IP_def IPPROTO_UDP_def
          read_be16_at byte_at_def Let_def word_at_def)
  next
    case False
    then show ?thesis
      using True ip
      by (auto simp: reflect_swap_def supported_def REFLECTOR_IPV4_MTU_def ETH_P_IP_def IPPROTO_UDP_def
          read_be16_at byte_at_def Let_def word_at_def)
  qed
qed


text \<open>The fields the checks read are not moved, and 16-bit words move as a whole.\<close>

lemma reflected_fix:
  "12 \<le> i \<Longrightarrow> i < 26 \<or> 38 \<le> i \<Longrightarrow> i < length f \<Longrightarrow> reflected f ! i = f ! i"
  by (simp add: nth_reflected reflect_index_fix)

lemma word_at_reflected:
  assumes "even i" "Suc i < length f"
  shows "word_at (reflected f) i = word_at f (reflect_index i)"
proof -
  have "reflect_index (Suc i) = Suc (reflect_index i)"
    using assms(1) by (auto simp: reflect_index_def elim!: evenE)
  then show ?thesis using assms by (simp add: word_at_def nth_reflected)
qed

lemma supported_reflected: "supported (reflected f) = supported f"
proof (cases "42 \<le> length f")
  case True
  then have "word_at (reflected f) 12 = word_at f 12" "word_at (reflected f) 16 = word_at f 16"
    "word_at (reflected f) 38 = word_at f 38" "reflected f ! 14 = f ! 14" "reflected f ! 23 = f ! 23"
    "reflected f ! 20 = f ! 20" "reflected f ! 21 = f ! 21"
    by (simp_all add: word_at_reflected reflect_index_fix reflected_fix)
  then show ?thesis by (simp add: supported_def)
qed (simp add: supported_def)

lemma reflected_involution:
  assumes "42 \<le> length f"
  shows "reflected (reflected f) = f"
  using assms reflect_index_bound [OF assms]
  by (intro nth_equalityI) (simp_all add: nth_reflected reflect_index_involution)

lemma ip_header_sum_reflected:
  assumes "42 \<le> length f"
  shows "ip_header_sum (reflected f) = ip_header_sum f"
proof -
  have ten: "[0..<10] = [0, 1, 2, 3, 4, 5, 6, 7, 8, 9 :: nat]" by code_simp
  show ?thesis
    using assms by (simp add: ip_header_sum_def ten word_at_reflected reflect_index_def)
qed

lemma udp_words_reflected:
  assumes "42 \<le> length f" "2 \<le> n" "34 + 2 * n \<le> length f"
  shows "sum_list (map (\<lambda>k. word_at (reflected f) (34 + 2 * k)) [0..<n]) =
    sum_list (map (\<lambda>k. word_at f (34 + 2 * k)) [0..<n])"
proof -
  have n: "[0..<n] = [0, 1] @ [2..<n]"
    using assms(2) by (simp add: upt_conv_Cons numeral_2_eq_2)
  have "sum_list (map (\<lambda>k. word_at (reflected f) (34 + 2 * k)) [2..<n]) =
      sum_list (map (\<lambda>k. word_at f (34 + 2 * k)) [2..<n])"
    using assms by (intro arg_cong [of _ _ sum_list] map_cong) (auto simp: word_at_reflected reflect_index_fix)
  then show ?thesis
    using assms(1) by (simp add: n word_at_reflected reflect_index_def)
qed

lemma udp_sum_reflected:
  assumes "supported f"
  shows "udp_sum (reflected f) = udp_sum f"
proof -
  let ?u = "word_at f 38"
  from assms have len: "42 \<le> length f" "8 \<le> ?u" "34 + ?u \<le> length f"
    by (auto simp: supported_def)
  have u: "word_at (reflected f) 38 = ?u"
    using len(1) by (simp add: word_at_reflected reflect_index_fix)
  have four: "[0..<4] = [0, 1, 2, 3 :: nat]" by code_simp
  have "sum_list (map (\<lambda>k. word_at (reflected f) (26 + 2 * k)) [0..<4]) =
      sum_list (map (\<lambda>k. word_at f (26 + 2 * k)) [0..<4])"
    using len(1) by (simp add: four word_at_reflected reflect_index_def)
  moreover have "sum_list (map (\<lambda>k. word_at (reflected f) (34 + 2 * k)) [0..<?u div 2]) =
      sum_list (map (\<lambda>k. word_at f (34 + 2 * k)) [0..<?u div 2])"
    using len by (intro udp_words_reflected) auto
  moreover have "reflected f ! (33 + ?u) = f ! (33 + ?u)"
    using len by (intro reflected_fix) auto
  ultimately show ?thesis by (simp add: udp_sum_def u)
qed

end
