(* ===== verification/Packet.thy ===== *)
theory Packet
  imports Ownership Reflect
begin

text \<open>
  The bytes of a packet inside the UMEM area. A descriptor that satisfies \<open>desc_ok\<close> lies within
  one frame, so reading and writing it never faults, packets of different frames do not overlap, and
  kernel progress leaves a packet alone as long as the kernel does not hold its frame for receiving.
\<close>

text \<open>The span handed to the callback: \<open>umem_base_ + addr\<close> for \<open>len\<close> bytes.\<close>

definition packet :: "'k io \<Rightarrow> xdp_desc \<Rightarrow> u8 list" where
  "packet io d = take (unat (d_len d)) (drop (unat (d_addr d)) (w_umem (io_world io)))"

definition set_umem :: "u8 list \<Rightarrow> 'k io \<Rightarrow> 'k io" where
  "set_umem m io = io\<lparr>io_world := (io_world io)\<lparr>w_umem := m\<rparr>\<rparr>"

section \<open>Frames and offsets\<close>

lemma frame_base_div:
  assumes "geometry_ok g"
  shows "unat (frame_base g a) = unat (g_frame_size g) * (unat a div unat (g_frame_size g))"
  using assms by (simp add: frame_base_unat geometry_ok_def minus_mod_eq_mult_div)

lemma frame_size_pos: "geometry_ok g \<Longrightarrow> 0 < unat (g_frame_size g)"
  by (simp add: geometry_ok_def PowerOfTwo_unat_pos)

lemma desc_in_umem:
  assumes "geometry_ok g" "desc_ok g d"
  shows "unat (d_addr d) + unat (d_len d) \<le> unat (g_num_frames g) * unat (g_frame_size g)"
proof -
  let ?s = "unat (g_frame_size g)" and ?a = "unat (d_addr d)"
  from assms(2) obtain i where i: "i < unat (g_num_frames g)" "frame_base g (d_addr d) = all_frames g ! i"
    by (auto simp: desc_ok_def all_frames_def in_set_conv_nth)
  then have "?s * (?a div ?s) = i * ?s"
    using frame_base_div [OF assms(1), of "d_addr d"] by (auto simp: all_frames_def umem_frames_nth)
  moreover have "?a mod ?s + unat (d_len d) \<le> ?s" using assms(2) by (simp add: desc_ok_def)
  moreover have "?s * (?a div ?s) + ?a mod ?s = ?a" by simp
  moreover have "(i + 1) * ?s = i * ?s + ?s" by simp
  ultimately have "?a + unat (d_len d) \<le> (i + 1) * ?s" by linarith
  also have "\<dots> \<le> unat (g_num_frames g) * ?s" using i(1) by (intro mult_right_mono) auto
  finally show ?thesis .
qed

lemma frame_base_within:
  assumes "geometry_ok g" "desc_ok g d" "unat (d_addr d) \<le> j" "j < unat (d_addr d) + unat (d_len d)"
  shows "frame_base g (of_nat j) = frame_base g (d_addr d)"
proof -
  let ?s = "unat (g_frame_size g)" and ?a = "unat (d_addr d)"
  have "unat (g_num_frames g) * ?s \<le> 2 ^ 32 * 2 ^ 32"
    using u32_bound [of "g_num_frames g"] u32_bound [of "g_frame_size g"] by (intro mult_mono) auto
  then have "j < 2 ^ 64" using desc_in_umem [OF assms(1,2)] assms(4) by simp
  then have u: "unat (of_nat j :: u64) = j" by (simp add: unsigned_of_nat take_bit_nat_eq_self)
  obtain k where k: "j = ?a + k" using assms(3) le_Suc_ex by blast
  have "?a mod ?s + k < ?s" using assms(2,4) k by (simp add: desc_ok_def)
  then have "(?a mod ?s + k) div ?s = 0" by simp
  moreover have "j = ?a div ?s * ?s + (?a mod ?s + k)" using k by simp
  ultimately have "j div ?s = ?a div ?s"
    using frame_size_pos [OF assms(1)] by (metis div_mult_self3 add_0 less_numeral_extra(3) add.commute)
  then have "unat (frame_base g (of_nat j)) = unat (frame_base g (d_addr d))"
    by (simp only: frame_base_div [OF assms(1)] u)
  then show ?thesis by (rule word_unat_eq_iff [THEN iffD2])
qed

lemma packets_disjoint:
  assumes "geometry_ok g" "desc_ok g d" "desc_ok g e" "frame_base g (d_addr d) \<noteq> frame_base g (d_addr e)"
  shows "\<not> (unat (d_addr d) \<le> j \<and> j < unat (d_addr d) + unat (d_len d) \<and>
    unat (d_addr e) \<le> j \<and> j < unat (d_addr e) + unat (d_len e))"
  using frame_base_within [OF assms(1,2), of j] frame_base_within [OF assms(1,3), of j] assms(4) by auto

section \<open>Reading and writing packets\<close>

lemma packet_read:
  assumes "io_inv g kr kt skip staged io" "desc_ok g d"
  shows "mem_read (w_umem (io_world io)) (unat (d_addr d)) (unat (d_len d)) = Some (packet io d)"
    and "length (packet io d) = unat (d_len d)"
  using assms desc_in_umem [OF io_inv_geometry [OF assms(1)] assms(2)]
  by (auto simp: mem_read_def packet_def io_inv_def)

lemma nth_packet:
  assumes "io_inv g kr kt skip staged io" "desc_ok g d" "i < unat (d_len d)"
  shows "packet io d ! i = w_umem (io_world io) ! (unat (d_addr d) + i)"
  using assms desc_in_umem [OF io_inv_geometry [OF assms(1)] assms(2)]
  by (simp add: packet_def io_inv_def)

text \<open>Writing a packet changes that packet and no other.\<close>

lemma packet_write:
  assumes inv: "io_inv g kr kt skip staged io" and d: "desc_ok g d" and len: "length f = unat (d_len d)"
  obtains m where "mem_write (unat (d_addr d)) f (w_umem (io_world io)) = Some m"
    "length m = length (w_umem (io_world io))" "packet (set_umem m io) d = f"
    "\<And>e. desc_ok g e \<Longrightarrow> frame_base g (d_addr e) \<noteq> frame_base g (d_addr d) \<Longrightarrow>
      packet (set_umem m io) e = packet io e"
proof -
  note geo = io_inv_geometry [OF inv]
  let ?u = "w_umem (io_world io)" and ?a = "unat (d_addr d)"
  have fits: "?a + length f \<le> length ?u"
    using desc_in_umem [OF geo d] inv len by (simp add: io_inv_def)
  obtain m where m: "mem_write ?a f ?u = Some m" "length m = length ?u"
      "\<forall>i < length ?u. m ! i = (if ?a \<le> i \<and> i < ?a + length f then f ! (i - ?a) else ?u ! i)"
    using mem_write_Some [OF fits] by auto
  have umem: "w_umem (io_world (set_umem m io)) = m" by (simp add: set_umem_def)
  have "packet (set_umem m io) d = f"
    unfolding packet_def umem using fits m(2,3) len by (intro nth_equalityI) auto
  moreover have "packet (set_umem m io) e = packet io e"
    if e: "desc_ok g e" "frame_base g (d_addr e) \<noteq> frame_base g (d_addr d)" for e
  proof -
    have "unat (d_addr e) + unat (d_len e) \<le> length ?u"
      using desc_in_umem [OF geo e(1)] inv by (simp add: io_inv_def)
    then show ?thesis
      unfolding packet_def umem using m(2,3) len packets_disjoint [OF geo e(1) d e(2)]
      by (intro nth_equalityI) auto
  qed
  ultimately show ?thesis using that m(1,2) by blast
qed

lemma packet_kept:
  assumes inv: "io_inv g kr kt skip staged io" and kept: "umem_kept g kr io io'" and d: "desc_ok g d"
    and held: "frame_base g (d_addr d) \<notin> rx_held kr io"
  shows "packet io' d = packet io d"
proof -
  note geo = io_inv_geometry [OF inv]
  let ?u = "w_umem (io_world io)" and ?a = "unat (d_addr d)"
  have fits: "?a + unat (d_len d) \<le> length ?u"
    using desc_in_umem [OF geo d] inv by (simp add: io_inv_def)
  have "w_umem (io_world io') ! j = ?u ! j" if "?a \<le> j" "j < ?a + unat (d_len d)" for j
    using kept that fits held frame_base_within [OF geo d that] by (simp add: umem_kept_def)
  then show ?thesis
    unfolding packet_def using fits kept by (intro nth_equalityI) (auto simp: umem_kept_def)
qed

text \<open>The frame of a received packet is nobody else's.\<close>

lemma distinct_all_frames: "geometry_ok g \<Longrightarrow> distinct (all_frames g)"
  unfolding all_frames_def by (rule distinct_umem_frames) (auto simp: geometry_ok_def PowerOfTwo_def)

lemma owned_once:
  assumes "io_inv g kr kt skip staged io" "owned g kr kt skip staged io = A + B" "f \<in># A"
  shows "f \<notin># B"
proof
  assume "f \<in># B"
  with assms(3) have "2 \<le> count (A + B) f"
    by (simp add: count_greater_zero_iff [symmetric] del: count_greater_zero_iff)
  moreover have "count (mset (all_frames g)) f \<le> 1"
    using distinct_all_frames [OF io_inv_geometry [OF assms(1)]] by (simp add: distinct_count_atmost_1)
  moreover have "A + B = mset (all_frames g)"
    using assms(1,2) by (simp add: io_inv_def)
  ultimately show False by simp
qed

lemma rx_frame_not_held:
  assumes "io_inv g kr kt skip staged io" "skip \<le> i" "i < length (rx_queue io)"
  shows "frame_base g (d_addr (rx_queue io ! i)) \<notin> rx_held kr io"
proof -
  have "drop skip (rx_queue io) ! (i - skip) = rx_queue io ! i" "i - skip < length (drop skip (rx_queue io))"
    using assms(2,3) by auto
  then have "rx_queue io ! i \<in> set (drop skip (rx_queue io))" by (metis nth_mem)
  then have "frame_base g (d_addr (rx_queue io ! i)) \<in># desc_frames g (drop skip (rx_queue io))"
    by (auto simp: desc_frames_def)
  then show ?thesis
    using owned_once [OF assms(1), of "desc_frames g (drop skip (rx_queue io))"
        "mset (fill_queue io) + kr (w_kern (io_world io)) + (mset (free_frames (io_alloc io)) + desc_frames g staged +
          (desc_frames g (tx_queue io) + kt (w_kern (io_world io)) + addr_frames g (cq_queue io)))"]
    by (simp add: owned_def rx_held_def ac_simps)
qed

lemma distinct_mset_subset:
  assumes "mset xs \<subseteq># mset ys" "distinct ys"
  shows "distinct xs"
proof -
  obtain zs where "mset ys - mset xs = mset zs" by (metis ex_mset)
  then have "mset ys = mset (xs @ zs)" using assms(1) by (metis mset_append subset_mset.add_diff_inverse)
  with assms(2) have "distinct (xs @ zs)" by (metis mset_eq_imp_distinct_iff)
  then show ?thesis by simp
qed

lemma rx_frames_distinct:
  assumes "io_inv g kr kt 0 staged io" "i < length (rx_queue io)" "j < length (rx_queue io)" "i \<noteq> j"
  shows "frame_base g (d_addr (rx_queue io ! i)) \<noteq> frame_base g (d_addr (rx_queue io ! j))"
proof -
  let ?fs = "map (\<lambda>d. frame_base g (d_addr d)) (rx_queue io)"
  have "mset ?fs \<subseteq># owned g kr kt 0 staged io"
    by (simp add: owned_def desc_frames_def subset_mset.add_increasing subset_mset.add_increasing2)
  then have "mset ?fs \<subseteq># mset (all_frames g)" using assms(1) by (simp only: io_inv_def)
  then have "distinct ?fs"
    by (rule distinct_mset_subset) (rule distinct_all_frames [OF io_inv_geometry [OF assms(1)]])
  then show ?thesis using assms(2-4) by (auto simp: distinct_conv_nth)
qed

end
