(* ===== verification/Samples.thy ===== *)
theory Samples
  imports Complex_Main Prelude
begin

text \<open>
  \<^verbatim>\<open>include/afxdp/bench.hpp\<close>, class \<open>Samples\<close>: the fixed buffer of latency samples that the worker
  fills and the control thread reports and exports. Floating point is a parameter: \<open>fp_index p n\<close> is
  \<open>static_cast<std::size_t>(p * static_cast<double>(n))\<close> and \<open>ns t\<close> is the product of a tick count
  and \<open>ns_per_tick\<close>. The standard library's sort is \<open>sort\<close>; the stream operations of
  \<open>dump_csv\<close> are the functions of a record.
\<close>

record Samples =
  sm_buf :: "u64 list"
  sm_cap :: nat
  sm_n :: nat
  sm_dropped :: u64
  sm_enabled :: bool

definition Samples_new :: "nat \<Rightarrow> Samples" where
  "Samples_new cap =
     \<lparr>sm_buf = replicate cap 0, sm_cap = cap, sm_n = 0, sm_dropped = 0, sm_enabled = False\<rparr>"

definition samples_start :: "Samples \<Rightarrow> Samples" where
  "samples_start s = s\<lparr>sm_enabled := True\<rparr>"

definition recording :: "Samples \<Rightarrow> bool" where
  "recording s \<longleftrightarrow> sm_n s < sm_cap s \<and> sm_enabled s"

text \<open>\<^verbatim>\<open>buf_[n_++] = ticks\<close>: outside the buffer is a fault.\<close>

definition record_sample :: "u64 \<Rightarrow> Samples \<Rightarrow> Samples option" where
  "record_sample ticks s =
     (if sm_n s < sm_cap s
      then if sm_n s < length (sm_buf s)
           then Some (s\<lparr>sm_buf := (sm_buf s)[sm_n s := ticks], sm_n := sm_n s + 1\<rparr>) else None
      else Some (s\<lparr>sm_dropped := sm_dropped s + 1\<rparr>))"

definition samples_count :: "Samples \<Rightarrow> nat" where
  "samples_count s = sm_n s"

section \<open>Report\<close>

datatype 'r report =
    NoSamples
  | Report (rep_n: nat) (rep_dropped: u64) (rep_p50: 'r) (rep_p90: 'r) (rep_p99: 'r) (rep_p999: 'r) (rep_max: 'r)

definition percentile :: "(rat \<Rightarrow> nat \<Rightarrow> nat) \<Rightarrow> (u64 \<Rightarrow> 'r) \<Rightarrow> Samples \<Rightarrow> rat \<Rightarrow> 'r option" where
  "percentile fp_index ns s p =
     (let i = min (sm_n s - 1) (fp_index p (sm_n s))
      in if i < length (sm_buf s) then Some (ns (sm_buf s ! i)) else None)"

definition samples_report ::
  "(rat \<Rightarrow> nat \<Rightarrow> nat) \<Rightarrow> (u64 \<Rightarrow> 'r) \<Rightarrow> Samples \<Rightarrow> ('r report \<times> Samples) option" where
  "samples_report fp_index ns s =
     (if sm_n s = 0 then Some (NoSamples, s)
      else if length (sm_buf s) < sm_n s then None
      else do {
        let s = s\<lparr>sm_buf := sort (take (sm_n s) (sm_buf s)) @ drop (sm_n s) (sm_buf s)\<rparr>;
        p50 \<leftarrow> percentile fp_index ns s (50 / 100);
        p90 \<leftarrow> percentile fp_index ns s (90 / 100);
        p99 \<leftarrow> percentile fp_index ns s (99 / 100);
        p999 \<leftarrow> percentile fp_index ns s (999 / 1000);
        Some (Report (sm_n s) (sm_dropped s) p50 p90 p99 p999 (ns (sm_buf s ! (sm_n s - 1))), s) })"

section \<open>Export\<close>

text \<open>
  A stream that has written the lines \<open>ls\<close> prints the next with \<open>f_print ls\<close> and closes with
  \<open>f_close ls\<close>; both give a return value and \<open>errno\<close>. \<open>f_open\<close> is the error number, if any.
\<close>

datatype 'r csv_line = Header | Row 'r

record 'r stream_io =
  f_open :: "int option"
  f_print :: "'r csv_line list \<Rightarrow> int \<times> int"
  f_close :: "'r csv_line list \<Rightarrow> int \<times> int"

definition EIO :: int where "EIO = 5"

definition print_error :: "int \<times> int \<Rightarrow> int" where
  "print_error res = (case res of (ret, errno) \<Rightarrow> if ret < 0 then (if errno \<noteq> 0 then errno else EIO) else 0)"

fun csv_rows :: "'r stream_io \<Rightarrow> 'r list \<Rightarrow> int \<Rightarrow> 'r csv_line list \<Rightarrow> int \<times> 'r csv_line list" where
  "csv_rows F [] error ls = (error, ls)"
| "csv_rows F (v # vs) error ls =
     (if error = 0
      then let e = print_error (f_print F ls) in csv_rows F vs e (if e = 0 then ls @ [Row v] else ls)
      else (error, ls))"

definition dump_csv :: "'r stream_io \<Rightarrow> (u64 \<Rightarrow> 'r) \<Rightarrow> Samples \<Rightarrow> int + 'r csv_line list" where
  "dump_csv F ns s =
     (case f_open F of
        Some errno \<Rightarrow> Inl errno
      | None \<Rightarrow>
          let error = print_error (f_print F []);
              (error, ls) = csv_rows F (map ns (take (sm_n s) (sm_buf s))) error
                              (if error = 0 then [Header] else []);
              (ret, errno) = f_close F ls;
              error = (if ret \<noteq> 0 \<and> error = 0 then (if errno \<noteq> 0 then errno else EIO) else error)
          in if error \<noteq> 0 then Inl error else Inr ls)"

section \<open>Correctness\<close>

definition samples_inv :: "Samples \<Rightarrow> bool" where
  "samples_inv s \<longleftrightarrow> length (sm_buf s) = sm_cap s \<and> sm_n s \<le> sm_cap s"

text \<open>The recorded samples, oldest first (until a report sorts them).\<close>

definition recorded :: "Samples \<Rightarrow> u64 list" where
  "recorded s = take (sm_n s) (sm_buf s)"

lemma Samples_new_inv: "samples_inv (Samples_new cap)" and Samples_new_recorded: "recorded (Samples_new cap) = []"
  by (simp_all add: samples_inv_def Samples_new_def recorded_def)

lemma record_sample_ok:
  assumes "samples_inv s"
  shows "\<exists>s'. record_sample t s = Some s' \<and> samples_inv s' \<and> sm_cap s' = sm_cap s \<and>
    (if length (recorded s) < sm_cap s
     then recorded s' = recorded s @ [t] \<and> sm_dropped s' = sm_dropped s
     else recorded s' = recorded s \<and> sm_dropped s' = sm_dropped s + 1)"
  using assms
  by (auto simp: record_sample_def samples_inv_def recorded_def take_Suc_conv_app_nth)

lemma sorted_last_Max:
  assumes "xs \<noteq> []" "sorted xs"
  shows "last xs = Max (set xs)"
proof (rule Max_eqI [symmetric])
  fix y assume "y \<in> set xs"
  then obtain i where "i < length xs" "y = xs ! i" by (auto simp: in_set_conv_nth)
  with assms show "y \<le> last xs" by (simp add: last_conv_nth sorted_nth_mono)
qed (use assms in auto)

lemma samples_report_ok:
  assumes inv: "samples_inv s" and n: "recorded s \<noteq> []"
  defines "xs \<equiv> sort (recorded s)"
  shows "\<exists>s'. samples_report fp_index ns s =
      Some (Report (length xs) (sm_dropped s)
        (ns (xs ! min (length xs - 1) (fp_index (50 / 100) (length xs))))
        (ns (xs ! min (length xs - 1) (fp_index (90 / 100) (length xs))))
        (ns (xs ! min (length xs - 1) (fp_index (99 / 100) (length xs))))
        (ns (xs ! min (length xs - 1) (fp_index (999 / 1000) (length xs))))
        (ns (Max (set (recorded s)))), s') \<and>
    samples_inv s' \<and> recorded s' = xs"
proof -
  have len: "length (recorded s) = sm_n s" "length (sm_buf s) = sm_cap s" "sm_n s \<le> sm_cap s"
    using inv by (auto simp: recorded_def samples_inv_def)
  then have pos: "0 < sm_n s" using n by (metis gr0I length_0_conv)
  let ?s = "s\<lparr>sm_buf := sort (take (sm_n s) (sm_buf s)) @ drop (sm_n s) (sm_buf s)\<rparr>"
  have buf: "sm_buf ?s ! i = xs ! i" if "i < sm_n s" for i
    using that len by (simp add: xs_def recorded_def nth_append)
  have pct: "percentile fp_index ns ?s p = Some (ns (xs ! min (length xs - 1) (fp_index p (length xs))))" for p
  proof -
    have lt: "min (sm_n s - 1) (fp_index p (sm_n s)) < sm_n s" using pos by linarith
    with len have "min (sm_n s - 1) (fp_index p (sm_n s)) < length (sm_buf ?s)" by simp
    then show ?thesis
      using buf [OF lt] len by (simp add: percentile_def Let_def xs_def)
  qed
  have "xs ! (sm_n s - 1) = Max (set (recorded s))"
  proof -
    have ne: "xs \<noteq> []" using n by (metis xs_def length_0_conv length_sort)
    have "sorted xs" by (simp add: xs_def)
    with ne have "last xs = Max (set xs)" by (rule sorted_last_Max)
    then show ?thesis using ne len by (simp add: last_conv_nth xs_def)
  qed
  then have max: "sm_buf ?s ! (sm_n s - 1) = Max (set (recorded s))" using buf pos by simp
  have "samples_inv ?s" "recorded ?s = xs"
    using len by (simp_all add: samples_inv_def recorded_def xs_def)
  moreover have "length xs = sm_n s" using len by (simp add: xs_def)
  ultimately show ?thesis
    using pct max pos len by (intro exI [of _ ?s]) (simp add: samples_report_def Let_def)
qed

lemma samples_report_total:
  assumes "samples_inv s"
  shows "\<exists>rep s'. samples_report fp_index ns s = Some (rep, s')"
proof (cases "recorded s = []")
  case True
  with assms have "sm_n s = 0" by (auto simp: recorded_def samples_inv_def)
  then show ?thesis by (simp add: samples_report_def)
next
  case False
  from samples_report_ok [OF assms False] show ?thesis by blast
qed

lemma csv_rows_error: "error \<noteq> 0 \<Longrightarrow> csv_rows F vs error ls = (error, ls)"
  by (cases vs) simp_all

lemma csv_rows_complete: "csv_rows F vs error ls = (0, ls') \<Longrightarrow> error = 0 \<and> ls' = ls @ map Row vs"
proof (induction vs arbitrary: error ls)
  case (Cons v vs)
  show ?case
  proof (cases "error = 0")
    case True
    let ?e = "print_error (f_print F ls)"
    from Cons.prems True have rec: "csv_rows F vs ?e (if ?e = 0 then ls @ [Row v] else ls) = (0, ls')"
      by (simp add: Let_def)
    from Cons.IH [OF this] True show ?thesis by auto
  qed (use Cons.prems in simp)
qed simp

text \<open>A successful export is complete: the header and one row per recorded sample, in order.\<close>

lemma dump_csv_complete:
  assumes "dump_csv F ns s = Inr ls"
  shows "ls = Header # map (\<lambda>t. Row (ns t)) (recorded s)"
proof -
  from assms have open_ok: "f_open F = None" by (auto simp: dump_csv_def split: option.splits)
  let ?e = "print_error (f_print F [])"
  obtain e ls' where rows: "csv_rows F (map ns (recorded s)) ?e (if ?e = 0 then [Header] else []) = (e, ls')"
    by (rule prod.exhaust)
  with assms open_ok have "e = 0" "ls' = ls"
    by (auto simp: dump_csv_def recorded_def Let_def split: prod.splits if_splits)
  with rows csv_rows_complete [of F _ ?e] show ?thesis by (fastforce simp: comp_def)
qed

end
