(* ===== verification/Reflector.thy ===== *)
theory Reflector
  imports Transmitter Receiver Packet Samples
begin

text \<open>
  The worker of \<^verbatim>\<open>main.cpp\<close>: the constants and start-up of \<open>run_receiver\<close>, the callback
  \<open>strategy\<close>, the commit \<open>service_tx\<close>, and their composition with the receiver. The interpretation
  \<open>worker\<close> discharges the contract of \<^verbatim>\<open>receiver_client\<close> for them, so every pass keeps all frames
  and never faults.
\<close>

section \<open>Constants\<close>

definition NUM_FRAMES :: u32 where "NUM_FRAMES = 8192"
definition FRAME_SIZE :: u32 where "FRAME_SIZE = 2048"
definition RING_SIZE :: u32 where "RING_SIZE = 2048"
definition ALLOC_CAP :: nat where "ALLOC_CAP = 8192"
definition UMEM_HEADROOM :: u32 where "UMEM_HEADROOM = 2"
definition RX_BATCH_SIZE :: int where "RX_BATCH_SIZE = 64"
definition SAMPLE_CAPACITY :: nat where "SAMPLE_CAPACITY = 2 ^ 22"

definition main_geometry :: geometry where
  "main_geometry = \<lparr>g_ring = RING_SIZE, g_frame_size = FRAME_SIZE, g_num_frames = NUM_FRAMES, g_cap = ALLOC_CAP\<rparr>"

text \<open>The static assertions; the headroom that the kernel reserves in a frame is a constant of its interface.\<close>

definition XDP_PACKET_HEADROOM :: u32 where "XDP_PACKET_HEADROOM = 256"
definition ETH_HLEN :: u32 where "ETH_HLEN = 14"

definition static_asserts :: bool where
  "static_asserts \<longleftrightarrow> NUM_FRAMES > 0 \<and> unat NUM_FRAMES \<le> ALLOC_CAP \<and>
     PowerOfTwo RING_SIZE \<and> RING_SIZE \<ge> 2 \<and> RING_SIZE \<le> NUM_FRAMES \<and> PowerOfTwo FRAME_SIZE \<and>
     RX_BATCH_SIZE > 0 \<and> word_of_int RX_BATCH_SIZE \<le> RING_SIZE \<and>
     XDP_PACKET_HEADROOM + UMEM_HEADROOM + ETH_HLEN + of_nat REFLECTOR_IPV4_MTU \<le> FRAME_SIZE"

section \<open>The callback and the commit\<close>

record BenchStats =
  b_callbacks :: u64
  b_bytes :: u64
  b_staged :: u64
  b_unsupported :: u64

text \<open>What the lambdas capture, and the number of time stamps taken so far.\<close>

record Client =
  cl_tx :: Transmitter
  cl_bench :: BenchStats
  cl_samples :: Samples
  cl_stamps :: nat

definition count_packet :: "u32 \<Rightarrow> BenchStats \<Rightarrow> BenchStats" where
  "count_packet len b = b\<lparr>b_callbacks := b_callbacks b + 1, b_bytes := b_bytes b + ucast len\<rparr>"

text \<open>The swap happens in the UMEM, in place; then the frame is staged or counted as unsupported.\<close>

definition reflect_and_stage ::
  "'k kernel \<Rightarrow> PacketView \<Rightarrow> Client \<Rightarrow> 'k io \<Rightarrow> (bool \<times> Client \<times> 'k io) option" where
  "reflect_and_stage K pkt cl io = do {
     f \<leftarrow> mem_read (w_umem (io_world io)) (unat (pv_data pkt)) (unat (pv_size pkt));
     (swapped, f) \<leftarrow> reflect_swap f;
     m \<leftarrow> mem_write (unat (pv_data pkt)) f (w_umem (io_world io));
     let io = set_umem m io;
     (transferred, cl, io) \<leftarrow>
       (if swapped
        then do {
          (b, tr, io) \<leftarrow> send_in_place K (pv_addr pkt) (pv_size pkt) (cl_tx cl) io;
          Some (b, cl\<lparr>cl_tx := tr\<rparr>, io) }
        else Some (False, cl\<lparr>cl_bench := (cl_bench cl)\<lparr>b_unsupported := b_unsupported (cl_bench cl) + 1\<rparr>\<rparr>, io));
     Some (transferred,
           if transferred
           then cl\<lparr>cl_bench := (cl_bench cl)\<lparr>b_staged := b_staged (cl_bench cl) + 1\<rparr>\<rparr> else cl,
           io) }"

text \<open>
  What the worker sees of the outside world: the \<open>i\<close>-th value of the time stamp counter, and whether
  the control thread's call of \<open>Samples::start\<close> is visible at the \<open>n\<close>-th callback.
\<close>

record timing =
  stamp :: "nat \<Rightarrow> u64"
  start_seen :: "u64 \<Rightarrow> bool"

definition see_start :: "timing \<Rightarrow> Client \<Rightarrow> Client" where
  "see_start tsc cl =
     (if start_seen tsc (b_callbacks (cl_bench cl)) then cl\<lparr>cl_samples := samples_start (cl_samples cl)\<rparr> else cl)"

text \<open>The sample is the difference of two time stamps.\<close>

definition end_sample :: "timing \<Rightarrow> bool \<Rightarrow> u64 \<Rightarrow> Client \<Rightarrow> Client option" where
  "end_sample tsc timed t0 cl =
     (if timed
      then do {
        s \<leftarrow> record_sample (stamp tsc (cl_stamps cl) - t0) (cl_samples cl);
        Some (cl\<lparr>cl_samples := s, cl_stamps := Suc (cl_stamps cl)\<rparr>) }
      else Some cl)"

definition strategy :: "timing \<Rightarrow> 'k kernel \<Rightarrow> (Client, 'k) callback" where
  "strategy tsc K pkt cl io =
     (let cl = see_start tsc cl;
          timed = recording (cl_samples cl);
          t0 = (if timed then stamp tsc (cl_stamps cl) else 0);
          cl = cl\<lparr>cl_stamps := (if timed then Suc (cl_stamps cl) else cl_stamps cl)\<rparr>;
          cl = cl\<lparr>cl_bench := count_packet (pv_size pkt) (cl_bench cl)\<rparr>
      in do {
        (transferred, cl, io) \<leftarrow> reflect_and_stage K pkt cl io;
        cl \<leftarrow> end_sample tsc timed t0 cl;
        Some (if transferred then Transferred else Recycle, cl, io) })"

definition service_tx :: "'k kernel \<Rightarrow> (Client, 'k) commit" where
  "service_tx K cl io = do {
     (tr, io) \<leftarrow> publish_and_service_tx K (cl_tx cl) io;
     Some (cl\<lparr>cl_tx := tr\<rparr>, io) }"

section \<open>Start-up and shutdown\<close>

text \<open>
  From the bound socket to the worker: the allocator, the first refill and wakeup (whose error is
  only printed), then the transmitter, the counters, and the receiver.
\<close>

definition prime_socket ::
  "'k kernel \<Rightarrow> FrameAllocator \<Rightarrow> Xsk \<Rightarrow> 'k world \<Rightarrow> ((int + unit) \<times> 'k io) option" where
  "prime_socket K al xsk w = do {
     (_, io) \<leftarrow> refill_fill K \<lparr>io_xsk = xsk, io_alloc = al, io_world = w\<rparr>;
     Some (request_rx_progress K io) }"

definition make_worker :: "int \<Rightarrow> bool \<Rightarrow> Xsk \<Rightarrow> 'k io \<Rightarrow> (Receiver \<times> Client \<times> 'k io) option" where
  "make_worker worker_cpu realtime xsk io = do {
     tr \<leftarrow> Transmitter_new FRAME_SIZE;
     Some (Receiver_new xsk FRAME_SIZE
             \<lparr>cpu_affinity = worker_cpu, realtime_sched = realtime, batch_size = RX_BATCH_SIZE,
              fill_refill_threshold = 0\<rparr>,
           \<lparr>cl_tx = tr, cl_bench = \<lparr>b_callbacks = 0, b_bytes = 0, b_staged = 0, b_unsupported = 0\<rparr>,
            cl_samples = Samples_new SAMPLE_CAPACITY, cl_stamps = 0\<rparr>,
           io) }"

definition start_worker ::
  "'k kernel \<Rightarrow> int \<Rightarrow> bool \<Rightarrow> Xsk \<Rightarrow> 'k world \<Rightarrow> (Receiver \<times> Client \<times> 'k io) option" where
  "start_worker K worker_cpu realtime xsk w = do {
     al \<leftarrow> FrameAllocator_new ALLOC_CAP NUM_FRAMES FRAME_SIZE;
     (_, io) \<leftarrow> prime_socket K al xsk w;
     make_worker worker_cpu realtime xsk io }"

text \<open>The worker runs until the stop request; then the control thread drains the transmitter.\<close>

definition run_and_drain ::
  "timing \<Rightarrow> 'k kernel \<Rightarrow> (nat \<Rightarrow> bool) \<Rightarrow> (nat \<Rightarrow> int) \<Rightarrow> int \<Rightarrow>
   Receiver \<Rightarrow> Client \<Rightarrow> 'k io \<Rightarrow> (u32 \<times> Receiver \<times> Client \<times> 'k io) option" where
  "run_and_drain tsc K stop clk deadline r cl io = do {
     (r, cl, io) \<leftarrow> run (strategy tsc K) (service_tx K) K stop r cl io;
     (remaining, tr, io) \<leftarrow> drain_until K clk deadline (cl_tx cl) io;
     Some (remaining, r, cl\<lparr>cl_tx := tr\<rparr>, io) }"

section \<open>Invariant\<close>

text \<open>
  Every callback is counted once as staged, unsupported or rejected, and the staged frames are those
  the transmitter has submitted or still holds in its window.
\<close>

definition counters_ok :: "Client \<Rightarrow> bool" where
  "counters_ok cl \<longleftrightarrow>
     b_callbacks (cl_bench cl) =
       b_staged (cl_bench cl) + b_unsupported (cl_bench cl) + frames_rejected (cl_tx cl) \<and>
     b_staged (cl_bench cl) = frames_submitted (cl_tx cl) + ucast (tx_used (cl_tx cl))"

definition worker_inv ::
  "geometry \<Rightarrow> ('k \<Rightarrow> u64 multiset) \<Rightarrow> ('k \<Rightarrow> u64 multiset) \<Rightarrow> nat \<Rightarrow> Client \<Rightarrow> 'k io \<Rightarrow> bool" where
  "worker_inv g kr kt skip cl io \<longleftrightarrow>
     tx_inv g kr kt skip (cl_tx cl) io \<and> samples_inv (cl_samples cl) \<and> counters_ok cl"

definition cl_staged :: "Client \<Rightarrow> 'k io \<Rightarrow> xdp_desc list" where
  "cl_staged cl io = tx_pending io (unat (tx_used (cl_tx cl)))"

lemma tx_inv_frame:
  assumes "tx_inv g kr kt skip tr io" "tx_side_kept kt io io'"
    and "io_inv g kr kt skip' (tx_pending io (unat (tx_used tr))) io'"
  shows "tx_inv g kr kt skip' tr io'"
  using assms by (auto simp: tx_inv_def tx_side_kept_def)

lemma worker_inv_frame:
  assumes "worker_inv g kr kt skip cl io" "tx_side_kept kt io io'"
    and "io_inv g kr kt skip' (cl_staged cl io) io'"
  shows "worker_inv g kr kt skip' cl io'"
  using assms tx_inv_frame by (auto simp: worker_inv_def cl_staged_def)

lemma worker_inv_io: "worker_inv g kr kt skip cl io \<Longrightarrow> io_inv g kr kt skip (cl_staged cl io) io"
  by (auto simp: worker_inv_def cl_staged_def intro: tx_invD)

lemma set_umem_inv:
  assumes "length m = length (w_umem (io_world io))"
  shows "tx_inv g kr kt skip tr (set_umem m io) = tx_inv g kr kt skip tr io"
    and "rx_queue (set_umem m io) = rx_queue io" and "io_alloc (set_umem m io) = io_alloc io"
    and "rx_kept io (set_umem m io)" and "tx_pending (set_umem m io) j = tx_pending io j"
    and "rx_held kr (set_umem m io) = rx_held kr io"
  using assms
  by (auto simp: set_umem_def tx_inv_def io_inv_def rings_ok_def owned_def in_flight_def queue_defs
      tx_pending_def rx_kept_def rx_held_def)

text \<open>The frame of the next entry moves to the allocator.\<close>

lemma recycle_io_inv:
  assumes inv: "io_inv g kr kt skip st io" and lt: "skip < length (rx_queue io)"
    and a: "alloc_inv (g_cap g) a"
      "free_frames a = free_frames (io_alloc io) @ [frame_base g (d_addr (rx_queue io ! skip))]"
  shows "io_inv g kr kt (Suc skip) st (io\<lparr>io_alloc := a\<rparr>)"
proof -
  have "drop skip (rx_queue io) = rx_queue io ! skip # drop (Suc skip) (rx_queue io)"
    using lt by (simp add: Cons_nth_drop_Suc)
  then have "owned g kr kt (Suc skip) st (io\<lparr>io_alloc := a\<rparr>) = owned g kr kt skip st io"
    by (simp add: owned_def a(2) queue_defs desc_frames_def)
  then show ?thesis
    using inv a(1) lt by (simp add: io_inv_def rings_ok_def queue_defs)
qed

section \<open>One packet\<close>

definition tx_of :: "xdp_desc \<Rightarrow> xdp_desc" where
  "tx_of d = \<lparr>d_addr = d_addr d, d_len = d_len d, d_options = 0\<rparr>"

definition view_of :: "xdp_desc \<Rightarrow> PacketView" where
  "view_of d = \<lparr>pv_data = d_addr d, pv_size = d_len d, pv_addr = d_addr d\<rparr>"

text \<open>
  The packet is reflected in place if it is supported, and no byte of another frame changes except
  those the kernel may write.
\<close>

definition packet_effect ::
  "geometry \<Rightarrow> ('k \<Rightarrow> u64 multiset) \<Rightarrow> xdp_desc \<Rightarrow> 'k io \<Rightarrow> 'k io \<Rightarrow> bool" where
  "packet_effect g kr d io io' \<longleftrightarrow> rx_held kr io' \<subseteq> rx_held kr io \<and>
     packet io' d = (if supported (packet io d) then reflected (packet io d) else packet io d) \<and>
     (\<forall>e. desc_ok g e \<longrightarrow> frame_base g (d_addr e) \<notin> rx_held kr io \<longrightarrow>
        frame_base g (d_addr e) \<noteq> frame_base g (d_addr d) \<longrightarrow> packet io' e = packet io e)"

lemma reflect_in_place:
  assumes inv: "tx_inv g kr kt skip tr io" and d: "desc_ok g d"
    and held: "frame_base g (d_addr d) \<notin> rx_held kr io"
  obtains m where
    "do { f \<leftarrow> mem_read (w_umem (io_world io)) (unat (d_addr d)) (unat (d_len d));
          (swapped, f) \<leftarrow> reflect_swap f;
          m \<leftarrow> mem_write (unat (d_addr d)) f (w_umem (io_world io));
          Some (swapped, m) } = Some (supported (packet io d), m)"
    "length m = length (w_umem (io_world io))" "packet_effect g kr d io (set_umem m io)"
proof -
  note io = tx_invD(1) [OF inv]
  let ?f = "packet io d" and ?a = "unat (d_addr d)" and ?u = "w_umem (io_world io)"
  let ?h = "if supported ?f then reflected ?f else ?f"
  note rd = packet_read [OF io d]
  have "length ?h = unat (d_len d)" using rd(2) by simp
  from packet_write [OF io d this] obtain m where m: "mem_write ?a ?h ?u = Some m" "length m = length ?u"
      "packet (set_umem m io) d = ?h"
      "\<And>e. desc_ok g e \<Longrightarrow> frame_base g (d_addr e) \<noteq> frame_base g (d_addr d) \<Longrightarrow>
        packet (set_umem m io) e = packet io e" by blast
  then have "packet_effect g kr d io (set_umem m io)"
    using set_umem_inv(6) [of m io] by (auto simp: packet_effect_def)
  with m(1,2) rd show ?thesis
    by (intro that [of m]) (simp_all add: reflect_swap_spec)
qed

lemma packet_effect_kept:
  assumes eff: "packet_effect g kr d io io1" and kept: "umem_kept g kr io1 io2"
    and inv: "io_inv g kr kt skip st io1" and d: "desc_ok g d" "frame_base g (d_addr d) \<notin> rx_held kr io"
  shows "packet_effect g kr d io io2"
proof -
  have sub: "rx_held kr io1 \<subseteq> rx_held kr io" "rx_held kr io2 \<subseteq> rx_held kr io1"
    using eff kept by (auto simp: packet_effect_def umem_kept_def)
  have "packet io2 e = packet io1 e" if "desc_ok g e" "frame_base g (d_addr e) \<notin> rx_held kr io" for e
    using packet_kept [OF inv kept that(1)] that(2) sub(1) by blast
  with eff sub d show ?thesis unfolding packet_effect_def by auto
qed

lemma send_in_place_submitted:
  "send_in_place K addr len tr io = Some (b, tr', io') \<Longrightarrow>
   frames_submitted tr' = frames_submitted tr \<and> outstanding tr' = outstanding tr"
  by (auto simp: send_in_place_def reserve_window_def refresh_window_def reject_def Let_def
      split: if_splits prod.splits Option.bind_splits)

text \<open>
  The three outcomes of a packet: staged, refused by the full TX ring, or unsupported.
\<close>

definition packet_outcome ::
  "geometry \<Rightarrow> ('k \<Rightarrow> u64 multiset) \<Rightarrow> ('k \<Rightarrow> u64 multiset) \<Rightarrow> nat \<Rightarrow> bool \<Rightarrow>
   Client \<Rightarrow> 'k io \<Rightarrow> Client \<Rightarrow> 'k io \<Rightarrow> bool" where
  "packet_outcome g kr kt skip b cl io cl' io' \<longleftrightarrow>
     (let d = rx_queue io ! skip; ok = supported (packet io d); B = cl_bench cl; T = cl_tx cl; T' = cl_tx cl'
      in rx_kept io io' \<and> packet_effect g kr d io io' \<and> io_alloc io' = io_alloc io \<and>
         frames_submitted T' = frames_submitted T \<and> outstanding T' = outstanding T \<and>
         (if b
          then ok \<and> tx_inv g kr kt (Suc skip) T' io' \<and> cl_staged cl' io' = cl_staged cl io @ [tx_of d] \<and>
               frames_rejected T' = frames_rejected T \<and> cl_bench cl' = B\<lparr>b_staged := b_staged B + 1\<rparr>
          else tx_inv g kr kt skip T' io' \<and> cl_staged cl' io' = cl_staged cl io \<and>
               (if ok
                then frames_rejected T' = frames_rejected T + 1 \<and> cl_bench cl' = B \<and>
                     length (tx_queue io') + length (cl_staged cl io) = unat (g_ring g)
                else frames_rejected T' = frames_rejected T \<and>
                     cl_bench cl' = B\<lparr>b_unsupported := b_unsupported B + 1\<rparr>)))"

lemma packet_outcome_cong:
  assumes "cl_tx cl = cl_tx cl1" "cl_bench cl = cl_bench cl1" "cl_tx cl' = cl_tx cl2" "cl_bench cl' = cl_bench cl2"
  shows "packet_outcome g kr kt skip b cl io cl' io' = packet_outcome g kr kt skip b cl1 io cl2 io'"
  using assms by (simp add: packet_outcome_def cl_staged_def)

lemma length_tx_pending [simp]: "length (tx_pending io k) = k"
  by (simp add: tx_pending_def ring_pending_def)

lemma length_cl_staged: "length (cl_staged cl io) = unat (tx_used (cl_tx cl))"
  by (simp add: cl_staged_def)

text \<open>
  The callback rewrites the frame where it lies, and only a frame it could rewrite is offered to the
  transmitter.
\<close>

lemma reflect_and_stage_swapped:
  assumes inv: "tx_inv g kr kt skip (cl_tx cl) io" and lt: "skip < length (rx_queue io)"
  defines "d \<equiv> rx_queue io ! skip"
  obtains m where "length m = length (w_umem (io_world io))" "packet_effect g kr d io (set_umem m io)"
    "reflect_and_stage K (view_of d) cl io =
      (if supported (packet io d)
       then do { (b, tr, io) \<leftarrow> send_in_place K (d_addr d) (d_len d) (cl_tx cl) (set_umem m io);
                 Some (b, if b then cl\<lparr>cl_tx := tr, cl_bench := (cl_bench cl)\<lparr>b_staged := b_staged (cl_bench cl) + 1\<rparr>\<rparr>
                          else cl\<lparr>cl_tx := tr\<rparr>, io) }
       else Some (False, cl\<lparr>cl_bench := (cl_bench cl)\<lparr>b_unsupported := b_unsupported (cl_bench cl) + 1\<rparr>\<rparr>,
                  set_umem m io))"
proof -
  note io = tx_invD(1) [OF inv]
  have d: "desc_ok g d" using io lt by (simp add: io_inv_def d_def)
  have held: "frame_base g (d_addr d) \<notin> rx_held kr io"
    unfolding d_def using io lt by (intro rx_frame_not_held [of g kr kt skip]) auto
  obtain m where m: "do { f \<leftarrow> mem_read (w_umem (io_world io)) (unat (d_addr d)) (unat (d_len d));
          (swapped, f) \<leftarrow> reflect_swap f;
          m \<leftarrow> mem_write (unat (d_addr d)) f (w_umem (io_world io));
          Some (swapped, m) } = Some (supported (packet io d), m)"
    "length m = length (w_umem (io_world io))" "packet_effect g kr d io (set_umem m io)"
    by (rule reflect_in_place [OF inv d held])
  from m(1) show thesis
    by (intro that [OF m(2,3)])
      (auto simp: reflect_and_stage_def view_of_def split: Option.bind_splits prod.splits)
qed

text \<open>A supported frame is neither empty nor longer than a frame, so only a full ring rejects it.\<close>

lemma send_outcome_packet:
  assumes inv: "tx_inv g kr kt skip (cl_tx cl) io" and lt: "skip < length (rx_queue io)"
    and d: "d = rx_queue io ! skip" and ok: "supported (packet io d)"
    and m: "length m = length (w_umem (io_world io))" "packet_effect g kr d io (set_umem m io)"
    and snd: "send_in_place K (d_addr d) (d_len d) (cl_tx cl) (set_umem m io) = Some (b, tr, io')"
    and out: "send_outcome g kr kt skip (d_addr d) (d_len d) b (cl_tx cl) (set_umem m io) tr io'"
  defines "cl' \<equiv> if b then cl\<lparr>cl_tx := tr, cl_bench := (cl_bench cl)\<lparr>b_staged := b_staged (cl_bench cl) + 1\<rparr>\<rparr>
    else cl\<lparr>cl_tx := tr\<rparr>"
  shows "packet_outcome g kr kt skip b cl io cl' io'"
proof -
  note um = set_umem_inv [OF m(1)]
  note io = tx_invD(1) [OF inv]
  have dk: "desc_ok g d" using io lt by (simp add: io_inv_def d)
  have held: "frame_base g (d_addr d) \<notin> rx_held kr io"
    unfolding d using io lt by (intro rx_frame_not_held [of g kr kt skip]) auto
  have nz: "d_len d \<noteq> 0" using packet_read(2) [OF io dk] ok by (auto simp: supported_def)
  have fits: "\<not> d_len d > g_frame_size g" using dk by (simp add: desc_ok_def word_less_nat_alt)
  have inv1: "tx_inv g kr kt skip (cl_tx cl) (set_umem m io)" using inv by (simp only: um(1))
  have eff: "packet_effect g kr d io io'"
    using m(2) out [unfolded send_outcome_def, THEN conjunct2, THEN conjunct1] tx_invD(1) [OF inv1] dk held
    by (rule packet_effect_kept)
  have kept: "rx_kept io io'" using um(4) out by (auto simp: send_outcome_def intro: rx_kept_trans)
  show ?thesis
    using eff kept out [unfolded send_outcome_def, folded tx_of_def] nz fits ok send_in_place_submitted [OF snd]
    by (cases b) (auto simp: packet_outcome_def Let_def cl_staged_def um cl'_def d [symmetric])
qed

lemma reflect_and_stage_ok:
  assumes K: "kernel_contract g kr kt K" and inv: "tx_inv g kr kt skip (cl_tx cl) io"
    and lt: "skip < length (rx_queue io)"
  defines "d \<equiv> rx_queue io ! skip"
  shows "\<exists>b cl' io'. reflect_and_stage K (view_of d) cl io = Some (b, cl', io') \<and>
    packet_outcome g kr kt skip b cl io cl' io' \<and>
    cl_samples cl' = cl_samples cl \<and> cl_stamps cl' = cl_stamps cl"
proof -
  obtain m where m: "length m = length (w_umem (io_world io))" "packet_effect g kr d io (set_umem m io)"
    and call: "reflect_and_stage K (view_of d) cl io =
      (if supported (packet io d)
       then do { (b, tr, io) \<leftarrow> send_in_place K (d_addr d) (d_len d) (cl_tx cl) (set_umem m io);
                 Some (b, if b then cl\<lparr>cl_tx := tr, cl_bench := (cl_bench cl)\<lparr>b_staged := b_staged (cl_bench cl) + 1\<rparr>\<rparr>
                          else cl\<lparr>cl_tx := tr\<rparr>, io) }
       else Some (False, cl\<lparr>cl_bench := (cl_bench cl)\<lparr>b_unsupported := b_unsupported (cl_bench cl) + 1\<rparr>\<rparr>,
                  set_umem m io))"
    using reflect_and_stage_swapped [OF inv lt] unfolding d_def by blast
  note um = set_umem_inv [OF m(1)]
  have inv1: "tx_inv g kr kt skip (cl_tx cl) (set_umem m io)" using inv by (simp only: um(1))
  show ?thesis
  proof (cases "supported (packet io d)")
    case False
    with call m(2) um inv1 show ?thesis
      by (intro exI [of _ False] exI) (auto simp: packet_outcome_def Let_def d_def cl_staged_def)
  next
    case True
    have at: "skip < length (rx_queue (set_umem m io))" "d_addr d = d_addr (rx_queue (set_umem m io) ! skip)"
      "d_len d = d_len (rx_queue (set_umem m io) ! skip)" by (simp_all add: um(2) d_def lt)
    from send_in_place_ok [OF K inv1 at] obtain b tr io' where
      snd: "send_in_place K (d_addr d) (d_len d) (cl_tx cl) (set_umem m io) = Some (b, tr, io')"
        "send_outcome g kr kt skip (d_addr d) (d_len d) b (cl_tx cl) (set_umem m io) tr io'" by blast
    from send_outcome_packet [OF inv lt d_def [THEN meta_eq_to_obj_eq] True m snd] call True snd(1)
    show ?thesis by (auto split: if_splits)
  qed
qed

text \<open>The callback as a whole: the outcome of the packet, one more callback, perhaps one more sample.\<close>

lemma end_sample_ok:
  assumes "samples_inv (cl_samples cl)"
  shows "\<exists>cl'. end_sample tsc timed t0 cl = Some cl' \<and> samples_inv (cl_samples cl') \<and>
    cl_tx cl' = cl_tx cl \<and> cl_bench cl' = cl_bench cl"
  using assms record_sample_ok [OF assms, of "stamp tsc (cl_stamps cl) - t0"] by (auto simp: end_sample_def)

lemma strategy_outcome:
  assumes K: "kernel_contract g kr kt K" and inv: "worker_inv g kr kt skip cl io"
    and lt: "skip < length (rx_queue io)" and d: "d = rx_queue io ! skip"
  defines "cl0 \<equiv> cl\<lparr>cl_bench := count_packet (d_len d) (cl_bench cl)\<rparr>"
  shows "\<exists>b cl' io'. strategy tsc K (view_of d) cl io = Some (if b then Transferred else Recycle, cl', io') \<and>
    packet_outcome g kr kt skip b cl0 io cl' io' \<and> samples_inv (cl_samples cl')"
proof -
  define c where "c = see_start tsc cl"
  have c: "cl_tx c = cl_tx cl" "cl_bench c = cl_bench cl" "samples_inv (cl_samples c)"
    using inv by (simp_all add: c_def see_start_def worker_inv_def samples_inv_def samples_start_def)
  define timed where "timed = recording (cl_samples c)"
  define t0 where "t0 = (if timed then stamp tsc (cl_stamps c) else 0)"
  define cl1 where "cl1 = c\<lparr>cl_stamps := (if timed then Suc (cl_stamps c) else cl_stamps c),
      cl_bench := count_packet (d_len d) (cl_bench c)\<rparr>"
  have tx: "cl_tx cl1 = cl_tx cl" "cl_samples cl1 = cl_samples c" by (simp_all add: cl1_def c)
  have "tx_inv g kr kt skip (cl_tx cl1) io" using inv by (simp add: worker_inv_def tx)
  from reflect_and_stage_ok [OF K this lt] d obtain b cl2 io2 where
    st: "reflect_and_stage K (view_of d) cl1 io = Some (b, cl2, io2)"
      "packet_outcome g kr kt skip b cl1 io cl2 io2" "cl_samples cl2 = cl_samples cl1" by blast
  from st(3) c(3) have "samples_inv (cl_samples cl2)" by (simp add: tx)
  from end_sample_ok [OF this] obtain cl3 where
    en: "end_sample tsc timed t0 cl2 = Some cl3" "samples_inv (cl_samples cl3)"
      "cl_tx cl3 = cl_tx cl2" "cl_bench cl3 = cl_bench cl2" by blast
  have "strategy tsc K (view_of d) cl io = Some (if b then Transferred else Recycle, cl3, io2)"
    using st(1) en(1) unfolding cl1_def t0_def timed_def c_def
    by (simp add: strategy_def Let_def view_of_def)
  moreover have "packet_outcome g kr kt skip b cl0 io cl3 io2"
    using st(2) en(3,4)
    by (subst packet_outcome_cong [of cl0 cl1 cl3 cl2]) (simp_all add: cl1_def cl0_def c)
  ultimately show ?thesis using en(2) by blast
qed

lemma ucast_inc:
  fixes m n :: u32
  assumes "unat m = Suc (unat n)"
  shows "(ucast m :: u64) = ucast n + 1"
proof -
  have "n \<le> m" "unat (m - n) = 1" using assms by (simp_all add: word_le_nat_alt unat_sub_le)
  moreover from this(2) have "m - n = 1" by (simp add: word_unat_eq_iff)
  ultimately show ?thesis using ucast_sub_u32 [of n m] by simp
qed

lemma packet_outcome_counters:
  assumes "packet_outcome g kr kt skip b (cl\<lparr>cl_bench := count_packet len (cl_bench cl)\<rparr>) io cl' io'"
    and "counters_ok cl"
  shows "counters_ok cl'"
proof (cases b)
  case True
  with assms(1) have "length (cl_staged cl' io') = Suc (length (cl_staged cl io))"
    by (simp add: packet_outcome_def Let_def cl_staged_def)
  then have "unat (tx_used (cl_tx cl')) = Suc (unat (tx_used (cl_tx cl)))" by (simp add: length_cl_staged)
  with True assms show ?thesis
    by (auto simp: counters_ok_def packet_outcome_def count_packet_def Let_def ucast_inc)
next
  case False
  with assms(1) have "length (cl_staged cl' io') = length (cl_staged cl io)"
    by (simp add: packet_outcome_def Let_def cl_staged_def)
  then have "tx_used (cl_tx cl') = tx_used (cl_tx cl)" by (simp add: length_cl_staged word_unat_eq_iff)
  with False assms show ?thesis
    by (auto simp: counters_ok_def packet_outcome_def count_packet_def Let_def split: if_splits)
qed

lemma packet_outcome_inv:
  assumes "packet_outcome g kr kt skip b (cl\<lparr>cl_bench := count_packet len (cl_bench cl)\<rparr>) io cl' io'"
    and "worker_inv g kr kt skip cl io" "samples_inv (cl_samples cl')"
  shows "worker_inv g kr kt (if b then Suc skip else skip) cl' io'"
  using assms packet_outcome_counters [OF assms(1)]
  by (auto simp: worker_inv_def packet_outcome_def Let_def)

text \<open>A recycled frame joins the free ones.\<close>

lemma worker_inv_recycle:
  assumes inv: "worker_inv g kr kt skip cl io" and lt: "skip < length (rx_queue io)"
    and a: "alloc_inv (g_cap g) a"
      "free_frames a = free_frames (io_alloc io) @ [frame_base g (d_addr (rx_queue io ! skip))]"
  shows "worker_inv g kr kt (Suc skip) cl (io\<lparr>io_alloc := a\<rparr>)"
proof (rule worker_inv_frame [OF inv])
  show "tx_side_kept kt io (io\<lparr>io_alloc := a\<rparr>)"
    by (simp add: tx_side_kept_def in_flight_def queue_defs tx_pending_def)
  from worker_inv_io [OF inv] show "io_inv g kr kt (Suc skip) (cl_staged cl io) (io\<lparr>io_alloc := a\<rparr>)"
    using lt a by (rule recycle_io_inv)
qed

lemma rx_kept_at:
  "rx_kept io io' \<Longrightarrow> i < length (rx_queue io) \<Longrightarrow>
   i < length (rx_queue io') \<and> rx_queue io' ! i = rx_queue io ! i"
  by (auto simp: rx_kept_def Let_def nth_append)

lemma strategy_callback_ok:
  assumes K: "kernel_contract g kr kt K" and inv: "worker_inv g kr kt skip cl io"
    and lt: "skip < length (rx_queue io)" and d: "d = rx_queue io ! skip"
  shows "\<exists>disp cl' io'. strategy tsc K (view_of d) cl io = Some (disp, cl', io') \<and> rx_kept io io' \<and>
    (case disp of Transferred \<Rightarrow> worker_inv g kr kt (Suc skip) cl' io'
     | Recycle \<Rightarrow> io_inv g kr kt skip (cl_staged cl' io') io' \<and>
         (\<forall>a. alloc_inv (g_cap g) a \<longrightarrow>
           free_frames a = free_frames (io_alloc io') @ [frame_base g (d_addr d)] \<longrightarrow>
           worker_inv g kr kt (Suc skip) cl' (io'\<lparr>io_alloc := a\<rparr>)))"
proof -
  from strategy_outcome [OF K inv lt d, of tsc] obtain b cl' io' where
    o: "strategy tsc K (view_of d) cl io = Some (if b then Transferred else Recycle, cl', io')"
      "packet_outcome g kr kt skip b (cl\<lparr>cl_bench := count_packet (d_len d) (cl_bench cl)\<rparr>) io cl' io'"
      "samples_inv (cl_samples cl')" by blast
  note inv' = packet_outcome_inv [OF o(2) inv o(3)]
  from o(2) have kept: "rx_kept io io'" by (simp add: packet_outcome_def Let_def)
  from worker_inv_recycle [of g kr kt skip cl' io'] rx_kept_at [OF kept lt] inv' d
  have "\<not> b \<Longrightarrow> alloc_inv (g_cap g) a \<Longrightarrow>
      free_frames a = free_frames (io_alloc io') @ [frame_base g (d_addr d)] \<Longrightarrow>
      worker_inv g kr kt (Suc skip) cl' (io'\<lparr>io_alloc := a\<rparr>)" for a by simp
  with o(1) kept inv' worker_inv_io [OF inv'] show ?thesis
    by (intro exI [of _ "if b then Transferred else Recycle"] exI [of _ cl'] exI [of _ io'])
      (simp split: if_splits)
qed

lemma service_tx_ok:
  assumes K: "kernel_contract g kr kt K" and inv: "worker_inv g kr kt skip cl io"
  shows "\<exists>cl' io'. service_tx K cl io = Some (cl', io') \<and> worker_inv g kr kt skip cl' io'"
proof -
  from inv have "tx_inv g kr kt skip (cl_tx cl) io" by (simp add: worker_inv_def)
  from publish_and_service_tx_ok [OF K this] obtain tr io' where
    s: "publish_and_service_tx K (cl_tx cl) io = Some (tr, io')" "tx_inv g kr kt skip tr io'"
      "tx_used tr = 0" "frames_submitted tr = frames_submitted (cl_tx cl) + ucast (tx_used (cl_tx cl))"
      "frames_rejected tr = frames_rejected (cl_tx cl)" by blast
  with inv show ?thesis
    by (simp add: service_tx_def worker_inv_def counters_ok_def)
qed

section \<open>The worker keeps every frame\<close>

interpretation worker: receiver_client g kr kt "strategy tsc K"
  "\<lambda>skip cl io. kernel_contract g kr kt K \<and> worker_inv g kr kt skip cl io" cl_staged K "service_tx K"
  for g :: geometry and kr kt :: "'k \<Rightarrow> u64 multiset" and tsc :: timing and K :: "'k kernel"
proof (unfold_locales, goal_cases)
  case (1 skip cl io)
  then show ?case by (simp add: worker_inv_io)
next
  case (2 skip cl io d)
  then have "kernel_contract g kr kt K" and inv: "worker_inv g kr kt skip cl io" by simp_all
  with strategy_callback_ok [OF this 2(2,3), of tsc] show ?case
    by (simp add: view_of_def cong: FrameDisposition.case_cong)
next
  case (3 skip cl io)
  then show ?case by simp
next
  case (4 skip cl io io' skip')
  then show ?case using worker_inv_frame by blast
next
  case (5 cl io)
  then show ?case using service_tx_ok by blast
qed

section \<open>Start-up\<close>

lemma static_asserts_hold: "static_asserts"
  by (simp add: static_asserts_def PowerOfTwo_def NUM_FRAMES_def ALLOC_CAP_def RING_SIZE_def FRAME_SIZE_def
      RX_BATCH_SIZE_def XDP_PACKET_HEADROOM_def UMEM_HEADROOM_def ETH_HLEN_def REFLECTOR_IPV4_MTU_def)

lemma main_geometry_ok: "geometry_ok main_geometry"
  using static_asserts_hold by (simp add: static_asserts_def geometry_ok_def main_geometry_def ALLOC_CAP_def)

text \<open>A socket as it is after \<open>bind\<close>: empty rings, and the kernel holds no frame.\<close>

definition fresh_socket ::
  "geometry \<Rightarrow> ('k \<Rightarrow> u64 multiset) \<Rightarrow> ('k \<Rightarrow> u64 multiset) \<Rightarrow> Xsk \<Rightarrow> 'k world \<Rightarrow> bool" where
  "fresh_socket g kr kt xsk w \<longleftrightarrow>
     prod_inv (g_ring g) (xsk_fill xsk) (w_fill w) \<and> prod_inv (g_ring g) (xsk_tx xsk) (w_tx w) \<and>
     cons_inv (g_ring g) (xsk_rx xsk) (w_rx w) \<and> cons_inv (g_ring g) (xsk_completion xsk) (w_cq w) \<and>
     ring_queue (w_fill w) = [] \<and> ring_queue (w_tx w) = [] \<and>
     ring_queue (w_rx w) = [] \<and> ring_queue (w_cq w) = [] \<and>
     kr (w_kern w) = {#} \<and> kt (w_kern w) = {#} \<and>
     length (w_umem w) = unat (g_num_frames g) * unat (g_frame_size g)"

lemma fresh_io_inv:
  assumes "geometry_ok g" "fresh_socket g kr kt xsk w" "alloc_inv (g_cap g) a" "free_frames a = all_frames g"
  shows "io_inv g kr kt 0 [] \<lparr>io_xsk = xsk, io_alloc = a, io_world = w\<rparr>"
    and "in_flight kt \<lparr>io_xsk = xsk, io_alloc = a, io_world = w\<rparr> = 0"
  using assms
  by (simp_all add: fresh_socket_def io_inv_def rings_ok_def owned_def queue_defs in_flight_def)

lemma Transmitter_new_ok:
  assumes "PowerOfTwo (g_frame_size g)"
  shows "\<exists>tr. Transmitter_new (g_frame_size g) = Some tr \<and>
    (\<forall>io. io_inv g kr kt 0 [] io \<longrightarrow> in_flight kt io = 0 \<longrightarrow> tx_inv g kr kt 0 tr io) \<and>
    frames_submitted tr = 0 \<and> frames_rejected tr = 0 \<and> tx_used tr = 0"
  using assms
  by (auto simp: Transmitter_new_def PowerOfTwo_def tx_inv_def tx_pending_def ring_pending_def)

text \<open>Start-up succeeds and establishes the invariant; the fill ring is full or the allocator empty.\<close>

lemma start_worker_ok:
  assumes K: "kernel_contract main_geometry kr kt K" and fresh: "fresh_socket main_geometry kr kt xsk w"
  shows "\<exists>r cl io. start_worker K cpu realtime xsk w = Some (r, cl, io) \<and>
    worker_inv main_geometry kr kt 0 cl io \<and> rc_frame_mask r = frame_mask FRAME_SIZE \<and>
    fill_threshold r = RING_SIZE div 2 \<and> batch_size (rc_cfg r) = RX_BATCH_SIZE"
proof -
  let ?g = main_geometry
  have geo: "g_cap ?g = ALLOC_CAP" "g_num_frames ?g = NUM_FRAMES" "g_frame_size ?g = FRAME_SIZE" "g_ring ?g = RING_SIZE"
    by (simp_all add: main_geometry_def)
  have "unat NUM_FRAMES \<le> ALLOC_CAP" "ALLOC_CAP < 2 ^ 32" by (simp_all add: NUM_FRAMES_def ALLOC_CAP_def)
  from FrameAllocator_new_ok [OF this, of FRAME_SIZE] obtain a where
    a: "FrameAllocator_new ALLOC_CAP NUM_FRAMES FRAME_SIZE = Some a" "alloc_inv (g_cap ?g) a"
      "free_frames a = all_frames ?g" by (auto simp: all_frames_def geo)
  let ?io = "\<lparr>io_xsk = xsk, io_alloc = a, io_world = w\<rparr>"
  note io0 = fresh_io_inv [OF main_geometry_ok fresh a(2,3)]
  from refill_fill_ok [OF K io0(1)] obtain xs :: "u64 list" and io1 where
    io1: "refill_fill K ?io = Some (of_nat (length xs), io1)" "io_inv ?g kr kt 0 [] io1"
      "in_flight kt io1 = in_flight kt ?io" by blast
  obtain res io2 where rq: "request_rx_progress K io1 = (res, io2)" by (rule prod.exhaust)
  have q: "io_quiet ?g kr kt io1 io2" by (rule request_rx_progress_quiet [OF K io1(2) rq])
  have io2: "io_inv ?g kr kt 0 [] io2" "in_flight kt io2 = 0"
    using io_quiet_inv [OF q io1(2)] q io1(3) io0(2) by (simp_all add: io_quiet_def)
  have "PowerOfTwo (g_frame_size ?g)" using main_geometry_ok by (simp add: geometry_ok_def)
  from Transmitter_new_ok [OF this, of kr kt] obtain tr where
    tr: "Transmitter_new FRAME_SIZE = Some tr" "tx_inv ?g kr kt 0 tr io2"
      "frames_submitted tr = 0" "frames_rejected tr = 0" "tx_used tr = 0"
    using io2 by (auto simp: geo)
  have "num_descs (xsk_fill xsk) = RING_SIZE"
    using fresh by (simp add: fresh_socket_def prod_inv_def ring_geometry_def geo)
  then show ?thesis
    using a(1) io1(1) rq tr Samples_new_inv [of SAMPLE_CAPACITY]
    by (simp add: start_worker_def prime_socket_def make_worker_def worker_inv_def counters_ok_def Receiver_new_def capacity_def)
qed

text \<open>Running and draining: no fault on the way, and every frame has its owner at the end.\<close>

lemma run_and_drain_ok:
  assumes K: "kernel_contract g kr kt K" and inv: "worker_inv g kr kt 0 cl io"
    and mask: "rc_frame_mask r = frame_mask (g_frame_size g)" and stop: "stop i" and late: "deadline \<le> clk j"
  shows "\<exists>rem r' cl' io'. run_and_drain tsc K stop clk deadline r cl io = Some (rem, r', cl', io') \<and>
    worker_inv g kr kt 0 cl' io' \<and> rem = outstanding (cl_tx cl') \<and> tx_used (cl_tx cl') = 0"
proof -
  from worker.run_loop_returns [of stop i 0 g kr kt K cl io r tsc] K inv mask stop obtain r1 cl1 io1 where
    run: "run (strategy tsc K) (service_tx K) K stop r cl io = Some (r1, cl1, io1)" "worker_inv g kr kt 0 cl1 io1"
    by (auto simp: run_def)
  then have "tx_inv g kr kt 0 (cl_tx cl1) io1" by (simp add: worker_inv_def)
  from drain_loop_returns [where clk = clk and j = j and i = 0, OF K late _ this] obtain k tr io2 where
    dr: "drain_loop K clk deadline 0 (cl_tx cl1) io1 = Some (outstanding tr, tr, io2)" "tx_inv g kr kt 0 tr io2"
      "tx_used tr = 0"
      "frames_submitted tr = frames_submitted (cl_tx cl1) + ucast (tx_used (cl_tx cl1))"
      "frames_rejected tr = frames_rejected (cl_tx cl1)" by auto
  have "worker_inv g kr kt 0 (cl1\<lparr>cl_tx := tr\<rparr>) io2"
    using run(2) dr by (simp add: worker_inv_def counters_ok_def)
  with run(1) dr show ?thesis by (auto simp: run_and_drain_def drain_until_def)
qed

end
