(* ===== verification/Batch.thy ===== *)
theory Batch
  imports Reflector
begin

text \<open>
  What a batch of the worker sends. \<open>batch_log\<close> relates the state in the middle of the receive loop
  to the state \<open>(cl1, io1)\<close> at its start: the list \<open>acc\<close> says which of the entries dealt with so far
  were staged, and with which bytes. The interpretation \<open>batch\<close> of the locale \<open>rx_client\<close> shows that
  the loop keeps the log.
\<close>

definition chosen :: "bool list \<Rightarrow> 'a list \<Rightarrow> 'a list" where
  "chosen acc q = map snd (filter fst (zip acc q))"

definition batch_log ::
  "geometry \<Rightarrow> ('k \<Rightarrow> u64 multiset) \<Rightarrow> Client \<Rightarrow> 'k io \<Rightarrow> bool list \<Rightarrow> Client \<Rightarrow> 'k io \<Rightarrow> bool" where
  "batch_log g kr cl1 io1 acc cl io \<longleftrightarrow>
     (let q = rx_queue io1; pkt = (\<lambda>i. packet io1 (q ! i))
      in (\<exists>rs. rx_queue io = q @ rs) \<and> rx_held kr io \<subseteq> rx_held kr io1 \<and>
         outstanding (cl_tx cl) = outstanding (cl_tx cl1) \<and>
         cl_staged cl io = cl_staged cl1 io1 @ map tx_of (chosen acc q) \<and>
         (\<forall>i < length acc. acc ! i \<longrightarrow> supported (pkt i) \<and> packet io (q ! i) = reflected (pkt i)) \<and>
         (\<forall>i < length acc. \<not> acc ! i \<longrightarrow> supported (pkt i) \<longrightarrow>
            unat (g_ring g) \<le> unat (outstanding (cl_tx cl1)) + length (cl_staged cl1 io1) + i) \<and>
         (\<forall>i. length acc \<le> i \<and> i < length q \<longrightarrow> packet io (q ! i) = pkt i) \<and>
         b_callbacks (cl_bench cl) = b_callbacks (cl_bench cl1) + of_nat (length acc) \<and>
         b_staged (cl_bench cl) = b_staged (cl_bench cl1) + of_nat (length (filter id acc)))"

lemma zip_snoc: "length acc < length q \<Longrightarrow> zip (acc @ [b]) q = zip acc q @ [(b, q ! length acc)]"
proof (induction acc arbitrary: q)
  case (Cons x acc)
  then show ?case by (cases q) auto
next
  case Nil
  then show ?case by (cases q) auto
qed

lemma chosen_snoc:
  "length acc < length q \<Longrightarrow> chosen (acc @ [b]) q = chosen acc q @ (if b then [q ! length acc] else [])"
  by (simp add: chosen_def zip_snoc)

lemma length_chosen: "length (chosen acc q) \<le> length acc"
  by (simp add: chosen_def le_trans [OF length_filter_le])

lemma batch_log_start: "batch_log g kr cl1 io1 [] cl1 io1"
  by (simp add: batch_log_def Let_def chosen_def)

lemma batch_log_alloc: "batch_log g kr cl1 io1 acc cl (io\<lparr>io_alloc := a\<rparr>) = batch_log g kr cl1 io1 acc cl io"
  by (simp add: batch_log_def packet_def rx_held_def queue_defs cl_staged_def tx_pending_def)

text \<open>The packets of the batch other than the one at hand are left alone.\<close>

lemma batch_others:
  assumes start: "worker_inv g kr kt 0 cl1 io1" and log: "batch_log g kr cl1 io1 acc cl io"
    and lt: "length acc < length (rx_queue io1)"
    and eff: "packet_effect g kr (rx_queue io1 ! length acc) io io'"
    and i: "i < length (rx_queue io1)" "i \<noteq> length acc"
  shows "packet io' (rx_queue io1 ! i) = packet io (rx_queue io1 ! i)"
proof -
  note io1 = worker_inv_io [OF start]
  have "desc_ok g (rx_queue io1 ! i)" using io1 i(1) by (simp add: io_inv_def)
  moreover have "frame_base g (d_addr (rx_queue io1 ! i)) \<notin> rx_held kr io"
    using rx_frame_not_held [OF io1 _ i(1)] log by (auto simp: batch_log_def Let_def)
  moreover have "frame_base g (d_addr (rx_queue io1 ! i)) \<noteq> frame_base g (d_addr (rx_queue io1 ! length acc))"
    using rx_frames_distinct [OF io1 i(1) lt i(2)] .
  ultimately show ?thesis using eff by (simp add: packet_effect_def)
qed

text \<open>A refusal means that the transmit ring cannot hold the packets sent so far and this one.\<close>

lemma refused_full:
  assumes out: "packet_outcome g kr kt (length acc) False (cl\<lparr>cl_bench := B\<rparr>) io cl' io'"
    and log: "batch_log g kr cl1 io1 acc cl io" and ok: "supported (packet io (rx_queue io ! length acc))"
  shows "unat (g_ring g) \<le> unat (outstanding (cl_tx cl1)) + length (cl_staged cl1 io1) + length acc"
proof -
  from out ok have full: "length (tx_queue io') + length (cl_staged cl io) = unat (g_ring g)"
    and inv: "tx_inv g kr kt (length acc) (cl_tx cl') io'" and o: "outstanding (cl_tx cl') = outstanding (cl_tx cl)"
    by (simp_all add: packet_outcome_def Let_def cl_staged_def)
  have "length (tx_queue io') \<le> unat (outstanding (cl_tx cl1))"
    using tx_invD(4) [OF inv] o log by (simp add: in_flight_def batch_log_def Let_def)
  moreover have "length (cl_staged cl io) \<le> length (cl_staged cl1 io1) + length acc"
    using log length_chosen [of acc "rx_queue io1"] by (simp add: batch_log_def Let_def)
  ultimately show ?thesis using full by linarith
qed

lemma batch_log_step:
  assumes start: "worker_inv g kr kt 0 cl1 io1" and log: "batch_log g kr cl1 io1 acc cl io"
    and lt: "length acc < length (rx_queue io1)"
    and out: "packet_outcome g kr kt (length acc) b (cl\<lparr>cl_bench := count_packet len (cl_bench cl)\<rparr>) io cl' io'"
  shows "batch_log g kr cl1 io1 (acc @ [b]) cl' io'"
proof -
  let ?q = "rx_queue io1" and ?k = "length acc"
  let ?pkt = "\<lambda>i. packet io1 (?q ! i)"
  from log obtain rs where rs: "rx_queue io = ?q @ rs" by (auto simp: batch_log_def Let_def)
  then have d: "rx_queue io ! ?k = ?q ! ?k" using lt by (simp add: nth_append)
  from log lt have pk: "packet io (?q ! ?k) = ?pkt ?k" by (simp add: batch_log_def Let_def)
  from out have eff: "packet_effect g kr (?q ! ?k) io io'" and kept: "rx_kept io io'"
    and o: "outstanding (cl_tx cl') = outstanding (cl_tx cl)"
    by (simp_all add: packet_outcome_def Let_def d)
  note others = batch_others [OF start log lt eff]
  have bench: "b_callbacks (cl_bench cl') = b_callbacks (cl_bench cl) + 1"
    "b_staged (cl_bench cl') = b_staged (cl_bench cl) + (if b then 1 else 0)"
    using out by (auto simp: packet_outcome_def Let_def count_packet_def split: if_splits)
  have st: "cl_staged cl' io' = cl_staged cl io @ (if b then [tx_of (?q ! ?k)] else [])"
    using out by (auto simp: packet_outcome_def Let_def d cl_staged_def split: if_splits)
  have yes: "supported (?pkt ?k) \<and> packet io' (?q ! ?k) = reflected (?pkt ?k)" if b
    using that out eff pk by (simp add: packet_outcome_def packet_effect_def Let_def d)
  have no: "unat (g_ring g) \<le> unat (outstanding (cl_tx cl1)) + length (cl_staged cl1 io1) + ?k"
    if "\<not> b" "supported (?pkt ?k)"
    using that out refused_full [OF _ log, of kt _ cl' io'] d pk by simp
  have "\<exists>rs. rx_queue io' = ?q @ rs" using kept rs by (auto simp: rx_kept_def Let_def)
  moreover have "rx_held kr io' \<subseteq> rx_held kr io1"
    using eff log by (auto simp: packet_effect_def batch_log_def Let_def)
  moreover have "\<forall>i < Suc ?k. (acc @ [b]) ! i \<longrightarrow> supported (?pkt i) \<and> packet io' (?q ! i) = reflected (?pkt i)"
    using yes others log lt by (auto simp: nth_append less_Suc_eq batch_log_def Let_def)
  moreover have "\<forall>i < Suc ?k. \<not> (acc @ [b]) ! i \<longrightarrow> supported (?pkt i) \<longrightarrow>
      unat (g_ring g) \<le> unat (outstanding (cl_tx cl1)) + length (cl_staged cl1 io1) + i"
    using no log by (auto simp: nth_append less_Suc_eq batch_log_def Let_def)
  moreover have "\<forall>i. Suc ?k \<le> i \<and> i < length ?q \<longrightarrow> packet io' (?q ! i) = ?pkt i"
    using others log by (auto simp: batch_log_def Let_def)
  ultimately show ?thesis
    using log lt bench st o by (simp add: batch_log_def Let_def chosen_snoc)
qed

text \<open>The log as an invariant of the receive loop; past the entries present at its start it says nothing.\<close>

definition batch_inv ::
  "geometry \<Rightarrow> ('k \<Rightarrow> u64 multiset) \<Rightarrow> ('k \<Rightarrow> u64 multiset) \<Rightarrow> 'k kernel \<Rightarrow> Client \<Rightarrow> 'k io \<Rightarrow>
   nat \<Rightarrow> Client \<Rightarrow> 'k io \<Rightarrow> bool" where
  "batch_inv g kr kt K cl1 io1 skip cl io \<longleftrightarrow>
     kernel_contract g kr kt K \<and> worker_inv g kr kt 0 cl1 io1 \<and> worker_inv g kr kt skip cl io \<and>
     (skip \<le> length (rx_queue io1) \<longrightarrow> (\<exists>acc. length acc = skip \<and> batch_log g kr cl1 io1 acc cl io))"

interpretation batch: rx_client g kr kt "strategy tsc K" "batch_inv g kr kt K cl1 io1" cl_staged
  for g :: geometry and kr kt :: "'k \<Rightarrow> u64 multiset" and tsc :: timing and K :: "'k kernel"
    and cl1 :: Client and io1 :: "'k io"
proof (unfold_locales, goal_cases)
  case (1 skip cl io)
  then show ?case by (simp add: batch_inv_def worker_inv_io)
next
  case (2 skip cl io d)
  then have K: "kernel_contract g kr kt K" and start: "worker_inv g kr kt 0 cl1 io1"
    and inv: "worker_inv g kr kt skip cl io" by (simp_all add: batch_inv_def)
  from strategy_outcome [OF K inv 2(2,3), of tsc] obtain b cl' io' where
    o: "strategy tsc K (view_of d) cl io = Some (if b then Transferred else Recycle, cl', io')"
      "packet_outcome g kr kt skip b (cl\<lparr>cl_bench := count_packet (d_len d) (cl_bench cl)\<rparr>) io cl' io'"
      "samples_inv (cl_samples cl')" by blast
  note inv' = packet_outcome_inv [OF o(2) inv o(3)]
  from o(2) have kept: "rx_kept io io'" by (simp add: packet_outcome_def Let_def)
  have log: "\<exists>acc. length acc = Suc skip \<and> batch_log g kr cl1 io1 acc cl' io'"
    if "Suc skip \<le> length (rx_queue io1)"
  proof -
    from 2(1) that obtain acc where "length acc = skip" "batch_log g kr cl1 io1 acc cl io"
      by (auto simp: batch_inv_def)
    with that batch_log_step [OF start, of acc cl io b "d_len d" cl' io'] o(2) show ?thesis
      by (intro exI [of _ "acc @ [b]"]) simp
  qed
  have rec: "worker_inv g kr kt (Suc skip) cl' (io'\<lparr>io_alloc := a\<rparr>)"
    if "\<not> b" "alloc_inv (g_cap g) a" "free_frames a = free_frames (io_alloc io') @ [frame_base g (d_addr d)]" for a
    using worker_inv_recycle [of g kr kt skip cl' io' a] rx_kept_at [OF kept 2(2)] inv' that 2(3) by simp
  show ?case
  proof (cases b)
    case True
    with K start inv' log have "batch_inv g kr kt K cl1 io1 (Suc skip) cl' io'" by (simp add: batch_inv_def)
    with True o(1) kept show ?thesis
      by (intro exI [of _ Transferred] exI [of _ cl'] exI [of _ io']) (simp add: view_of_def)
  next
    case False
    with K start rec log have "batch_inv g kr kt K cl1 io1 (Suc skip) cl' (io'\<lparr>io_alloc := a\<rparr>)"
      if "alloc_inv (g_cap g) a" "free_frames a = free_frames (io_alloc io') @ [frame_base g (d_addr d)]" for a
      using that by (simp add: batch_inv_def batch_log_alloc)
    with False o(1) kept worker_inv_io [OF inv'] show ?thesis
      by (intro exI [of _ Recycle] exI [of _ cl'] exI [of _ io']) (simp add: view_of_def)
  qed
qed

text \<open>
  The receive loop over a window of the RX ring stages exactly the supported packets it has room
  for, in order, each with the reflected bytes of the packet that was received.
\<close>

lemma receive_loop_reflects:
  assumes K: "kernel_contract g kr kt K" and inv: "worker_inv g kr kt 0 cl io"
    and n: "unat n \<le> length (rx_queue io)"
  shows "\<exists>acc cl' io'. receive_loop (strategy tsc K) (frame_mask (g_frame_size g))
      (cached_cons (xsk_rx (io_xsk io))) n 0 cl io = Some (cl', io') \<and>
    worker_inv g kr kt (unat n) cl' io' \<and> length acc = unat n \<and> batch_log g kr cl io acc cl' io' \<and>
    rx_kept io io'"
proof -
  have "batch_inv g kr kt K cl io (unat (0 :: u32)) cl io"
    using K inv batch_log_start by (auto simp: batch_inv_def)
  from batch.receive_loop_ok [OF this _ n refl, of tsc] obtain cl' io' where
    "receive_loop (strategy tsc K) (frame_mask (g_frame_size g)) (cached_cons (xsk_rx (io_xsk io))) n 0 cl io =
      Some (cl', io')" "batch_inv g kr kt K cl io (unat n) cl' io'" "rx_kept io io'" by auto
  with n show ?thesis by (auto simp: batch_inv_def)
qed

end
