(* ===== verification/Loopback.thy ===== *)
theory Loopback
  imports Batch
begin

text \<open>
  A kernel that satisfies \<open>kernel_contract\<close>, and a small machine for it: four frames of 64 bytes and
  rings of four slots. \<open>recvfrom\<close> takes one frame off the fill ring, writes a datagram into it and
  delivers it; \<open>sendto\<close> takes one descriptor off the TX ring and completes it. It keeps no frame
  between two calls, so its ghost state is empty. The witnesses of the properties run on it.
\<close>

section \<open>The kernel\<close>

definition consume1 :: "'d shm \<Rightarrow> 'd shm" where
  "consume1 s = s\<lparr>sh_consumer := sh_consumer s + 1\<rparr>"

definition produce1 :: "'d \<Rightarrow> 'd shm \<Rightarrow> 'd shm" where
  "produce1 x s = s\<lparr>sh_descs := (sh_descs s)[unat (sh_producer s) mod length (sh_descs s) := x],
                   sh_producer := sh_producer s + 1\<rparr>"

definition has_entry :: "'d shm \<Rightarrow> bool" where
  "has_entry s \<longleftrightarrow> sh_producer s \<noteq> sh_consumer s"

definition has_room :: "'d shm \<Rightarrow> bool" where
  "has_room s \<longleftrightarrow> unat (sh_producer s - sh_consumer s) < length (sh_descs s)"

definition front :: "'d shm \<Rightarrow> 'd" where
  "front s = sh_descs s ! (unat (sh_consumer s) mod length (sh_descs s))"

text \<open>A datagram of no payload from 10.0.0.1 port 1000 to 10.0.0.2 port 2000.\<close>

definition datagram :: "u8 list" where
  "datagram =
     [2, 0, 0, 0, 0, 2, 2, 0, 0, 0, 0, 1, 8, 0,
      0x45, 0, 0, 28, 0, 0, 0x40, 0, 64, 17, 0x26, 0xcf, 10, 0, 0, 1, 10, 0, 0, 2,
      3, 0xe8, 7, 0xd0, 0, 8, 0, 0]"

definition loop_recvfrom :: "unit world \<Rightarrow> (int \<times> int) \<times> unit world" where
  "loop_recvfrom w =
     (if has_entry (w_fill w) \<and> has_room (w_rx w)
      then let f = front (w_fill w); u = w_umem w
           in ((1, 0), w\<lparr>w_fill := consume1 (w_fill w),
                w_rx := produce1 \<lparr>d_addr = f, d_len = 42, d_options = 0\<rparr> (w_rx w),
                w_umem := take (unat f) u @ datagram @ drop (unat f + 42) u\<rparr>)
      else ((-1, EAGAIN), w))"

definition loop_sendto :: "unit world \<Rightarrow> (int \<times> int) \<times> unit world" where
  "loop_sendto w =
     (if has_entry (w_tx w) \<and> has_room (w_cq w)
      then ((1, 0), w\<lparr>w_tx := consume1 (w_tx w), w_cq := produce1 (d_addr (front (w_tx w))) (w_cq w)\<rparr>)
      else ((-1, EAGAIN), w))"

definition loop_kernel :: "unit kernel" where
  "loop_kernel = \<lparr>k_async = (\<lambda>w. w), k_recvfrom = loop_recvfrom, k_sendto = loop_sendto\<rparr>"

definition none_held :: "unit \<Rightarrow> u64 multiset" where
  "none_held k = {#}"

section \<open>It keeps the contract\<close>

lemma kernel_consumes_0: "kernel_consumes s 0 s"
  by (simp add: kernel_consumes_def)

lemma kernel_produces_Nil: "shm_ok n s \<Longrightarrow> kernel_produces s [] s"
  by (simp add: kernel_produces_def shm_ok_def)

lemma kernel_guar_refl:
  assumes "world_ok g w"
  shows "kernel_guar g kr kt w w"
proof -
  from assms have "kernel_produces (w_rx w) [] (w_rx w)" "kernel_produces (w_cq w) [] (w_cq w)"
    by (auto simp: world_ok_def intro: kernel_produces_Nil)
  then show ?thesis
    unfolding kernel_guar_def
    by (intro exI [of _ 0] exI [of _ 0] exI [of _ "[]"] exI [of _ "[]"]) (simp add: kernel_consumes_0)
qed

lemma consume1_ok:
  assumes "has_entry s"
  shows "kernel_consumes s 1 (consume1 s)" and "take 1 (ring_queue s) = [front s]"
proof -
  have pos: "1 \<le> unat (sh_producer s - sh_consumer s)"
    using assms by (simp add: has_entry_def unat_eq_0 Suc_le_eq unat_gt_0)
  then show "kernel_consumes s 1 (consume1 s)" by (simp add: kernel_consumes_def consume1_def)
  from pos have "take 1 (ring_queue s) = window (sh_descs s) (sh_consumer s) 1"
    unfolding ring_queue_def by (rule window_take)
  then show "take 1 (ring_queue s) = [front s]" by (simp add: window_def front_def)
qed

lemma produce1_ok:
  assumes "shm_ok n s" "has_room s"
  shows "kernel_produces s [x] (produce1 x s)"
proof -
  let ?l = "length (sh_descs s)" and ?k = "unat (sh_producer s - sh_consumer s)"
  have k: "?k < ?l" using assms(2) by (simp add: has_room_def)
  have "sh_producer s = sh_consumer s + of_nat ?k" by simp
  then have slot: "unat (sh_producer s) mod ?l = (unat (sh_consumer s) + ?k) mod ?l"
    using slot_add [OF shm_ok_dvd [OF assms(1)], of "sh_consumer s" ?k 0] by simp
  have "?l < 2 ^ 32" using assms(1) u32_bound [of n] by (simp add: shm_ok_def)
  then have "unat (sh_producer s + of_nat 1 - sh_consumer s) = Suc ?k"
    using k by (subst unat_diff_add) auto
  then have "ring_queue (produce1 x s) = ring_queue s @ [x]"
    using window_update_last [OF k, of "sh_consumer s" x]
    by (simp add: ring_queue_def produce1_def slot)
  then show ?thesis using k by (simp add: kernel_produces_def produce1_def)
qed

text \<open>The geometry has frames of at least 64 bytes, so the datagram fits one.\<close>

lemma datagram_desc_ok:
  assumes "geometry_ok g" "f \<in> set (all_frames g)" "42 \<le> unat (g_frame_size g)"
  shows "desc_ok g \<lparr>d_addr = f, d_len = 42, d_options = 0\<rparr>"
proof -
  have "unat (frame_base g f) = unat f - unat f mod unat (g_frame_size g)"
    using assms(1) by (intro frame_base_unat) (simp add: geometry_ok_def)
  then have "unat f mod unat (g_frame_size g) = 0"
    using frame_base_frame [OF assms(1,2)] by (metis diff_diff_cancel diff_self_eq_0 mod_less_eq_dividend)
  then show ?thesis using assms frame_base_frame [OF assms(1,2)] by (simp add: desc_ok_def)
qed

lemma front_in_queue: "has_entry s \<Longrightarrow> front s \<in> set (ring_queue s)"
  by (metis consume1_ok(2) in_set_takeD list.set_intros(1))

lemma loop_recvfrom_ok:
  assumes g: "geometry_ok g" "42 \<le> unat (g_frame_size g)" and w: "world_ok g w"
  shows "kernel_guar g none_held none_held w (snd (loop_recvfrom w))"
proof (cases "has_entry (w_fill w) \<and> has_room (w_rx w)")
  case False
  then have "snd (loop_recvfrom w) = w" by (auto simp: loop_recvfrom_def)
  then show ?thesis using kernel_guar_refl [OF w] by simp
next
  case True
  let ?f = "front (w_fill w)" and ?u = "w_umem w"
  let ?d = "\<lparr>d_addr = ?f, d_len = 42, d_options = 0\<rparr>"
  let ?m = "take (unat ?f) ?u @ datagram @ drop (unat ?f + 42) ?u"
  have f: "?f \<in> set (all_frames g)" using w True front_in_queue by (auto simp: world_ok_def)
  note d = datagram_desc_ok [OF g(1) f g(2)]
  have fits: "unat ?f + 42 \<le> length ?u"
    using desc_in_umem [OF g(1) d] w by (simp add: world_ok_def)
  have len: "length datagram = 42" by (simp add: datagram_def)
  have "?m ! i = ?u ! i" if "i < length ?u" "\<not> (unat ?f \<le> i \<and> i < unat ?f + 42)" for i
    using that fits len by (auto simp: nth_append not_less)
  then have wr: "frame_base g (of_nat i) = frame_base g ?f" if "i < length ?u" "?m ! i \<noteq> ?u ! i" for i
    using that frame_base_within [OF g(1) d, of i] by auto
  have base: "frame_base g ?f \<in># addr_frames g (ring_queue (w_fill w))"
    using True front_in_queue by (auto simp: addr_frames_def)
  have rings: "kernel_consumes (w_fill w) 1 (consume1 (w_fill w))"
    "kernel_produces (w_rx w) [?d] (produce1 ?d (w_rx w))" "kernel_produces (w_cq w) [] (w_cq w)"
    using consume1_ok(1) True produce1_ok kernel_produces_Nil w by (auto simp: world_ok_def)
  have "snd (loop_recvfrom w) = w\<lparr>w_fill := consume1 (w_fill w), w_rx := produce1 ?d (w_rx w), w_umem := ?m\<rparr>"
    using True by (simp add: loop_recvfrom_def Let_def)
  moreover have "addr_frames g (take 1 (ring_queue (w_fill w))) = desc_frames g [?d]"
    using consume1_ok(2) [of "w_fill w"] True by (simp add: addr_frames_def desc_frames_def)
  ultimately show ?thesis
    unfolding kernel_guar_def using rings kernel_consumes_0 [of "w_tx w"] d fits len wr base
    by (intro exI [of _ 1] exI [of _ 0] exI [of _ "[?d]"] exI [of _ "[]"]) (simp add: none_held_def)
qed

lemma loop_sendto_ok:
  assumes w: "world_ok g w"
  shows "kernel_guar g none_held none_held w (snd (loop_sendto w))"
proof (cases "has_entry (w_tx w) \<and> has_room (w_cq w)")
  case False
  then have "snd (loop_sendto w) = w" by (auto simp: loop_sendto_def)
  then show ?thesis using kernel_guar_refl [OF w] by simp
next
  case True
  let ?a = "d_addr (front (w_tx w))"
  have "snd (loop_sendto w) = w\<lparr>w_tx := consume1 (w_tx w), w_cq := produce1 ?a (w_cq w)\<rparr>"
    using True by (simp add: loop_sendto_def)
  moreover have "desc_frames g (take 1 (ring_queue (w_tx w))) = addr_frames g [?a]"
    using consume1_ok(2) [of "w_tx w"] True by (simp add: addr_frames_def desc_frames_def)
  moreover have "kernel_consumes (w_tx w) 1 (consume1 (w_tx w))"
    "kernel_produces (w_cq w) [?a] (produce1 ?a (w_cq w))" "kernel_produces (w_rx w) [] (w_rx w)"
    using consume1_ok(1) True produce1_ok kernel_produces_Nil w by (auto simp: world_ok_def)
  ultimately show ?thesis
    unfolding kernel_guar_def using kernel_consumes_0 [of "w_fill w"]
    by (intro exI [of _ 0] exI [of _ 1] exI [of _ "[]"] exI [of _ "[?a]"]) (simp add: none_held_def)
qed

lemma loop_kernel_contract:
  assumes "geometry_ok g" "42 \<le> unat (g_frame_size g)"
  shows "kernel_contract g none_held none_held loop_kernel"
  using loop_recvfrom_ok [OF assms] loop_sendto_ok
  by (auto simp: kernel_contract_def loop_kernel_def intro: kernel_guar_refl)

section \<open>A machine with one received datagram\<close>

definition loop_geometry :: geometry where
  "loop_geometry = \<lparr>g_ring = 4, g_frame_size = 64, g_num_frames = 4, g_cap = 4\<rparr>"

definition loop_ring :: MmapRing where
  "loop_ring = \<lparr>map_base = 0, map_size = 0, producer_ptr = 0, consumer_ptr = 0, descs_ptr = 0, flags_ptr = 0,
                num_descs = 4, mask_word = 3, cached_prod = 0, cached_cons = 0\<rparr>"

definition loop_xsk :: Xsk where
  "loop_xsk = \<lparr>xsk_fd = 3, xsk_rx = loop_ring, xsk_tx = loop_ring, xsk_fill = loop_ring,
               xsk_completion = loop_ring, xsk_busy_poll = True, xsk_zero_copy = False\<rparr>"

definition no_desc :: xdp_desc where
  "no_desc = \<lparr>d_addr = 0, d_len = 0, d_options = 0\<rparr>"

definition empty_ring :: "'d \<Rightarrow> 'd shm" where
  "empty_ring x = \<lparr>sh_producer = 0, sh_consumer = 0, sh_flags = 0, sh_descs = [x, x, x, x]\<rparr>"

definition loop_world :: "unit world" where
  "loop_world =
     \<lparr>w_rx = \<lparr>sh_producer = 1, sh_consumer = 0, sh_flags = 0,
              sh_descs = [\<lparr>d_addr = 0, d_len = 42, d_options = 0\<rparr>, no_desc, no_desc, no_desc]\<rparr>,
      w_tx = empty_ring no_desc, w_fill = empty_ring 0, w_cq = empty_ring 0,
      w_umem = datagram @ replicate 214 0, w_kern = ()\<rparr>"

definition loop_io :: "unit io" where
  "loop_io = \<lparr>io_xsk = loop_xsk, io_alloc = \<lparr>fa_frames = [64, 128, 192, 0], fa_count = 3\<rparr>, io_world = loop_world\<rparr>"

definition loop_client :: Client where
  "loop_client =
     \<lparr>cl_tx = \<lparr>tr_frame_size = 64, tr_frame_mask = frame_mask 64, tx_start = 0, tx_avail = 0, tx_used = 0,
               reserved = False, outstanding = 0, frames_submitted = 0, frames_reclaimed = 0,
               frames_rejected = 0, retryable_wakeup_errors = 0, tx_first_wakeup_error = 0\<rparr>,
      cl_bench = \<lparr>b_callbacks = 0, b_bytes = 0, b_staged = 0, b_unsupported = 0\<rparr>,
      cl_samples = samples_start (Samples_new 2), cl_stamps = 0\<rparr>"

definition loop_timing :: timing where
  "loop_timing = \<lparr>stamp = of_nat, start_seen = (\<lambda>n. n \<ge> 1)\<rparr>"

definition loop_receiver :: Receiver where
  "loop_receiver = Receiver_new loop_xsk 64
     \<lparr>cpu_affinity = 0, realtime_sched = False, batch_size = 2, fill_refill_threshold = 0\<rparr>"

text \<open>A bound socket of the program's own sizes.\<close>

definition main_ring :: MmapRing where
  "main_ring = loop_ring\<lparr>num_descs := RING_SIZE, mask_word := RING_SIZE - 1\<rparr>"

definition main_xsk :: Xsk where
  "main_xsk = loop_xsk\<lparr>xsk_rx := main_ring, xsk_tx := main_ring, xsk_fill := main_ring, xsk_completion := main_ring\<rparr>"

definition unused_ring :: "'d \<Rightarrow> 'd shm" where
  "unused_ring x = \<lparr>sh_producer = 0, sh_consumer = 0, sh_flags = 0, sh_descs = replicate 2048 x\<rparr>"

definition main_world :: "unit world" where
  "main_world = \<lparr>w_rx = unused_ring no_desc, w_tx = unused_ring no_desc, w_fill = unused_ring 0,
                 w_cq = unused_ring 0, w_umem = replicate (8192 * 2048) 0, w_kern = ()\<rparr>"

lemma loop_geometry_ok: "geometry_ok loop_geometry"
  by (simp add: geometry_ok_def loop_geometry_def PowerOfTwo_def)

lemma loop_contract: "kernel_contract loop_geometry none_held none_held loop_kernel"
  by (rule loop_kernel_contract [OF loop_geometry_ok]) (simp add: loop_geometry_def)

lemma loop_frames: "all_frames loop_geometry = [0, 64, 128, 192]"
  by code_simp

lemma loop_rings_ok: "rings_ok loop_geometry loop_io"
  by (simp add: rings_ok_def prod_inv_def cons_inv_def shm_ok_def ring_geometry_def loop_io_def loop_xsk_def
      loop_ring_def loop_world_def empty_ring_def loop_geometry_def PowerOfTwo_def)

lemma loop_queues:
  "rx_queue loop_io = [\<lparr>d_addr = 0, d_len = 42, d_options = 0\<rparr>]" "tx_queue loop_io = []"
  "fill_queue loop_io = []" "cq_queue loop_io = []"
  by (simp_all add: queue_defs loop_io_def loop_world_def empty_ring_def ring_queue_def window_def)

lemma loop_desc_ok: "desc_ok loop_geometry \<lparr>d_addr = 0, d_len = 42, d_options = 0\<rparr>"
proof (rule datagram_desc_ok [OF loop_geometry_ok])
  show "42 \<le> unat (g_frame_size loop_geometry)" by (simp add: loop_geometry_def)
qed (simp add: loop_frames)

lemma loop_io_inv: "io_inv loop_geometry none_held none_held 0 [] loop_io"
proof -
  have "frame_base loop_geometry 0 = 0" by (simp add: frame_base_def)
  moreover have "free_frames (io_alloc loop_io) = [64, 128, 192]" by code_simp
  moreover have "length (w_umem (io_world loop_io)) = 256"
    by (simp add: loop_io_def loop_world_def datagram_def)
  moreover have "alloc_inv 4 (io_alloc loop_io)" by (simp add: alloc_inv_def loop_io_def)
  moreover have "g_cap loop_geometry = 4" "unat (g_num_frames loop_geometry) * unat (g_frame_size loop_geometry) = 256"
    by (simp_all add: loop_geometry_def)
  ultimately show ?thesis
    using loop_geometry_ok loop_rings_ok loop_desc_ok
    by (simp add: io_inv_def owned_def loop_queues loop_frames none_held_def desc_frames_def addr_frames_def)
qed

lemma loop_worker_inv: "worker_inv loop_geometry none_held none_held 0 loop_client loop_io"
proof -
  have "in_flight none_held loop_io = 0" by (simp add: in_flight_def loop_queues none_held_def)
  moreover have "tx_pending loop_io 0 = []" by (simp add: tx_pending_def ring_pending_def)
  moreover have "g_frame_size loop_geometry = 64" by (simp add: loop_geometry_def)
  ultimately show ?thesis
    using loop_io_inv
    by (simp add: worker_inv_def tx_inv_def counters_ok_def loop_client_def samples_start_def samples_inv_def
        Samples_new_def)
qed

lemma main_contract: "kernel_contract main_geometry none_held none_held loop_kernel"
  by (rule loop_kernel_contract [OF main_geometry_ok]) (simp add: main_geometry_def FRAME_SIZE_def)

lemma main_fresh: "fresh_socket main_geometry none_held none_held main_xsk main_world"
  by (simp add: fresh_socket_def prod_inv_def cons_inv_def shm_ok_def ring_geometry_def main_world_def
      unused_ring_def main_xsk_def main_ring_def loop_ring_def ring_queue_def none_held_def main_geometry_def
      RING_SIZE_def NUM_FRAMES_def FRAME_SIZE_def PowerOfTwo_def)

end
