(* ===== verification/Umem.thy ===== *)
theory Umem
  imports System
begin

text \<open>
  \<^verbatim>\<open>include/afxdp/umem.hpp\<close>: the memory area that the frames live in. \<open>Umem_create\<close> follows the code
  call by call, with the fallback from huge to normal pages, the log lines, and the cleanup when the
  pages cannot be locked.
\<close>

record UmemConfig =
  uc_num_frames :: u32
  uc_frame_size :: u32
  uc_headroom :: u32
  uc_use_huge_pages :: bool

definition total_size :: "UmemConfig \<Rightarrow> u64" where
  "total_size cfg = ucast (uc_num_frames cfg) * ucast (uc_frame_size cfg)"

record Umem =
  um_base :: int
  um_size :: u64
  um_cfg :: UmemConfig
  um_uses_hugetlb :: bool

definition NULL :: int where "NULL = 0"

definition Umem_release :: "os \<Rightarrow> Umem \<Rightarrow> sys \<Rightarrow> Umem \<times> sys" where
  "Umem_release os u s =
     (if um_base u \<noteq> NULL
      then let (_, s) = call os (Munmap (um_base u) (um_size u)) s in (u\<lparr>um_base := NULL, um_size := 0\<rparr>, s)
      else (u, s))"

text \<open>The move constructor gives the new object and what is left of the old one.\<close>

definition Umem_move :: "Umem \<Rightarrow> Umem \<times> Umem" where
  "Umem_move u = (u, u\<lparr>um_base := NULL, um_size := 0\<rparr>)"

text \<open>Move assignment from another object.\<close>

definition Umem_assign :: "os \<Rightarrow> Umem \<Rightarrow> Umem \<Rightarrow> sys \<Rightarrow> (Umem \<times> Umem) \<times> sys" where
  "Umem_assign os u other s =
     (let (u, s) = Umem_release os u s
      in ((u\<lparr>um_base := um_base other, um_size := um_size other, um_cfg := um_cfg other,
             um_uses_hugetlb := um_uses_hugetlb other\<rparr>,
           other\<lparr>um_base := NULL, um_size := 0\<rparr>), s))"

definition log_pages :: "os \<Rightarrow> UmemConfig \<Rightarrow> bool \<Rightarrow> unit step" where
  "log_pages os cfg used_huge =
     (if used_huge then log_line os (''umem.hpp'', 107) Info [Str ''UMEM allocated with 2MB huge pages'']
      else if uc_use_huge_pages cfg
      then log_line os (''umem.hpp'', 109) Warn [Str ''UMEM allocated with standard 4KB pages (huge pages unavailable)'']
      else log_line os (''umem.hpp'', 111) Info [Str ''UMEM allocated with standard 4KB pages (huge pages disabled)''])"

definition map_area :: "os \<Rightarrow> UmemConfig \<Rightarrow> sys \<Rightarrow> (int \<times> bool) \<times> sys" where
  "map_area os cfg s =
     (let total = total_size cfg;
          (base, s) = (if uc_use_huge_pages cfg then call os (Mmap total AnonymousHuge) s else (MAP_FAILED, s));
          used_huge = (uc_use_huge_pages cfg \<and> base \<noteq> MAP_FAILED);
          (base, s) = (if base = MAP_FAILED then call os (Mmap total Anonymous) s else (base, s))
      in ((base, used_huge), s))"

text \<open>The area is a raw pointer until the end: an exception of the log line leaves it mapped.\<close>

definition lock_area :: "os \<Rightarrow> UmemConfig \<Rightarrow> int \<Rightarrow> bool \<Rightarrow> Umem step" where
  "lock_area os cfg base used_huge =
     (let total = total_size cfg
      in ebind (log_pages os cfg used_huge) (\<lambda>_ s.
         let (ret, s) = call os (Mlock base total) s
         in if ret \<noteq> 0
            then let (_, s) = call os (Munmap base total) s
                 in (Inl (Failed (make_errno_error (''umem.hpp'', 117) ''mlock(umem)'' s)), s)
            else (Inr \<lparr>um_base = base, um_size = total, um_cfg = cfg, um_uses_hugetlb = used_huge\<rparr>, s)))"

definition Umem_create :: "os \<Rightarrow> UmemConfig \<Rightarrow> Umem step" where
  "Umem_create os cfg s =
     (let (ret, s) = call os Setrlimit_memlock s
      in if ret \<noteq> 0 then (Inl (Failed (make_errno_error (''umem.hpp'', 79) ''setrlimit(RLIMIT_MEMLOCK)'' s)), s)
         else let ((base, used_huge), s) = map_area os cfg s
              in if base = MAP_FAILED then (Inl (Failed (make_errno_error (''umem.hpp'', 103) ''mmap(umem)'' s)), s)
                 else lock_area os cfg base used_huge s)"

section \<open>Correctness\<close>

text \<open>The size of the area is a product of two 32-bit numbers in 64 bits.\<close>

lemma total_size_exact: "unat (total_size cfg) = unat (uc_num_frames cfg) * unat (uc_frame_size cfg)"
proof -
  have "unat (uc_num_frames cfg) * unat (uc_frame_size cfg) < 2 ^ 32 * 2 ^ 32"
    using u32_bound [of "uc_num_frames cfg"] u32_bound [of "uc_frame_size cfg"] by (intro mult_strict_mono') auto
  then show ?thesis by (simp add: total_size_def unat_word_ariths)
qed

text \<open>\<open>mmap\<close> without an address never returns the null page.\<close>

definition mmap_nonnull :: "os \<Rightarrow> bool" where
  "mmap_nonnull os \<longleftrightarrow> (\<forall>t n k. fst (os t (Mmap n k)) \<noteq> NULL)"

lemma mmap_call_nonnull: "mmap_nonnull os \<Longrightarrow> call os (Mmap n k) s = (b, s') \<Longrightarrow> b \<noteq> NULL"
  unfolding mmap_nonnull_def by (metis call_errno fst_conv)

text \<open>Up to the log line: what has been called, and whether the area is mapped.\<close>

lemma Umem_create_mapped:
  obtains (failed) e s1 where "Umem_create os cfg s = (Inl (Failed e), s1)" "holds_after s {#} s1"
      "err_context e \<noteq> located (''umem.hpp'', 117) ''mlock(umem)''"
  | (mapped) used_huge b s1 where "b \<noteq> MAP_FAILED" "used_huge \<longrightarrow> uc_use_huge_pages cfg"
      "holds_after s {#Mapping b (total_size cfg)#} s1" "mmap_nonnull os \<longrightarrow> b \<noteq> NULL"
      "Umem_create os cfg s = lock_area os cfg b used_huge s1"
proof -
  let ?n = "total_size cfg"
  obtain r1 s1 where c1: "call os Setrlimit_memlock s = (r1, s1)" by (rule prod.exhaust)
  have h1: "holds_after s {#} s1" using holds_call [OF holds_after_refl c1] by simp
  obtain b2 s2 where c2: "(if uc_use_huge_pages cfg then call os (Mmap ?n AnonymousHuge) s1 else (MAP_FAILED, s1)) = (b2, s2)"
    by (rule prod.exhaust)
  have h2: "holds_after s (if b2 = MAP_FAILED then {#} else {#Mapping b2 ?n#}) s2"
    using c2 h1 holds_call [OF h1, of os "Mmap ?n AnonymousHuge" b2 s2] by (auto split: if_splits)
  obtain b3 s3 where c3: "(if b2 = MAP_FAILED then call os (Mmap ?n Anonymous) s2 else (b2, s2)) = (b3, s3)"
    by (rule prod.exhaust)
  have h3: "holds_after s (if b3 = MAP_FAILED then {#} else {#Mapping b3 ?n#}) s3"
    using c3 h2 holds_call [OF h2, of os "Mmap ?n Anonymous" b3 s3] by (auto split: if_splits)
  have nn: "mmap_nonnull os \<longrightarrow> b3 \<noteq> NULL"
    using c2 c3 mmap_call_nonnull [of os] by (auto simp: MAP_FAILED_def NULL_def split: if_splits)
  consider "r1 \<noteq> 0" | "r1 = 0" "b3 = MAP_FAILED" | "r1 = 0" "b3 \<noteq> MAP_FAILED" by blast
  then show thesis
  proof cases
    case 1
    with c1 h1 show ?thesis
      by (intro failed [of "make_errno_error (''umem.hpp'', 79) ''setrlimit(RLIMIT_MEMLOCK)'' s1" s1])
        (simp_all add: Umem_create_def make_errno_error_def located_def)
  next
    case 2
    with c1 c2 c3 h3 show ?thesis
      by (intro failed [of "make_errno_error (''umem.hpp'', 103) ''mmap(umem)'' s3" s3])
        (simp_all add: Umem_create_def map_area_def Let_def make_errno_error_def located_def)
  next
    case 3
    with c1 c2 c3 h3 nn show ?thesis
      by (intro mapped [of b3 "uc_use_huge_pages cfg \<and> b2 \<noteq> MAP_FAILED" s3]) (simp_all add: Umem_create_def map_area_def Let_def)
  qed
qed

lemma log_pages_println: "\<exists>msg. log_pages os cfg used_huge = println os Stderr msg"
  unfolding log_pages_def log_line_def by (cases used_huge; cases "uc_use_huge_pages cfg") auto

text \<open>
  A failure leaves nothing behind. An exception, which can only be that of the log line, leaves the
  area mapped.
\<close>

lemma Umem_create_holds:
  assumes "Umem_create os cfg s = (res, s')"
  shows "case res of
      Inl (Failed e) \<Rightarrow> holds_after s {#} s'
    | Inl (Thrown e) \<Rightarrow> \<exists>b. b \<noteq> MAP_FAILED \<and> holds_after s {#Mapping b (total_size cfg)#} s' \<and>
        (\<exists>t msg r. sys_trace s' = t @ [(Println Stderr msg, r)] \<and> r < 0)
    | Inr u \<Rightarrow> holds_after s {#Mapping (um_base u) (um_size u)#} s' \<and> um_base u \<noteq> MAP_FAILED \<and>
        um_size u = total_size cfg \<and> um_cfg u = cfg \<and> (um_uses_hugetlb u \<longrightarrow> uc_use_huge_pages cfg) \<and>
        (mmap_nonnull os \<longrightarrow> um_base u \<noteq> NULL)"
proof (cases os cfg s rule: Umem_create_mapped)
  case (failed e s1)
  with assms show ?thesis by auto
next
  case (mapped used_huge b s1)
  let ?n = "total_size cfg"
  obtain msg where lg: "log_pages os cfg used_huge = println os Stderr msg" using log_pages_println by blast
  obtain r2 s2 where c2: "call os (Println Stderr msg) s1 = (r2, s2)" by (rule prod.exhaust)
  have h2: "holds_after s {#Mapping b ?n#} s2" using holds_call [OF mapped(3) c2] by simp
  obtain r3 s3 where c3: "call os (Mlock b ?n) s2 = (r3, s3)" by (rule prod.exhaust)
  have h3: "holds_after s {#Mapping b ?n#} s3" using holds_call [OF h2 c3] by simp
  obtain r4 s4 where c4: "call os (Munmap b ?n) s3 = (r4, s4)" by (rule prod.exhaust)
  have h4: "holds_after s {#} s4" using holds_release [OF h3 c4, of "{#}"] by simp
  show ?thesis
    using assms mapped(1,2,4,5) lg c2 c3 c4 h2 h3 h4 call_trace [OF c2]
    by (auto simp: lock_area_def Let_def ebind_def println_def try_print_def split: if_splits)
qed

lemma Umem_release_holds:
  assumes "holds_after s (R + {#Mapping (um_base u) (um_size u)#}) s1" "um_base u \<noteq> NULL"
    and "Umem_release os u s1 = (u', s2)"
  shows "holds_after s R s2" and "um_base u' = NULL"
  using assms holds_release [OF assms(1)]
  by (auto simp: Umem_release_def Let_def split: prod.splits if_splits)

definition umem_res :: "Umem \<Rightarrow> resource multiset" where
  "umem_res u = {#Mapping (um_base u) (um_size u)#}"

interpretation umem: resource_owner "mmap_nonnull os" "Umem_create os cfg" "\<lambda>u s. snd (Umem_release os u s)" umem_res
  for os :: os and cfg :: UmemConfig
proof (unfold_locales, goal_cases)
  case (1 s e s')
  from Umem_create_holds [OF 1(2)] show ?case by simp
next
  case (2 s u s')
  from Umem_create_holds [OF 2(2)] show ?case unfolding umem_res_def sum.case by (rule conjunct1)
next
  case (3 s u s' s0 R t)
  obtain u' t' where r: "Umem_release os u t = (u', t')" by (rule prod.exhaust)
  have "um_base u \<noteq> NULL" using Umem_create_holds [OF 3(2)] 3(1) by simp
  from Umem_release_holds(1) [OF 3(3) [unfolded umem_res_def] this r] r show ?case by simp
qed

text \<open>
  When locking fails, the error carries the value that \<open>errno\<close> has after \<open>munmap\<close>, which is the
  reason of the failed lock only if \<open>munmap\<close> leaves it alone.
\<close>

lemma Umem_create_mlock_errno:
  assumes "Umem_create os cfg s = (Inl (Failed e), s')" "err_context e = located (''umem.hpp'', 117) ''mlock(umem)''"
  shows "\<exists>t b n r. sys_trace s' = t @ [(Mlock b n, r), (Munmap b n, fst (os (t @ [(Mlock b n, r)]) (Munmap b n)))] \<and>
    r \<noteq> 0 \<and> code e = snd (os (t @ [(Mlock b n, r)]) (Munmap b n))"
proof (cases os cfg s rule: Umem_create_mapped)
  case (failed e' s1)
  with assms show ?thesis by auto
next
  case (mapped used_huge b s1)
  let ?n = "total_size cfg"
  obtain x s2 where lg: "log_pages os cfg used_huge s1 = (x, s2)" by (rule prod.exhaust)
  obtain r3 s3 where c3: "call os (Mlock b ?n) s2 = (r3, s3)" by (rule prod.exhaust)
  obtain r4 s4 where c4: "call os (Munmap b ?n) s3 = (r4, s4)" by (rule prod.exhaust)
  have "x \<noteq> Inl (Failed e)" using lg by (auto simp: log_pages_def log_line_def println_def try_print_def split: if_splits prod.splits)
  with assms(1) mapped(5) lg c3 c4 have "r3 \<noteq> 0" "code e = sys_errno s4" "s' = s4"
    by (auto simp: lock_area_def Let_def ebind_def make_errno_error_def split: if_splits sum.splits)
  moreover have "os (sys_trace s2 @ [(Mlock b ?n, r3)]) (Munmap b ?n) = (r4, sys_errno s4)"
    using call_errno [OF c4] call_trace [OF c3] by simp
  ultimately show ?thesis
    using call_trace [OF c3] call_trace [OF c4]
    by (intro exI [of _ "sys_trace s2"] exI [of _ b] exI [of _ ?n] exI [of _ r3]) simp
qed

end
