(* ===== verification/Socket.thy ===== *)
theory Socket
  imports Xsk Umem
begin

text \<open>
  Creating the rings and the socket: \<open>MmapRing::create\<close>, its moves and \<open>unmap\<close>
  (\<^verbatim>\<open>include/afxdp/ring.hpp\<close>), \<open>Xsk::create\<close> and \<open>Xsk::kernel_stats\<close> (\<^verbatim>\<open>include/afxdp/xsk.hpp\<close>).
  The structures that \<open>getsockopt\<close> fills in are parameters. The lemmas show
  that no path leaks a mapping or a descriptor, and which rings, options and bind flags a
  successful creation has.
\<close>

section \<open>Rings\<close>

record xdp_ring_offset =
  ro_producer :: u64
  ro_consumer :: u64
  ro_desc :: u64
  ro_flags :: u64

record xdp_mmap_offsets =
  off_rx :: xdp_ring_offset
  off_tx :: xdp_ring_offset
  off_fr :: xdp_ring_offset
  off_cr :: xdp_ring_offset

text \<open>\<open>desc_size\<close> is \<open>sizeof(DescT)\<close>: 16 for \<open>xdp_desc\<close>, 8 for an address.\<close>

definition ring_map_size :: "xdp_ring_offset \<Rightarrow> u32 \<Rightarrow> u64 \<Rightarrow> u64" where
  "ring_map_size ro n desc_size = ro_desc ro + ucast n * desc_size"

definition MmapRing_create ::
  "os \<Rightarrow> int \<Rightarrow> u64 \<Rightarrow> xdp_ring_offset \<Rightarrow> u32 \<Rightarrow> u64 \<Rightarrow> MmapRing step" where
  "MmapRing_create os fd pgoff ro n desc_size =
     (let msize = ring_map_size ro n desc_size
      in ebind (ecall os (Mmap msize (SharedFd fd pgoff)) (\<lambda>base. base \<noteq> MAP_FAILED) (''ring.hpp'', 170) ''mmap ring'')
           (\<lambda>base. ereturn
              \<lparr>map_base = base, map_size = msize, producer_ptr = base + uint (ro_producer ro),
               consumer_ptr = base + uint (ro_consumer ro), descs_ptr = base + uint (ro_desc ro),
               flags_ptr = base + uint (ro_flags ro), num_descs = n, mask_word = n - 1,
               cached_prod = 0, cached_cons = 0\<rparr>))"

definition MmapRing_unmap :: "os \<Rightarrow> MmapRing \<Rightarrow> sys \<Rightarrow> MmapRing \<times> sys" where
  "MmapRing_unmap os r s =
     (if map_base r \<noteq> NULL
      then let (_, s) = call os (Munmap (map_base r) (map_size r)) s in (r\<lparr>map_base := NULL\<rparr>, s)
      else (r, s))"

definition MmapRing_empty :: MmapRing where
  "MmapRing_empty = \<lparr>map_base = NULL, map_size = 0, producer_ptr = NULL, consumer_ptr = NULL, descs_ptr = NULL,
     flags_ptr = NULL, num_descs = 0, mask_word = 0, cached_prod = 0, cached_cons = 0\<rparr>"

text \<open>Moving takes every member over and empties the other object.\<close>

definition MmapRing_move :: "MmapRing \<Rightarrow> MmapRing \<times> MmapRing" where
  "MmapRing_move r = (r, MmapRing_empty)"

definition MmapRing_assign :: "os \<Rightarrow> MmapRing \<Rightarrow> MmapRing \<Rightarrow> sys \<Rightarrow> (MmapRing \<times> MmapRing) \<times> sys" where
  "MmapRing_assign os r other s = (let (_, s) = MmapRing_unmap os r s in (MmapRing_move other, s))"

section \<open>The socket\<close>

record XskConfig =
  xc_iface :: string
  xc_queue_id :: u32
  xc_ring_size :: u32
  xc_zero_copy :: bool
  xc_need_wakeup :: bool
  xc_busy_poll :: bool
  xc_busy_poll_budget :: u32
  xc_busy_poll_timeout_us :: u32

definition XDP_COPY :: u16 where "XDP_COPY = 2"
definition XDP_ZEROCOPY :: u16 where "XDP_ZEROCOPY = 4"
definition XDP_USE_NEED_WAKEUP :: u16 where "XDP_USE_NEED_WAKEUP = 8"
definition XDP_PGOFF_RX_RING :: u64 where "XDP_PGOFF_RX_RING = 0"
definition XDP_PGOFF_TX_RING :: u64 where "XDP_PGOFF_TX_RING = 0x80000000"
definition XDP_UMEM_PGOFF_FILL_RING :: u64 where "XDP_UMEM_PGOFF_FILL_RING = 0x100000000"
definition XDP_UMEM_PGOFF_COMPLETION_RING :: u64 where "XDP_UMEM_PGOFF_COMPLETION_RING = 0x180000000"

definition set_ring_sizes :: "os \<Rightarrow> int \<Rightarrow> u32 \<Rightarrow> int step" where
  "set_ring_sizes os fd n =
     ebind (ecall os (Setsockopt fd (XDP_RX_RING n)) (\<lambda>r. r = 0) (''xsk.hpp'', 140) ''XDP_RX_RING'') (\<lambda>_.
     ebind (ecall os (Setsockopt fd (XDP_TX_RING n)) (\<lambda>r. r = 0) (''xsk.hpp'', 140) ''XDP_TX_RING'') (\<lambda>_.
     ebind (ecall os (Setsockopt fd (XDP_UMEM_FILL_RING n)) (\<lambda>r. r = 0) (''xsk.hpp'', 140) ''XDP_UMEM_FILL_RING'') (\<lambda>_.
     ecall os (Setsockopt fd (XDP_UMEM_COMPLETION_RING n)) (\<lambda>r. r = 0) (''xsk.hpp'', 140) ''XDP_UMEM_COMPLETION_RING'')))"

definition register_umem :: "os \<Rightarrow> int \<Rightarrow> Umem \<Rightarrow> int step" where
  "register_umem os fd umem =
     ecall os (Setsockopt fd (XDP_UMEM_REG
       \<lparr>reg_addr = um_base umem, reg_len = um_size umem, reg_chunk_size = uc_frame_size (um_cfg umem),
        reg_headroom = uc_headroom (um_cfg umem), reg_flags = 0\<rparr>)) (\<lambda>r. r = 0) (''xsk.hpp'', 168) ''setsockopt(XDP_UMEM_REG)''"

text \<open>The rings are destroyed in reverse order when a later step fails.\<close>

fun unmap_all :: "os \<Rightarrow> MmapRing list \<Rightarrow> sys \<Rightarrow> sys" where
  "unmap_all os [] s = s"
| "unmap_all os (r # rs) s = unmap_all os rs (snd (MmapRing_unmap os r s))"

definition map_ring ::
  "os \<Rightarrow> int \<Rightarrow> u64 \<Rightarrow> xdp_ring_offset \<Rightarrow> u32 \<Rightarrow> u64 \<Rightarrow> (MmapRing \<Rightarrow> 'a step) \<Rightarrow> 'a step" where
  "map_ring os fd pgoff ro n desc_size rest =
     ebind (MmapRing_create os fd pgoff ro n desc_size) (\<lambda>r. on_error (rest r) (unmap_all os [r]))"

text \<open>
  Binding: zero copy first if it is wanted, then copy mode. The result is the value of \<open>sxdp_flags\<close>
  in the end; the message has a dash in UTF-8.
\<close>

definition em_dash :: string where
  "em_dash = [CHR 0xE2, CHR 0x80, CHR 0x94]"

definition bind_copy :: "os \<Rightarrow> XskConfig \<Rightarrow> int \<Rightarrow> u32 \<Rightarrow> u16 \<Rightarrow> u16 step" where
  "bind_copy os cfg fd ifindex flags =
     (let flags = flags OR XDP_COPY
      in ebind (ecall os (Bind fd ifindex (xc_queue_id cfg) flags) (\<lambda>r. r = 0) (''xsk.hpp'', 230) ''bind(AF_XDP, XDP_COPY)'') (\<lambda>_.
         ebind (log_line os (''xsk.hpp'', 232) Info [Str ''COPY'']) (\<lambda>_.
         ereturn flags)))"

definition bind_socket :: "os \<Rightarrow> XskConfig \<Rightarrow> int \<Rightarrow> u32 \<Rightarrow> u16 step" where
  "bind_socket os cfg fd ifindex =
     (let flags = (if xc_need_wakeup cfg then 0 OR XDP_USE_NEED_WAKEUP else 0)
      in if xc_zero_copy cfg
         then let flags = flags OR XDP_ZEROCOPY
              in ebind (eplain os (Bind fd ifindex (xc_queue_id cfg) flags)) (\<lambda>ret s.
                 (if ret = 0
                  then ebind (log_line os (''xsk.hpp'', 216) Info [Str ''ZEROCOPY'']) (\<lambda>_. ereturn flags)
                  else let zc_errno = sys_errno s
                       in ebind (log_line os (''xsk.hpp'', 220) Warn
                                   [Str ''XDP_ZEROCOPY bind failed: '', Strerror zc_errno, Str '' (errno='', Num zc_errno,
                                    Str ('') '' @ em_dash @ '' falling back to copy mode'')]) (\<lambda>_.
                          bind_copy os cfg fd ifindex (flags AND NOT XDP_ZEROCOPY))) s)
         else bind_copy os cfg fd ifindex flags)"

definition set_busy_poll :: "os \<Rightarrow> XskConfig \<Rightarrow> int \<Rightarrow> unit step" where
  "set_busy_poll os cfg fd =
     (if xc_busy_poll cfg
      then ebind (ecall os (Setsockopt fd (SO_PREFER_BUSY_POLL 1)) (\<lambda>r. r = 0) (''xsk.hpp'', 238) ''SO_PREFER_BUSY_POLL'') (\<lambda>_.
           ebind (ecall os (Setsockopt fd (SO_BUSY_POLL (sint (xc_busy_poll_timeout_us cfg)))) (\<lambda>r. r = 0)
                    (''xsk.hpp'', 238) ''SO_BUSY_POLL'') (\<lambda>_.
           ebind (ecall os (Setsockopt fd (SO_BUSY_POLL_BUDGET (sint (xc_busy_poll_budget cfg)))) (\<lambda>r. r = 0)
                    (''xsk.hpp'', 238) ''SO_BUSY_POLL_BUDGET'') (\<lambda>_.
           log_line os (''xsk.hpp'', 257) Info
             [Str ''busy-poll NAPI enabled (budget='', Wnum (xc_busy_poll_budget cfg), Str '', timeout='',
              Wnum (xc_busy_poll_timeout_us cfg), Str ''us)''])))
      else ereturn ())"

definition finish_socket ::
  "os \<Rightarrow> XskConfig \<Rightarrow> int \<Rightarrow> MmapRing \<Rightarrow> MmapRing \<Rightarrow> MmapRing \<Rightarrow> MmapRing \<Rightarrow> Xsk step" where
  "finish_socket os cfg fd rx tx fill cq =
     ebind (ecall os (If_nametoindex (xc_iface cfg)) (\<lambda>i. (word_of_int i :: u32) \<noteq> 0)
              (''xsk.hpp'', 202) ''if_nametoindex: unknown interface'') (\<lambda>i.
     ebind (bind_socket os cfg fd (word_of_int i)) (\<lambda>flags.
     ebind (set_busy_poll os cfg fd) (\<lambda>_.
     ereturn \<lparr>xsk_fd = fd, xsk_rx = rx, xsk_tx = tx, xsk_fill = fill, xsk_completion = cq,
              xsk_busy_poll = xc_busy_poll cfg, xsk_zero_copy = ((flags AND XDP_ZEROCOPY) \<noteq> 0)\<rparr>)))"

definition Xsk_create ::
  "os \<Rightarrow> ((syscall \<times> int) list \<Rightarrow> xdp_mmap_offsets) \<Rightarrow> XskConfig \<Rightarrow> Umem \<Rightarrow> Xsk step" where
  "Xsk_create os offsets cfg umem =
     ebind (ecall os Socket_xdp (\<lambda>fd. \<not> fd < 0) (''xsk.hpp'', 133) ''socket(AF_XDP)'') (\<lambda>fd.
     on_error
       (let n = xc_ring_size cfg in
        ebind (set_ring_sizes os fd n) (\<lambda>_.
        ebind (register_umem os fd umem) (\<lambda>_.
        ebind (ecall os (Getsockopt_offsets fd) (\<lambda>r. r = 0) (''xsk.hpp'', 175) ''getsockopt(XDP_MMAP_OFFSETS)'') (\<lambda>_ s.
        (let off = offsets (sys_trace s) in
         map_ring os fd XDP_PGOFF_RX_RING (off_rx off) n 16 (\<lambda>rx.
         map_ring os fd XDP_PGOFF_TX_RING (off_tx off) n 16 (\<lambda>tx.
         map_ring os fd XDP_UMEM_PGOFF_FILL_RING (off_fr off) n 8 (\<lambda>fill.
         map_ring os fd XDP_UMEM_PGOFF_COMPLETION_RING (off_cr off) n 8 (\<lambda>cq.
         finish_socket os cfg fd rx tx fill cq))))) s))))
       (\<lambda>s. snd (FileDesc_reset os \<lparr>fd_raw = fd\<rparr> s)))"

text \<open>The members are destroyed in reverse order of declaration.\<close>

definition Xsk_destroy :: "os \<Rightarrow> Xsk \<Rightarrow> sys \<Rightarrow> sys" where
  "Xsk_destroy os x s =
     snd (FileDesc_reset os \<lparr>fd_raw = xsk_fd x\<rparr>
       (unmap_all os [xsk_completion x, xsk_fill x, xsk_tx x, xsk_rx x] s))"

section \<open>Statistics\<close>

text \<open>\<open>sizeof(xdp_statistics)\<close> is 48, the offset of \<open>rx_ring_full\<close> 24; \<open>filled\<close> is what the call wrote.\<close>

record xdp_statistics =
  rx_dropped :: u64
  rx_invalid_descs :: u64
  tx_invalid_descs :: u64
  rx_ring_full :: u64
  rx_fill_ring_empty_descs :: u64
  tx_ring_empty_descs :: u64

record KernelStats =
  counters :: xdp_statistics
  returned_bytes :: u32

definition EPROTO :: int where "EPROTO = 71"

definition has_ring_counters :: "KernelStats \<Rightarrow> bool" where
  "has_ring_counters k \<longleftrightarrow> returned_bytes k = 48"

definition kernel_stats ::
  "os \<Rightarrow> ((syscall \<times> int) list \<Rightarrow> xdp_statistics \<times> u32) \<Rightarrow> int \<Rightarrow> sys \<Rightarrow> (int + KernelStats) \<times> sys" where
  "kernel_stats os filled fd s =
     (let (ret, s) = call os (Getsockopt_statistics fd) s
      in if ret \<noteq> 0 then (Inl (sys_errno s), s)
         else let (c, n) = filled (sys_trace s)
              in if n \<noteq> 24 \<and> n \<noteq> 48 then (Inl EPROTO, s) else (Inr \<lparr>counters = c, returned_bytes = n\<rparr>, s))"

section \<open>No leaks\<close>

definition ring_res :: "MmapRing \<Rightarrow> resource multiset" where
  "ring_res r = (if map_base r = NULL then {#} else {#Mapping (map_base r) (map_size r)#})"

lemma kernel_stats_holds:
  assumes "holds_after s0 R s" "kernel_stats os filled fd s = (st, s')"
  shows "holds_after s0 R s'"
proof -
  obtain r s1 where c: "call os (Getsockopt_statistics fd) s = (r, s1)" by (rule prod.exhaust)
  from holds_call [OF assms(1) c] assms(2) c show ?thesis
    by (auto simp: kernel_stats_def Let_def split: if_splits prod.splits)
qed

lemma unmap_holds:
  assumes "holds_after s0 (R + ring_res r) s"
  shows "holds_after s0 R (snd (MmapRing_unmap os r s))"
proof (cases "map_base r = NULL")
  case True
  with assms show ?thesis by (simp add: MmapRing_unmap_def ring_res_def)
next
  case False
  obtain x s' where c: "call os (Munmap (map_base r) (map_size r)) s = (x, s')" by (rule prod.exhaust)
  from holds_release [OF assms c, of R] False c show ?thesis
    by (simp add: MmapRing_unmap_def ring_res_def)
qed

lemma unmap_all_holds:
  "holds_after s0 (R + sum_list (map ring_res rs)) s \<Longrightarrow> holds_after s0 R (unmap_all os rs s)"
proof (induction rs arbitrary: s)
  case (Cons r rs)
  have "R + sum_list (map ring_res (r # rs)) = (R + sum_list (map ring_res rs)) + ring_res r"
    by (simp add: ac_simps)
  with Cons.prems have "holds_after s0 (R + sum_list (map ring_res rs)) (snd (MmapRing_unmap os r s))"
    using unmap_holds by metis
  then show ?case using Cons.IH by simp
qed simp

lemma owns_map_ring:
  assumes "mmap_nonnull os" "\<And>r. owns (Q + ring_res r) (rest r) (Q + ring_res r) P"
  shows "owns Q (map_ring os fd pgoff ro n d rest) Q P"
proof -
  let ?m = "ring_map_size ro n d"
  have "owns Q (ecall os (Mmap ?m (SharedFd fd pgoff)) (\<lambda>base. base \<noteq> MAP_FAILED) (''ring.hpp'', 170) ''mmap ring'')
      Q (\<lambda>b. Q + (if b = NULL then {#} else {#Mapping b ?m#}))"
  proof (rule owns_weaken [OF owns_call])
    fix s b s' assume "ecall os (Mmap ?m (SharedFd fd pgoff)) (\<lambda>base. base \<noteq> MAP_FAILED) (''ring.hpp'', 170) ''mmap ring'' s = (Inr b, s')"
    then have "b \<noteq> MAP_FAILED" "b = fst (os (sys_trace s) (Mmap ?m (SharedFd fd pgoff)))"
      by (auto simp: ecall_def call_def Let_def split: prod.splits if_splits)
    moreover from this have "b \<noteq> NULL" using assms(1) by (simp add: mmap_nonnull_def)
    ultimately show "Q + acquires (Mmap ?m (SharedFd fd pgoff), b) = Q + (if b = NULL then {#} else {#Mapping b ?m#})"
      by simp
  qed simp_all
  then have create: "owns Q (MmapRing_create os fd pgoff ro n d) Q (\<lambda>r. Q + ring_res r)"
    unfolding MmapRing_create_def Let_def
    by (rule owns_bind) (auto simp: owns_def ereturn_def ring_res_def)
  show ?thesis
    unfolding map_ring_def
    by (rule owns_bind [OF create], rule owns_on_error [OF assms(2)])
      (use unmap_holds in auto)
qed

lemma owns_bind_copy: "owns Q (bind_copy os cfg fd i flags) Q (\<lambda>_. Q)"
  unfolding bind_copy_def Let_def
  by (intro owns_bind [OF owns_plain] owns_bind [OF owns_log_line]) (simp_all add: owns_def ereturn_def)

lemma owns_bind_socket: "owns Q (bind_socket os cfg fd i) Q (\<lambda>_. Q)"
proof -
  have "owns Q (if r = 0 then ebind (log_line os loc1 l1 m1) (\<lambda>_. ereturn fl)
      else ebind (log_line os loc2 l2 (m2 e)) (\<lambda>_. bind_copy os cfg fd i fl')) Q (\<lambda>_. Q)" for r loc1 l1 m1 loc2 l2 m2 fl fl' and e :: int
    by (auto intro!: owns_bind [OF owns_log_line] owns_bind_copy) (simp add: owns_def ereturn_def)
  from owns_read [where f = sys_errno, OF this] show ?thesis
    unfolding bind_socket_def Let_def
    by (auto intro!: owns_bind [OF owns_eplain] owns_bind_copy)
qed

lemma owns_set_busy_poll: "owns Q (set_busy_poll os cfg fd) Q (\<lambda>_. Q)"
  by (auto simp: set_busy_poll_def intro!: owns_bind [OF owns_plain] owns_log_line)
    (simp add: owns_def ereturn_def)

lemma owns_set_ring_sizes: "owns Q (set_ring_sizes os fd n) Q (\<lambda>_. Q)"
  by (auto simp: set_ring_sizes_def intro!: owns_bind [OF owns_plain] owns_plain)

lemma owns_finish_socket:
  "owns Q (finish_socket os cfg fd rx tx fill cq) Q (\<lambda>_. Q)"
  unfolding finish_socket_def
  by (intro owns_bind [OF owns_plain] owns_bind [OF owns_bind_socket] owns_bind [OF owns_set_busy_poll])
    (simp_all add: owns_def ereturn_def)

definition xsk_res :: "Xsk \<Rightarrow> resource multiset" where
  "xsk_res x = {#Fd (xsk_fd x)#} + ring_res (xsk_rx x) + ring_res (xsk_tx x) + ring_res (xsk_fill x) +
     ring_res (xsk_completion x)"

lemma finish_socket_result:
  assumes "finish_socket os cfg fd rx tx fill cq s = (Inr x, s')"
  shows "xsk_fd x = fd" "xsk_rx x = rx" "xsk_tx x = tx" "xsk_fill x = fill" "xsk_completion x = cq"
    "xsk_busy_poll x = xc_busy_poll cfg"
  using assms unfolding finish_socket_def
  by (auto dest!: ebind_Inr simp: ereturn_def)

lemma owns_Xsk_create:
  assumes "mmap_nonnull os"
  shows "owns {#} (Xsk_create os offsets cfg umem) {#} xsk_res"
proof -
  have fin: "owns (ring_res rx + ring_res tx + ring_res fill + ring_res cq + {#Fd fd#})
      (finish_socket os cfg fd rx tx fill cq)
      (ring_res rx + ring_res tx + ring_res fill + ring_res cq + {#Fd fd#}) xsk_res" for fd rx tx fill cq
    by (rule owns_weaken [OF owns_finish_socket])
      (use finish_socket_result in \<open>fastforce simp: xsk_res_def ac_simps\<close>)
  let ?rings = "\<lambda>fd off. map_ring os fd XDP_PGOFF_RX_RING (off_rx off) (xc_ring_size cfg) 16 (\<lambda>rx.
      map_ring os fd XDP_PGOFF_TX_RING (off_tx off) (xc_ring_size cfg) 16 (\<lambda>tx.
      map_ring os fd XDP_UMEM_PGOFF_FILL_RING (off_fr off) (xc_ring_size cfg) 8 (\<lambda>fill.
      map_ring os fd XDP_UMEM_PGOFF_COMPLETION_RING (off_cr off) (xc_ring_size cfg) 8 (\<lambda>cq.
      finish_socket os cfg fd rx tx fill cq))))"
  have rings: "owns {#Fd fd#} (?rings fd off) {#Fd fd#} xsk_res" for fd off
    by (intro owns_map_ring [OF assms]) (use fin in \<open>simp add: ac_simps\<close>)
  have "owns {#Fd fd#} (\<lambda>s. ?rings fd (offsets (sys_trace s)) s) {#Fd fd#} xsk_res" for fd
    by (rule owns_read [where f = "\<lambda>s. offsets (sys_trace s)", OF rings])
  then have body: "owns {#Fd fd#} (let n = xc_ring_size cfg in
        ebind (set_ring_sizes os fd n) (\<lambda>_. ebind (register_umem os fd umem) (\<lambda>_.
        ebind (ecall os (Getsockopt_offsets fd) (\<lambda>r. r = 0) (''xsk.hpp'', 175) ''getsockopt(XDP_MMAP_OFFSETS)'') (\<lambda>_ s.
        let off = offsets (sys_trace s) in ?rings fd off s)))) {#Fd fd#} xsk_res" for fd
    unfolding Let_def register_umem_def
    by (intro owns_bind [OF owns_set_ring_sizes] owns_bind [OF owns_plain]) simp_all
  have sock: "owns {#} (ecall os Socket_xdp (\<lambda>fd. \<not> fd < 0) (''xsk.hpp'', 133) ''socket(AF_XDP)'') {#} (\<lambda>fd. {#Fd fd#})"
    by (rule owns_weaken [OF owns_call]) (auto dest: ecall_result)
  have close: "holds_after s0 {#} (snd (FileDesc_reset os \<lparr>fd_raw = fd\<rparr> s))"
    if "holds_after s0 {#Fd fd#} s" "\<not> fd < 0" for s0 s fd
    using FileDesc_reset_holds [of s0 "{#}" "\<lparr>fd_raw = fd\<rparr>" s os] that
    by (cases "FileDesc_reset os \<lparr>fd_raw = fd\<rparr> s") simp
  show ?thesis
    unfolding Xsk_create_def Let_def
    by (rule owns_bind_result [OF sock], rule owns_on_error [OF body [unfolded Let_def]]) (auto dest: ecall_result intro: close)
qed

lemma Xsk_destroy_holds:
  assumes "holds_after s0 (R + xsk_res x) s" "0 \<le> xsk_fd x"
  shows "holds_after s0 R (Xsk_destroy os x s)"
proof -
  let ?rs = "[xsk_completion x, xsk_fill x, xsk_tx x, xsk_rx x]"
  have "R + xsk_res x = R + {#Fd (xsk_fd x)#} + sum_list (map ring_res ?rs)"
    by (simp add: xsk_res_def ac_simps)
  with assms(1) have "holds_after s0 (R + {#Fd (xsk_fd x)#}) (unmap_all os ?rs s)"
    using unmap_all_holds by metis
  then show ?thesis
    using FileDesc_reset_holds [of s0 R "\<lparr>fd_raw = xsk_fd x\<rparr>" "unmap_all os ?rs s" os] assms(2)
    by (cases "FileDesc_reset os \<lparr>fd_raw = xsk_fd x\<rparr> (unmap_all os ?rs s)") (simp add: Xsk_destroy_def)
qed

section \<open>What a created socket is\<close>

lemma map_ring_Inr:
  assumes "map_ring os fd pgoff ro n d rest s = (Inr x, s')"
  shows "\<exists>r s1. rest r s1 = (Inr x, s') \<and> ring_geometry n r \<and> cached_prod r = 0 \<and> cached_cons r = 0 \<and>
    map_size r = ring_map_size ro n d \<and> descs_ptr r = map_base r + uint (ro_desc ro)"
  using assms unfolding map_ring_def MmapRing_create_def Let_def
  by (auto dest!: ebind_Inr on_error_Inr simp: ereturn_def ring_geometry_def) fastforce

text \<open>A bound socket: the flags, and the two calls the step ends with.\<close>

definition bound_with :: "int \<Rightarrow> u32 \<Rightarrow> XskConfig \<Rightarrow> u16 \<Rightarrow> sys \<Rightarrow> bool" where
  "bound_with fd i cfg flags s' \<longleftrightarrow>
     (\<exists>t msg r. sys_trace s' = t @ [(Bind fd i (xc_queue_id cfg) flags, 0), (Println Stderr msg, r)])"

lemma bind_copy_Inr:
  assumes "bind_copy os cfg fd i fl s = (Inr flags, s')"
  shows "flags = fl OR XDP_COPY \<and> bound_with fd i cfg flags s'"
  using assms unfolding bind_copy_def Let_def log_line_def bound_with_def
  by (auto dest!: ebind_Inr step_results simp: ereturn_def)

lemma bind_socket_Inr:
  assumes "bind_socket os cfg fd i s = (Inr flags, s')"
  defines "fl \<equiv> (if xc_need_wakeup cfg then 0 OR XDP_USE_NEED_WAKEUP else 0)"
  shows "(xc_zero_copy cfg \<and> flags = fl OR XDP_ZEROCOPY \<or> flags = fl OR XDP_COPY) \<and> bound_with fd i cfg flags s'"
proof -
  have zc: "(fl OR XDP_ZEROCOPY) AND NOT XDP_ZEROCOPY OR XDP_COPY = fl OR XDP_COPY"
    by (simp add: fl_def XDP_ZEROCOPY_def XDP_COPY_def XDP_USE_NEED_WAKEUP_def)
  show ?thesis
    using assms(1) unfolding bind_socket_def Let_def fl_def [symmetric] log_line_def
    by (auto dest!: ebind_Inr bind_copy_Inr eplain_result println_result simp: ereturn_def zc bound_with_def split: if_splits)
qed

lemma bind_socket_flags:
  assumes "bind_socket os cfg fd i s = (Inr flags, s')"
  shows "(flags AND XDP_ZEROCOPY \<noteq> 0) \<noteq> (flags AND XDP_COPY \<noteq> 0)"
    and "(flags AND XDP_USE_NEED_WAKEUP \<noteq> 0) = xc_need_wakeup cfg"
    and "flags AND XDP_ZEROCOPY \<noteq> 0 \<Longrightarrow> xc_zero_copy cfg"
  using bind_socket_Inr [OF assms]
  by (auto simp: XDP_COPY_def XDP_ZEROCOPY_def XDP_USE_NEED_WAKEUP_def split: if_splits)

text \<open>The rings of a created socket have the configured size and unused indices.\<close>

definition unused_indices :: "u32 \<Rightarrow> MmapRing \<Rightarrow> bool" where
  "unused_indices n r \<longleftrightarrow> ring_geometry n r \<and> cached_prod r = 0 \<and> cached_cons r = 0"

lemma map_ring_unused:
  assumes "map_ring os fd pgoff ro n d rest s = (Inr x, s')"
  shows "\<exists>r s1. rest r s1 = (Inr x, s') \<and> unused_indices n r"
  using map_ring_Inr [OF assms] by (auto simp: unused_indices_def)

lemma Xsk_create_rings:
  assumes "Xsk_create os offsets cfg umem s = (Inr x, s')"
  shows "unused_indices (xc_ring_size cfg) (xsk_rx x)" "unused_indices (xc_ring_size cfg) (xsk_tx x)"
    "unused_indices (xc_ring_size cfg) (xsk_fill x)" "unused_indices (xc_ring_size cfg) (xsk_completion x)"
    "xsk_busy_poll x = xc_busy_poll cfg" "0 \<le> xsk_fd x"
proof -
  from assms obtain fd rx tx fill cq s1 where
    "unused_indices (xc_ring_size cfg) rx" "unused_indices (xc_ring_size cfg) tx"
    "unused_indices (xc_ring_size cfg) fill" "unused_indices (xc_ring_size cfg) cq" "\<not> fd < 0"
    and fin: "finish_socket os cfg fd rx tx fill cq s1 = (Inr x, s')"
    unfolding Xsk_create_def Let_def
    by (fast dest!: ebind_Inr on_error_Inr map_ring_unused ecall_result)
  with finish_socket_result [OF fin] show "unused_indices (xc_ring_size cfg) (xsk_rx x)"
    "unused_indices (xc_ring_size cfg) (xsk_tx x)" "unused_indices (xc_ring_size cfg) (xsk_fill x)"
    "unused_indices (xc_ring_size cfg) (xsk_completion x)" "xsk_busy_poll x = xc_busy_poll cfg" "0 \<le> xsk_fd x"
    by simp_all
qed

interpretation xsk: unwinding_owner "mmap_nonnull os" "Xsk_create os offsets cfg umem" "Xsk_destroy os" xsk_res
  for os :: os and offsets cfg umem
proof (unfold_locales, goal_cases)
  case (1 s e s')
  from owns_create(1) [OF owns_Xsk_create [OF 1(1)] 1(2)] show ?case .
next
  case (2 s x s')
  from owns_create(2) [OF owns_Xsk_create [OF 2(1)] 2(2)] show ?case .
next
  case (3 s x s' s0 R t)
  from Xsk_destroy_holds [OF 3(3) Xsk_create_rings(6) [OF 3(2)]] show ?case .
next
  case (4 s e s')
  from owns_create(1) [OF owns_Xsk_create [OF 4(1)] 4(2)] show ?case .
qed

end
