(* ===== verification/Loader.thy ===== *)
theory Loader
  imports System
begin

text \<open>
  \<^verbatim>\<open>include/afxdp/xdp_loader.hpp\<close>: loading the XDP program, filling its two maps, attaching it, and
  taking all of it down again. libbpf is behind the calls of \<^verbatim>\<open>System\<close>; \<open>inet_pton\<close> is a parameter
  that gives its return value and the parsed address.
\<close>

record XdpLoader =
  ld_obj :: int
  ld_ifindex :: u32
  ld_flags :: u32
  ld_ip_map_fd :: int
  ld_xsk_map_fd :: int
  ld_queue_id :: u32
  ld_redirecting :: bool

definition XDP_FLAGS_SKB_MODE :: u32 where "XDP_FLAGS_SKB_MODE = 2"
definition XDP_FLAGS_DRV_MODE :: u32 where "XDP_FLAGS_DRV_MODE = 4"
definition ENOENT :: int where "ENOENT = 2"

definition XdpLoader_empty :: XdpLoader where
  "XdpLoader_empty = \<lparr>ld_obj = 0, ld_ifindex = 0, ld_flags = 0, ld_ip_map_fd = -1, ld_xsk_map_fd = -1,
     ld_queue_id = 0, ld_redirecting = False\<rparr>"

section \<open>Operations\<close>

definition native_mode :: "XdpLoader \<Rightarrow> bool" where
  "native_mode l \<longleftrightarrow> ld_flags l = XDP_FLAGS_DRV_MODE"

definition stop_redirect :: "os \<Rightarrow> XdpLoader \<Rightarrow> sys \<Rightarrow> (int + unit) \<times> XdpLoader \<times> sys" where
  "stop_redirect os l s =
     (if \<not> ld_redirecting l then (Inr (), l, s)
      else let (ret, s) = call os (Bpf_map_delete (ld_xsk_map_fd l) (ld_queue_id l)) s
           in if ret \<noteq> 0 \<and> sys_errno s \<noteq> ENOENT then (Inl (sys_errno s), l, s)
              else (Inr (), l\<lparr>ld_redirecting := False\<rparr>, s))"

definition detach :: "os \<Rightarrow> XdpLoader \<Rightarrow> sys \<Rightarrow> (int + unit) \<times> XdpLoader \<times> sys" where
  "detach os l s =
     (if ld_ifindex l = 0 then (Inr (), l, s)
      else let (result, s) = call os (Bpf_xdp_detach (ld_ifindex l) (ld_flags l)) s
           in if result \<noteq> 0 then (Inl (- result), l, s) else (Inr (), l\<lparr>ld_ifindex := 0\<rparr>, s))"

definition loader_release :: "os \<Rightarrow> XdpLoader \<Rightarrow> sys \<Rightarrow> XdpLoader \<times> sys" where
  "loader_release os l s =
     (let (_, l, s) = stop_redirect os l s;
          (_, l, s) = detach os l s
      in if ld_obj l \<noteq> 0
         then let (_, s) = call os (Bpf_object_close (ld_obj l)) s in (l\<lparr>ld_obj := 0\<rparr>, s)
         else (l, s))"

text \<open>Moving takes the members over; the queue number stays in the old object too.\<close>

definition loader_move :: "XdpLoader \<Rightarrow> XdpLoader \<times> XdpLoader" where
  "loader_move l = (l, XdpLoader_empty\<lparr>ld_queue_id := ld_queue_id l\<rparr>)"

definition loader_assign :: "os \<Rightarrow> XdpLoader \<Rightarrow> XdpLoader \<Rightarrow> sys \<Rightarrow> (XdpLoader \<times> XdpLoader) \<times> sys" where
  "loader_assign os l other s = (let (_, s) = loader_release os l s in (loader_move other, s))"

definition parse_ipv4 :: "(string \<Rightarrow> int \<times> u32) \<Rightarrow> string \<Rightarrow> u32 step" where
  "parse_ipv4 inet_pton ip_str =
     (let (rc, addr) = inet_pton ip_str
      in if rc \<noteq> 1 then efail (make_logic_error (''xdp_loader.hpp'', 91) (''invalid IPv4 address: '' @ quoted ip_str)) else ereturn addr)"

text \<open>Native mode first, then generic mode; libbpf returns the negated error number.\<close>

definition attach_program :: "os \<Rightarrow> u32 \<Rightarrow> int \<Rightarrow> u32 step" where
  "attach_program os ifindex prog_fd =
     ebind (eplain os (Bpf_xdp_attach ifindex prog_fd XDP_FLAGS_DRV_MODE)) (\<lambda>rc.
     if rc = 0 then ereturn XDP_FLAGS_DRV_MODE
     else ebind (log_line os (''xdp_loader.hpp'', 178) Warn
                   [Str ''DRV mode failed ('', Strerror (- rc), Str ''), falling back to SKB mode'']) (\<lambda>_ s.
          let (rc, s) = call os (Bpf_xdp_attach ifindex prog_fd XDP_FLAGS_SKB_MODE) s
          in if rc \<noteq> 0
             then let s = s\<lparr>sys_errno := - rc\<rparr>
                  in (Inl (Failed (make_errno_error (''xdp_loader.hpp'', 186) ''bpf_xdp_attach(SKB mode)'' s)), s)
             else (Inr XDP_FLAGS_SKB_MODE, s)))"

text \<open>
  The part of \<open>create\<close> after the object has been opened; the \<open>loader\<close> of the code is a local object,
  so each error releases what it owns so far. A step without an error result is a plain call.
\<close>

definition load_program :: "os \<Rightarrow> XdpLoader \<Rightarrow> int step" where
  "load_program os l =
     ebind (ecall os (Bpf_object_load (ld_obj l)) (\<lambda>r. r = 0) (''xdp_loader.hpp'', 126) ''bpf_object__load failed'') (\<lambda>_.
     ebind (efind os (Bpf_find_map (ld_obj l) ''xsks_map'') (''xdp_loader.hpp'', 131) ''xsks_map not found in BPF object'') (\<lambda>m.
     eplain os (Bpf_map_fd m)))"

definition set_filter :: "os \<Rightarrow> (string \<Rightarrow> int \<times> u32) \<Rightarrow> XdpLoader \<Rightarrow> string \<Rightarrow> int step" where
  "set_filter os inet_pton l filter_ip =
     ebind (efind os (Bpf_find_map (ld_obj l) ''target_ip_map'') (''xdp_loader.hpp'', 146) ''target_ip_map not found in BPF object'') (\<lambda>m.
     ebind (eplain os (Bpf_map_fd m)) (\<lambda>fd.
     ebind (parse_ipv4 inet_pton filter_ip) (\<lambda>addr.
     ebind (ecall os (Bpf_map_update fd 0 (uint addr)) (\<lambda>r. r = 0)
              (''xdp_loader.hpp'', 159) ''bpf_map_update_elem(target_ip_map)'') (\<lambda>_.
     ebind (log_line os (''xdp_loader.hpp'', 161) Info [Str (''XDP filter: capturing packets from '' @ filter_ip)]) (\<lambda>_.
     ereturn fd)))))"

definition find_program :: "os \<Rightarrow> XdpLoader \<Rightarrow> int step" where
  "find_program os l =
     ebind (efind os (Bpf_find_program (ld_obj l) ''xdp_filter_ip'') (''xdp_loader.hpp'', 166) ''xdp_filter_ip not found in BPF object'') (\<lambda>p.
     eplain os (Bpf_program_fd p))"

definition populate_loader ::
  "os \<Rightarrow> (string \<Rightarrow> int \<times> u32) \<Rightarrow> XdpLoader \<Rightarrow> u32 \<Rightarrow> int \<Rightarrow> string \<Rightarrow> XdpLoader step" where
  "populate_loader os inet_pton l ifindex xsk_fd filter_ip =
     (let unwind = (\<lambda>l s. snd (loader_release os l s))
      in ebind (on_error (load_program os l) (unwind l)) (\<lambda>xsk_map_fd.
         (let l = l\<lparr>ld_xsk_map_fd := xsk_map_fd\<rparr>
          in ebind (on_error (ecall os (Bpf_map_update xsk_map_fd (ld_queue_id l) xsk_fd) (\<lambda>r. r = 0)
                      (''xdp_loader.hpp'', 139) ''bpf_map_update_elem(xsks_map)'') (unwind l)) (\<lambda>_.
             (let l = l\<lparr>ld_redirecting := True\<rparr>
              in on_error
                   (ebind (set_filter os inet_pton l filter_ip) (\<lambda>ip_map_fd.
                    ebind (find_program os l) (\<lambda>prog_fd.
                    ebind (attach_program os ifindex prog_fd) (\<lambda>used_flags.
                    ereturn (l\<lparr>ld_ip_map_fd := ip_map_fd, ld_ifindex := ifindex, ld_flags := used_flags\<rparr>)))))
                   (unwind l))))))"

definition load_and_attach ::
  "os \<Rightarrow> (string \<Rightarrow> int \<times> u32) \<Rightarrow> string \<Rightarrow> string \<Rightarrow> u32 \<Rightarrow> int \<Rightarrow> string \<Rightarrow> XdpLoader step" where
  "load_and_attach os inet_pton bpf_obj_path iface queue_id xsk_fd filter_ip =
     ebind (ecall os (If_nametoindex iface) (\<lambda>i. (word_of_int i :: u32) \<noteq> 0) (''xdp_loader.hpp'', 112)
              (''if_nametoindex('' @ quoted iface @ '') failed'')) (\<lambda>i.
     ebind (ecall os (Bpf_object_open bpf_obj_path) (\<lambda>ob. ob \<noteq> 0) (''xdp_loader.hpp'', 118)
              (''bpf_object__open('' @ quoted bpf_obj_path @ '') failed'')) (\<lambda>ob.
     populate_loader os inet_pton (XdpLoader_empty\<lparr>ld_obj := ob, ld_queue_id := queue_id\<rparr>)
       (word_of_int i) xsk_fd filter_ip))"

text \<open>An exception of the last log line meets a loader that owns the attachment, and detaches it.\<close>

definition log_attached :: "os \<Rightarrow> XdpLoader \<Rightarrow> unit step" where
  "log_attached os l =
     log_line os (''xdp_loader.hpp'', 192) Info
       [Str (if ld_flags l = XDP_FLAGS_DRV_MODE then ''XDP attached in DRV (native) mode''
             else ''XDP attached in SKB (generic) mode'')]"

definition XdpLoader_create ::
  "os \<Rightarrow> (string \<Rightarrow> int \<times> u32) \<Rightarrow> string \<Rightarrow> string \<Rightarrow> u32 \<Rightarrow> int \<Rightarrow> string \<Rightarrow> XdpLoader step" where
  "XdpLoader_create os inet_pton bpf_obj_path iface queue_id xsk_fd filter_ip =
     ebind (load_and_attach os inet_pton bpf_obj_path iface queue_id xsk_fd filter_ip) (\<lambda>l.
     ebind (on_error (log_attached os l) (\<lambda>s. snd (loader_release os l s))) (\<lambda>_.
     ereturn l))"

text \<open>Declared \<open>noexcept\<close>: an exception of the log line ends the program.\<close>

definition update_filter_ip ::
  "os \<Rightarrow> (string \<Rightarrow> int \<times> u32) \<Rightarrow> XdpLoader \<Rightarrow> string \<Rightarrow> sys \<Rightarrow> (exn + (AfxdpError + unit)) \<times> sys" where
  "update_filter_ip os inet_pton l ip_str =
     noexcept (ebind (parse_ipv4 inet_pton ip_str) (\<lambda>addr.
       ebind (ecall os (Bpf_map_update (ld_ip_map_fd l) 0 (uint addr)) (\<lambda>r. r = 0)
                (''xdp_loader.hpp'', 208) ''update_filter_ip: bpf_map_update_elem'') (\<lambda>_.
       log_line os (''xdp_loader.hpp'', 211) Info [Str (''XDP filter updated to '' @ ip_str)])))"

section \<open>No leaks\<close>

definition loader_res :: "XdpLoader \<Rightarrow> resource multiset" where
  "loader_res l = (if ld_obj l = 0 then {#} else {#BpfObject (ld_obj l)#}) +
     (if ld_ifindex l = 0 then {#} else {#Attached (ld_ifindex l) (ld_flags l)#})"

lemma stop_redirect_holds:
  assumes "holds_after s0 R s" "stop_redirect os l s = (res, l', s')"
  shows "holds_after s0 R s'" "loader_res l' = loader_res l" "ld_obj l' = ld_obj l" "ld_ifindex l' = ld_ifindex l"
    "ld_flags l' = ld_flags l"
proof -
  obtain r s1 where c: "call os (Bpf_map_delete (ld_xsk_map_fd l) (ld_queue_id l)) s = (r, s1)" by (rule prod.exhaust)
  from holds_call [OF assms(1) c] have "holds_after s0 R s1" by simp
  with assms c show "holds_after s0 R s'" "loader_res l' = loader_res l" "ld_obj l' = ld_obj l"
    "ld_ifindex l' = ld_ifindex l" "ld_flags l' = ld_flags l"
    by (auto simp: stop_redirect_def loader_res_def split: if_splits)
qed

lemma detach_holds:
  assumes "holds_after s0 (R + loader_res l) s" "detach os l s = (res, l', s')"
  shows "holds_after s0 (R + loader_res l') s'" "ld_obj l' = ld_obj l"
    "res = Inr () \<longleftrightarrow> ld_ifindex l' = 0"
proof -
  obtain r s1 where c: "call os (Bpf_xdp_detach (ld_ifindex l) (ld_flags l)) s = (r, s1)" by (rule prod.exhaust)
  have "holds_after s0 (R + loader_res (if r = 0 then l\<lparr>ld_ifindex := 0\<rparr> else l)) s1" if "ld_ifindex l \<noteq> 0"
    by (rule holds_release [OF assms(1) c]) (use that in \<open>auto simp: loader_res_def ac_simps\<close>)
  with assms c show "holds_after s0 (R + loader_res l') s'" "ld_obj l' = ld_obj l"
    "res = Inr () \<longleftrightarrow> ld_ifindex l' = 0"
    by (auto simp: detach_def split: if_splits)
qed

text \<open>After a release only a program whose detach failed may still be attached.\<close>

lemma loader_release_holds:
  assumes "holds_after s0 (R + loader_res l) s" "loader_release os l s = (l', s')"
  shows "holds_after s0 (R + loader_res l') s'" "ld_obj l' = 0" "ld_ifindex l = 0 \<Longrightarrow> ld_ifindex l' = 0"
proof -
  obtain x1 l1 s1 where sr: "stop_redirect os l s = (x1, l1, s1)" by (metis prod.exhaust)
  note h1 = stop_redirect_holds [OF assms(1) sr]
  obtain x2 l2 s2 where dt: "detach os l1 s1 = (x2, l2, s2)" by (metis prod.exhaust)
  have "holds_after s0 (R + loader_res l1) s1" using h1(1,2) by simp
  note h2 = detach_holds [OF this dt]
  obtain r s3 where c: "call os (Bpf_object_close (ld_obj l2)) s2 = (r, s3)" by (rule prod.exhaust)
  have "holds_after s0 (R + loader_res (l2\<lparr>ld_obj := 0\<rparr>)) s3" if "ld_obj l2 \<noteq> 0"
    by (rule holds_release [OF h2(1) c]) (use that in \<open>auto simp: loader_res_def ac_simps\<close>)
  with assms(2) sr dt c h2(1) show "holds_after s0 (R + loader_res l') s'" "ld_obj l' = 0"
    by (auto simp: loader_release_def split: if_splits)
  show "ld_ifindex l' = 0" if "ld_ifindex l = 0"
    using assms(2) sr dt c h1(4) that by (auto simp: loader_release_def detach_def split: if_splits)
qed

lemma owns_parse_ipv4: "owns Q (parse_ipv4 inet_pton ip) Q (\<lambda>_. Q)"
  by (auto simp: parse_ipv4_def owns_def efail_def ereturn_def Let_def split: prod.splits)

lemma owns_load_program: "owns Q (load_program os l) Q (\<lambda>_. Q)"
  unfolding load_program_def
  by (intro owns_bind [OF owns_plain] owns_bind [OF owns_find] owns_eplain) simp_all

lemma owns_find_program: "owns Q (find_program os l) Q (\<lambda>_. Q)"
  unfolding find_program_def by (intro owns_bind [OF owns_find] owns_eplain) simp_all

lemma owns_set_filter: "owns Q (set_filter os inet_pton l ip) Q (\<lambda>_. Q)"
  unfolding set_filter_def
  by (intro owns_bind [OF owns_find] owns_bind [OF owns_eplain] owns_bind [OF owns_parse_ipv4]
      owns_bind [OF owns_plain] owns_bind [OF owns_log_line]) (simp_all add: owns_def ereturn_def)

lemma owns_attach_program:
  "owns Q (attach_program os i p) Q (\<lambda>fl. Q + {#Attached i fl#})"
proof -
  let ?skb = "\<lambda>s. let (rc, s) = call os (Bpf_xdp_attach i p XDP_FLAGS_SKB_MODE) s
    in if rc \<noteq> 0 then let s = s\<lparr>sys_errno := - rc\<rparr>
         in (Inl (Failed (make_errno_error (''xdp_loader.hpp'', 186) ''bpf_xdp_attach(SKB mode)'' s)), s)
       else (Inr XDP_FLAGS_SKB_MODE, s)"
  have skb: "owns Q ?skb Q (\<lambda>fl. Q + {#Attached i fl#})"
    unfolding owns_def
  proof (intro allI impI)
    fix s0 s assume h: "holds_after s0 Q s"
    obtain r s1 where c: "call os (Bpf_xdp_attach i p XDP_FLAGS_SKB_MODE) s = (r, s1)" by (rule prod.exhaust)
    have "holds_after s0 Q (s1\<lparr>sys_errno := e\<rparr>) = holds_after s0 Q s1" for e by (simp add: holds_after_def)
    with holds_call [OF h c] c show "case ?skb s of (Inl e, s') \<Rightarrow> holds_after s0 Q s'
        | (Inr fl, s') \<Rightarrow> holds_after s0 (Q + {#Attached i fl#}) s'" by (auto simp: Let_def split: if_splits)
  qed
  have drv: "owns Q (eplain os (Bpf_xdp_attach i p fl)) Q (\<lambda>r. Q + (if r = 0 then {#Attached i fl#} else {#}))" for fl
    using holds_call [where c = "Bpf_xdp_attach i p fl"]
    by (fastforce simp: owns_def eplain_def Let_def split: prod.splits)
  have rest: "owns (Q + (if r = 0 then {#Attached i XDP_FLAGS_DRV_MODE#} else {#}))
      (if r = 0 then ereturn XDP_FLAGS_DRV_MODE else ebind (log_line os loc lev msg) (\<lambda>_. ?skb)) Q
      (\<lambda>fl. Q + {#Attached i fl#})" for r loc lev msg
    using owns_bind [OF owns_log_line skb] by (auto simp: owns_def ereturn_def)
  show ?thesis unfolding attach_program_def by (rule owns_bind [OF drv rest])
qed

lemma unwind_holds:
  assumes "holds_after s0 {#BpfObject (ld_obj l)#} s" "ld_ifindex l = 0" "ld_obj l \<noteq> 0"
  shows "holds_after s0 {#} (snd (loader_release os l s))"
proof -
  obtain l' s' where r: "loader_release os l s = (l', s')" by (rule prod.exhaust)
  have "holds_after s0 ({#} + loader_res l) s" using assms by (simp add: loader_res_def)
  from loader_release_holds [OF this r] assms r show ?thesis by (simp add: loader_res_def)
qed

lemma owns_populate_loader:
  assumes "ld_obj l \<noteq> 0" "ld_ifindex l = 0" "i \<noteq> 0"
  shows "owns {#BpfObject (ld_obj l)#} (populate_loader os inet_pton l i xfd ip) {#} loader_res"
proof -
  let ?B = "{#BpfObject (ld_obj l)#}" and ?u = "\<lambda>l s. snd (loader_release os l s)"
  have e1: "owns ?B (on_error (load_program os l) (?u l)) {#} (\<lambda>_. ?B)"
    by (rule owns_on_error [OF owns_load_program]) (use assms in \<open>auto intro: unwind_holds\<close>)
  have e2: "owns ?B (on_error (ecall os (Bpf_map_update fd q xfd) (\<lambda>r. r = 0) loc ctx) (?u (l\<lparr>ld_xsk_map_fd := fd\<rparr>)))
      {#} (\<lambda>_. ?B)" for fd q loc ctx
    by (rule owns_on_error [OF owns_plain]) (use assms in \<open>auto intro: unwind_holds\<close>)
  have tail: "owns ?B
      (ebind (set_filter os inet_pton m ip) (\<lambda>ip_map_fd. ebind (find_program os m) (\<lambda>prog_fd.
         ebind (attach_program os i prog_fd) (\<lambda>fl.
         ereturn (m\<lparr>ld_ip_map_fd := ip_map_fd, ld_ifindex := i, ld_flags := fl\<rparr>)))))
      ?B loader_res" if "ld_obj m = ld_obj l" for m
    by (rule owns_bind [OF owns_set_filter], rule owns_bind [OF owns_find_program],
        rule owns_bind [OF owns_attach_program])
      (use that assms in \<open>simp add: owns_def ereturn_def loader_res_def\<close>)
  show ?thesis
    unfolding populate_loader_def Let_def
    by (rule owns_bind [OF e1], rule owns_bind [OF e2], rule owns_on_error [OF tail])
      (use assms in \<open>auto intro: unwind_holds\<close>)
qed

lemma owns_load_and_attach:
  "owns {#} (load_and_attach os inet_pton path iface q xfd ip) {#} (\<lambda>l. loader_res l)"
  unfolding load_and_attach_def
proof (rule owns_bind_result [OF owns_plain])
  fix s i s' assume "ecall os (If_nametoindex iface) (\<lambda>i. (word_of_int i :: u32) \<noteq> 0) (''xdp_loader.hpp'', 112)
    (''if_nametoindex('' @ quoted iface @ '') failed'') s = (Inr i, s')"
  then have i: "(word_of_int i :: u32) \<noteq> 0" by (auto dest: ecall_result)
  let ?open = "ecall os (Bpf_object_open path) (\<lambda>ob. ob \<noteq> 0) (''xdp_loader.hpp'', 118)
    (''bpf_object__open('' @ quoted path @ '') failed'')"
  have "owns {#} ?open {#} (\<lambda>ob. {#BpfObject ob#})"
    by (rule owns_weaken [OF owns_call]) (auto dest: ecall_result)
  then show "owns {#} (ebind ?open (\<lambda>ob.
      populate_loader os inet_pton (XdpLoader_empty\<lparr>ld_obj := ob, ld_queue_id := q\<rparr>) (word_of_int i) xfd ip)) {#} loader_res"
  proof (rule owns_bind_result)
    fix s ob s' assume "?open s = (Inr ob, s')"
    then have "ob \<noteq> 0" by (auto dest: ecall_result)
    then show "owns {#BpfObject ob#} (populate_loader os inet_pton
        (XdpLoader_empty\<lparr>ld_obj := ob, ld_queue_id := q\<rparr>) (word_of_int i) xfd ip) {#} loader_res"
      using owns_populate_loader [of "XdpLoader_empty\<lparr>ld_obj := ob, ld_queue_id := q\<rparr>" "word_of_int i"] i
      by (simp add: XdpLoader_empty_def)
  qed
qed simp_all

text \<open>After a release at most the attachment is left, and only if detaching failed.\<close>

definition left_over :: "XdpLoader \<Rightarrow> resource multiset" where
  "left_over l = (if ld_ifindex l = 0 then {#} else {#Attached (ld_ifindex l) (ld_flags l)#})"

text \<open>If the attachment is left, a call since \<open>s0\<close> tried to remove it and failed.\<close>

definition stuck :: "sys \<Rightarrow> sys \<Rightarrow> XdpLoader \<Rightarrow> bool" where
  "stuck s0 s l \<longleftrightarrow> (\<exists>t. sys_trace s = sys_trace s0 @ t \<and>
     (ld_ifindex l \<noteq> 0 \<longrightarrow> (\<exists>r. r \<noteq> 0 \<and> (Bpf_xdp_detach (ld_ifindex l) (ld_flags l), r) \<in> set t)))"

lemma left_over_empty [simp]: "left_over XdpLoader_empty = {#}"
  by (simp add: left_over_def XdpLoader_empty_def)

lemma stuck_called: "stuck s0 s l \<Longrightarrow> called A s s' \<Longrightarrow> stuck s0 s' l"
  by (fastforce simp: stuck_def called_def)

lemma stuck_trans: "holds_after s0 R s \<Longrightarrow> stuck s s' l \<Longrightarrow> stuck s0 s' l"
  by (fastforce simp: stuck_def holds_after_def)

lemma stuck_empty: "holds_after s0 R s \<Longrightarrow> stuck s0 s XdpLoader_empty"
  by (auto simp: stuck_def holds_after_def XdpLoader_empty_def)

lemma detach_stuck: "detach os l s = (x, l', s') \<Longrightarrow> stuck s s' l'"
  by (auto simp: detach_def stuck_def split: prod.splits if_splits dest!: call_trace)

lemma loader_release_stuck:
  assumes "loader_release os l s = (l', s')"
  shows "stuck s s' l'"
proof -
  obtain x1 l1 s1 where sr: "stop_redirect os l s = (x1, l1, s1)" by (metis prod.exhaust)
  obtain x2 l2 s2 where dt: "detach os l1 s1 = (x2, l2, s2)" by (metis prod.exhaust)
  obtain r s3 where c: "call os (Bpf_object_close (ld_obj l2)) s2 = (r, s3)" by (rule prod.exhaust)
  obtain t where "sys_trace s1 = sys_trace s @ t"
    using sr by (auto simp: stop_redirect_def split: prod.splits if_splits dest!: call_trace)
  with detach_stuck [OF dt] have st: "stuck s s2 l2" by (auto simp: stuck_def)
  have "stuck s s3 l2" using stuck_called [OF st called_call [OF c, of "\<lambda>_. True"]] by simp
  then have "stuck s s3 (l2\<lparr>ld_obj := 0\<rparr>)" by (simp add: stuck_def)
  with assms sr dt c st show ?thesis by (auto simp: loader_release_def split: if_splits)
qed

lemma release_left_over:
  assumes "holds_after s0 (R + loader_res l) s"
  shows "\<exists>l'. holds_after s0 (R + left_over l') (snd (loader_release os l s)) \<and>
    stuck s0 (snd (loader_release os l s)) l' \<and> (ld_ifindex l = 0 \<longrightarrow> left_over l' = {#})"
proof -
  obtain l' s' where r: "loader_release os l s = (l', s')" by (rule prod.exhaust)
  note h = loader_release_holds [OF assms r]
  have "loader_res l' = left_over l'" using h(2) by (simp add: loader_res_def left_over_def)
  with h r stuck_trans [OF assms loader_release_stuck [OF r]] show ?thesis
    by (intro exI [of _ l']) (auto simp: left_over_def)
qed

text \<open>
  A successful creation leaves the object and the attachment, a failed one nothing. If the last log
  line throws, the program is detached again, so that it stays attached only if that fails.
\<close>

lemma XdpLoader_create_holds:
  assumes "XdpLoader_create os inet_pton path iface q xfd ip s = (res, s')" "holds_after s0 R s"
  shows "case res of
      Inl (Failed e) \<Rightarrow> holds_after s0 R s'
    | Inl (Thrown e) \<Rightarrow> \<exists>l. holds_after s0 (R + left_over l) s' \<and> stuck s0 s' l
    | Inr l \<Rightarrow> holds_after s0 (R + loader_res l) s'"
proof -
  obtain x s1 where la: "load_and_attach os inet_pton path iface q xfd ip s = (x, s1)" by (rule prod.exhaust)
  show ?thesis
  proof (cases x)
    case (Inl f)
    with owns_create(1) [OF owns_load_and_attach] la have "holds_after s {#} s1" by blast
    from holds_after_trans [OF assms(2) this] assms(1) la Inl show ?thesis
      by (auto simp: XdpLoader_create_def ebind_def intro!: exI [of _ XdpLoader_empty] stuck_empty split: failure.splits)
  next
    case (Inr l)
    with owns_create(2) [OF owns_load_and_attach] la have "holds_after s (loader_res l) s1" by blast
    from holds_after_trans [OF assms(2) this] have h1: "holds_after s0 (R + loader_res l) s1" .
    obtain msg where lg: "log_attached os l = println os Stderr msg" by (simp add: log_attached_def log_line_def)
    obtain r s2 where c: "call os (Println Stderr msg) s1 = (r, s2)" by (rule prod.exhaust)
    have h2: "holds_after s0 (R + loader_res l) s2" using holds_call [OF h1 c] by simp
    from release_left_over [OF h2, of os] obtain l' where "holds_after s0 (R + left_over l') (snd (loader_release os l s2))"
      "stuck s0 (snd (loader_release os l s2)) l'" by blast
    with assms(1) la Inr lg c h2 show ?thesis
      by (auto simp: XdpLoader_create_def ebind_def on_error_def ereturn_def println_def try_print_def split: if_splits)
  qed
qed

section \<open>Order of the calls\<close>

text \<open>
  The calls of a successful part: \<open>calls s t s'\<close> says that \<open>t\<close> was called between \<open>s\<close> and \<open>s'\<close>. No
  step before the last one attaches anything.
\<close>

definition calls :: "sys \<Rightarrow> (syscall \<times> int) list \<Rightarrow> sys \<Rightarrow> bool" where
  "calls s t s' \<longleftrightarrow> sys_trace s' = sys_trace s @ t \<and> (\<forall>i p fl. (Bpf_xdp_attach i p fl, 0) \<notin> set t)"

lemma calls_trans: "calls s t s1 \<Longrightarrow> calls s1 u s2 \<Longrightarrow> calls s (t @ u) s2"
  by (auto simp: calls_def)

lemma parse_ipv4_result: "parse_ipv4 inet_pton ip s = (Inr addr, s') \<Longrightarrow> inet_pton ip = (1, addr) \<and> s' = s"
  by (auto simp: parse_ipv4_def efail_def ereturn_def split: prod.splits if_splits)

lemma load_program_result: "load_program os l s = (Inr fd, s') \<Longrightarrow> \<exists>t. calls s t s'"
  unfolding load_program_def by (auto dest!: ebind_Inr step_results simp: calls_def)

lemma find_program_result: "find_program os l s = (Inr fd, s') \<Longrightarrow> \<exists>t. calls s t s'"
  unfolding find_program_def by (auto dest!: ebind_Inr step_results simp: calls_def)

lemma set_filter_result:
  "set_filter os inet_pton l ip s = (Inr fd, s') \<Longrightarrow>
   \<exists>t addr. calls s t s' \<and> inet_pton ip = (1, addr) \<and> (Bpf_map_update fd 0 (uint addr), 0) \<in> set t"
  unfolding set_filter_def log_line_def
  by (auto dest!: ebind_Inr step_results parse_ipv4_result simp: calls_def ereturn_def)

lemma attach_program_result:
  assumes "attach_program os i p s = (Inr fl, s')"
  shows "\<exists>t. (\<forall>i p fl. (Bpf_xdp_attach i p fl, 0) \<notin> set t) \<and> sys_trace s' = sys_trace s @ t @ [(Bpf_xdp_attach i p fl, 0)] \<and>
    fl \<in> {XDP_FLAGS_DRV_MODE, XDP_FLAGS_SKB_MODE}"
proof -
  let ?drv = "Bpf_xdp_attach i p XDP_FLAGS_DRV_MODE" and ?skb = "Bpf_xdp_attach i p XDP_FLAGS_SKB_MODE"
  obtain r1 s1 where c1: "call os ?drv s = (r1, s1)" by (rule prod.exhaust)
  show ?thesis
  proof (cases "r1 = 0")
    case True
    with assms c1 call_trace [OF c1] show ?thesis
      by (intro exI [of _ "[]"]) (simp add: attach_program_def ebind_def eplain_def ereturn_def)
  next
    case False
    define msg where "msg = [Str ''[WRN] '', Str ''DRV mode failed ('', Strerror (- r1), Str ''), falling back to SKB mode'',
      Str ''  ('', File_name ''xdp_loader.hpp'', Str '':'', Num 178, Str '')'']"
    obtain r2 s2 where c2: "call os (Println Stderr msg) s1 = (r2, s2)" by (rule prod.exhaust)
    obtain r3 s3 where c3: "call os ?skb s2 = (r3, s3)" by (rule prod.exhaust)
    have "fl = XDP_FLAGS_SKB_MODE \<and> s' = s3 \<and> r3 = 0"
      using assms False c1 c2 c3
      by (auto simp: attach_program_def ebind_def eplain_def log_line_def println_def try_print_def msg_def Let_def split: if_splits)
    with False call_trace [OF c1] call_trace [OF c2] call_trace [OF c3] show ?thesis
      by (intro exI [of _ "[(?drv, r1), (Println Stderr msg, r2)]"]) simp
  qed
qed

lemma populate_loader_result:
  assumes "populate_loader os inet_pton l0 i xfd ip s = (Inr l, s')"
  shows "\<exists>t p addr. calls s t (s'\<lparr>sys_trace := sys_trace s @ t\<rparr>) \<and>
    sys_trace s' = sys_trace s @ t @ [(Bpf_xdp_attach i p (ld_flags l), 0)] \<and> inet_pton ip = (1, addr) \<and>
    (Bpf_map_update (ld_xsk_map_fd l) (ld_queue_id l0) xfd, 0) \<in> set t \<and>
    (Bpf_map_update (ld_ip_map_fd l) 0 (uint addr), 0) \<in> set t \<and>
    ld_ifindex l = i \<and> ld_redirecting l \<and> ld_queue_id l = ld_queue_id l0"
proof -
  from assms obtain xm s1 r s2 im s3 pf s4 fl where
    "load_program os l0 s = (Inr xm, s1)"
    and up: "ecall os (Bpf_map_update xm (ld_queue_id l0) xfd) (\<lambda>r. r = 0) (''xdp_loader.hpp'', 139) ''bpf_map_update_elem(xsks_map)'' s1 = (Inr r, s2)"
    and f: "set_filter os inet_pton (l0\<lparr>ld_xsk_map_fd := xm, ld_redirecting := True\<rparr>) ip s2 = (Inr im, s3)"
    and p: "find_program os (l0\<lparr>ld_xsk_map_fd := xm, ld_redirecting := True\<rparr>) s3 = (Inr pf, s4)"
    and a: "attach_program os i pf s4 = (Inr fl, s')"
    and l: "l = l0\<lparr>ld_xsk_map_fd := xm, ld_redirecting := True, ld_ip_map_fd := im, ld_ifindex := i, ld_flags := fl\<rparr>"
    unfolding populate_loader_def Let_def by (auto dest!: ebind_Inr on_error_Inr simp: ereturn_def)
  then obtain t1 where t1: "calls s t1 s1" using load_program_result by blast
  have t2: "calls s1 [(Bpf_map_update xm (ld_queue_id l0) xfd, 0)] s2" using ecall_result [OF up] by (simp add: calls_def)
  from set_filter_result [OF f] obtain t3 addr where
    t3: "calls s2 t3 s3" "inet_pton ip = (1, addr)" "(Bpf_map_update im 0 (uint addr), 0) \<in> set t3" by blast
  from find_program_result [OF p] obtain t4 where t4: "calls s3 t4 s4" by blast
  from attach_program_result [OF a] obtain t5 where t5: "\<forall>i p fl. (Bpf_xdp_attach i p fl, 0) \<notin> set t5"
    "sys_trace s' = sys_trace s4 @ t5 @ [(Bpf_xdp_attach i pf fl, 0)]" by blast
  have "calls s (t1 @ [(Bpf_map_update xm (ld_queue_id l0) xfd, 0)] @ t3 @ t4) s4"
    using calls_trans [OF t1 calls_trans [OF t2 calls_trans [OF t3(1) t4]]] by simp
  with t3 t5 l show ?thesis
    by (intro exI [of _ "t1 @ [(Bpf_map_update xm (ld_queue_id l0) xfd, 0)] @ t3 @ t4 @ t5"] exI [of _ pf] exI [of _ addr])
      (auto simp: calls_def)
qed

text \<open>
  The program is attached by the last call, when the socket and the filter address are already in
  the maps, so it never runs half configured.
\<close>

lemma load_and_attach_order:
  assumes "load_and_attach os inet_pton path iface q xfd ip s = (Inr l, s')"
  shows "\<exists>t p addr. sys_trace s' = sys_trace s @ t @ [(Bpf_xdp_attach (ld_ifindex l) p (ld_flags l), 0)] \<and>
    (\<forall>i p fl. (Bpf_xdp_attach i p fl, 0) \<notin> set t) \<and> inet_pton ip = (1, addr) \<and>
    (Bpf_map_update (ld_xsk_map_fd l) q xfd, 0) \<in> set t \<and>
    (Bpf_map_update (ld_ip_map_fd l) 0 (uint addr), 0) \<in> set t \<and>
    ld_redirecting l \<and> ld_queue_id l = q \<and> ld_ifindex l \<noteq> 0"
proof -
  from assms obtain i ob s2 and s1 :: sys where
    "(word_of_int i :: u32) \<noteq> 0 \<and> sys_trace s1 = sys_trace s @ [(If_nametoindex iface, i)]"
    "ob \<noteq> 0 \<and> sys_trace s2 = sys_trace s1 @ [(Bpf_object_open path, ob)]"
    and pl: "populate_loader os inet_pton (XdpLoader_empty\<lparr>ld_obj := ob, ld_queue_id := q\<rparr>) (word_of_int i) xfd ip s2 = (Inr l, s')"
    unfolding load_and_attach_def by (auto dest!: ebind_Inr ecall_result)
  moreover from populate_loader_result [OF pl] obtain t p addr where
    "calls s2 t (s'\<lparr>sys_trace := sys_trace s2 @ t\<rparr>)"
    "sys_trace s' = sys_trace s2 @ t @ [(Bpf_xdp_attach (word_of_int i) p (ld_flags l), 0)]" "inet_pton ip = (1, addr)"
    "(Bpf_map_update (ld_xsk_map_fd l) q xfd, 0) \<in> set t" "(Bpf_map_update (ld_ip_map_fd l) 0 (uint addr), 0) \<in> set t"
    "ld_ifindex l = word_of_int i" "ld_redirecting l" "ld_queue_id l = q" by auto
  ultimately show ?thesis
    by (intro exI [of _ "[(If_nametoindex iface, i), (Bpf_object_open path, ob)] @ t"] exI [of _ p] exI [of _ addr])
      (auto simp: calls_def)
qed

lemma XdpLoader_create_order:
  assumes "XdpLoader_create os inet_pton path iface q xfd ip s = (Inr l, s')"
  shows "\<exists>t p addr msg r. sys_trace s' = sys_trace s @ t @
      [(Bpf_xdp_attach (ld_ifindex l) p (ld_flags l), 0), (Println Stderr msg, r)] \<and>
    (\<forall>i p fl. (Bpf_xdp_attach i p fl, 0) \<notin> set t) \<and> inet_pton ip = (1, addr) \<and>
    (Bpf_map_update (ld_xsk_map_fd l) q xfd, 0) \<in> set t \<and>
    (Bpf_map_update (ld_ip_map_fd l) 0 (uint addr), 0) \<in> set t \<and>
    ld_redirecting l \<and> ld_queue_id l = q \<and> ld_ifindex l \<noteq> 0"
proof -
  from assms obtain u s1 where la: "load_and_attach os inet_pton path iface q xfd ip s = (Inr l, s1)"
    and lg: "log_attached os l s1 = (Inr u, s')"
    unfolding XdpLoader_create_def by (auto dest!: ebind_Inr on_error_Inr simp: ereturn_def)
  from println_result [OF lg [unfolded log_attached_def log_line_def]] obtain msg r where
    "sys_trace s' = sys_trace s1 @ [(Println Stderr msg, r)]" by blast
  with load_and_attach_order [OF la] show ?thesis by auto
qed

section \<open>The calls of the loader\<close>

text \<open>Neither creating nor releasing a loader touches memory, the socket or the worker thread.\<close>

definition loader_call :: "syscall \<Rightarrow> bool" where
  "loader_call c \<longleftrightarrow> (case c of
     If_nametoindex _ \<Rightarrow> True | Bpf_object_open _ \<Rightarrow> True | Bpf_object_load _ \<Rightarrow> True | Bpf_object_close _ \<Rightarrow> True
   | Bpf_find_map _ _ \<Rightarrow> True | Bpf_map_fd _ \<Rightarrow> True | Bpf_map_update _ _ _ \<Rightarrow> True | Bpf_map_delete _ _ \<Rightarrow> True
   | Bpf_find_program _ _ \<Rightarrow> True | Bpf_program_fd _ \<Rightarrow> True | Bpf_xdp_attach _ _ _ \<Rightarrow> True
   | Bpf_xdp_detach _ _ \<Rightarrow> True | Println _ _ \<Rightarrow> True | _ \<Rightarrow> False)"

lemma stop_redirect_calls: "calls_only loader_call (\<lambda>s. snd (snd (stop_redirect os l s)))"
  using calls_only_call [of loader_call "Bpf_map_delete (ld_xsk_map_fd l) (ld_queue_id l)" os]
  by (auto simp: stop_redirect_def calls_only_def loader_call_def Let_def split: prod.splits) (metis snd_conv)+

lemma detach_calls: "calls_only loader_call (\<lambda>s. snd (snd (detach os l s)))"
  using calls_only_call [of loader_call "Bpf_xdp_detach (ld_ifindex l) (ld_flags l)" os]
  by (auto simp: detach_def calls_only_def loader_call_def Let_def split: prod.splits) (metis snd_conv)+

lemma loader_release_calls: "calls_only loader_call (\<lambda>s. snd (loader_release os l s))"
  unfolding calls_only_def
proof
  fix s
  obtain x1 l1 s1 where sr: "stop_redirect os l s = (x1, l1, s1)" by (metis prod.exhaust)
  obtain x2 l2 s2 where dt: "detach os l1 s1 = (x2, l2, s2)" by (metis prod.exhaust)
  obtain r s3 where c: "call os (Bpf_object_close (ld_obj l2)) s2 = (r, s3)" by (rule prod.exhaust)
  from stop_redirect_calls [of os l] sr obtain t where "sys_trace s1 = sys_trace s @ t" "\<forall>x \<in> set t. loader_call (fst x)"
    by (auto simp: calls_only_def dest!: spec [of _ s])
  moreover from detach_calls [of os l1] dt obtain u where "sys_trace s2 = sys_trace s1 @ u" "\<forall>x \<in> set u. loader_call (fst x)"
    by (auto simp: calls_only_def dest!: spec [of _ s1])
  ultimately show "\<exists>t. sys_trace (snd (loader_release os l s)) = sys_trace s @ t \<and> (\<forall>x \<in> set t. loader_call (fst x))"
    using call_trace [OF c] sr dt c
    by (intro exI [of _ "t @ u @ (if ld_obj l2 \<noteq> 0 then [(Bpf_object_close (ld_obj l2), r)] else [])"])
      (auto simp: loader_release_def loader_call_def)
qed

lemma attach_program_calls: "emits loader_call (attach_program os i p)"
proof -
  let ?c = "Bpf_xdp_attach i p XDP_FLAGS_SKB_MODE"
  have "emits loader_call (\<lambda>s. let (rc, s) = call os ?c s
      in if rc \<noteq> 0 then let s = s\<lparr>sys_errno := - rc\<rparr> in (Inl (f s), s) else (Inr XDP_FLAGS_SKB_MODE, s))" for f
    unfolding emits_def
  proof
    fix s
    obtain r s1 where c: "call os ?c s = (r, s1)" by (rule prod.exhaust)
    from call_trace [OF c] c show "\<exists>t. sys_trace (snd (let (rc, s) = call os ?c s in if rc \<noteq> 0
        then let s = s\<lparr>sys_errno := - rc\<rparr> in (Inl (f s), s) else (Inr XDP_FLAGS_SKB_MODE, s))) = sys_trace s @ t \<and>
        (\<forall>x \<in> set t. loader_call (fst x))"
      by (intro exI [of _ "[(?c, r)]"]) (simp add: loader_call_def Let_def)
  qed
  then show ?thesis
    unfolding attach_program_def
    by (intro emits_bind emits_call) (auto simp: loader_call_def intro!: emits_rules)
qed

lemma XdpLoader_create_calls: "emits loader_call (XdpLoader_create os inet_pton path iface q xfd ip)"
proof -
  have "emits loader_call (parse_ipv4 inet_pton ip)"
    by (auto simp: parse_ipv4_def emits_pure Let_def split: prod.split)
  then show ?thesis
    unfolding XdpLoader_create_def load_and_attach_def populate_loader_def load_program_def set_filter_def
      find_program_def log_attached_def Let_def
    by (intro emits_rules attach_program_calls loader_release_calls) (simp_all add: loader_call_def)
qed

end
