(* ===== verification/Calibration.thy ===== *)
theory Calibration
  imports Xsk
begin

text \<open>
  \<^verbatim>\<open>include/afxdp/bench.hpp\<close>, \<open>calibrate_tsc\<close>: the worker measures the period of the time stamp
  counter before it starts. The processor, the clock and floating point are parameters: \<open>te_rdtsc i\<close>
  is the \<open>i\<close>-th value of the counter, \<open>te_cpuid leaf\<close> the register \<open>edx\<close> if the leaf exists, the
  system calls give an error number or a result, and \<open>fp_calib\<close> has the operations on \<open>double\<close>.
\<close>

record tsc_env =
  te_cpuid :: "u32 \<Rightarrow> u32 option"
  te_gettime :: "nat \<Rightarrow> int + int \<times> int"
  te_nanosleep :: "nat \<Rightarrow> int option"
  te_rdtsc :: "nat \<Rightarrow> u64"

text \<open>
  \<open>fp_ns\<close> combines seconds and nanoseconds, \<open>fp_short\<close> is the comparison with 100 ms, \<open>fp_per_tick\<close>
  the quotient and \<open>fp_usable\<close> the test for a finite positive number.
\<close>

record 'f fp_calib =
  fp_ns :: "int \<Rightarrow> int \<Rightarrow> 'f"
  fp_short :: "'f \<Rightarrow> bool"
  fp_per_tick :: "'f \<Rightarrow> u64 \<Rightarrow> 'f"
  fp_usable :: "'f \<Rightarrow> bool"

record 'f TscCalibration =
  ns_per_tick :: 'f
  pair_min_ticks :: u64
  pair_median_ticks :: u64

definition EOPNOTSUPP :: int where "EOPNOTSUPP = 95"
definition ERANGE :: int where "ERANGE = 34"

definition cpu_has :: "tsc_env \<Rightarrow> u32 \<Rightarrow> nat \<Rightarrow> bool" where
  "cpu_has E leaf n = (case te_cpuid E leaf of None \<Rightarrow> False | Some edx \<Rightarrow> edx AND push_bit n 1 \<noteq> 0)"

text \<open>\<open>te_nanosleep\<close> is the error number of the \<open>i\<close>-th call, \<open>None\<close> if it slept to the end.\<close>

partial_function (option) sleep_loop :: "tsc_env \<Rightarrow> nat \<Rightarrow> (int + unit) option" where
  "sleep_loop E i =
     (case te_nanosleep E i of
        None \<Rightarrow> Some (Inr ())
      | Some e \<Rightarrow> if e \<noteq> EINTR then Some (Inl e) else sleep_loop E (Suc i))"

definition timer_pairs :: "tsc_env \<Rightarrow> u64 list" where
  "timer_pairs E = map (\<lambda>i. te_rdtsc E (2 * i + 3) - te_rdtsc E (2 * i + 2)) [0..<256]"

definition finish_calibration ::
  "'f fp_calib \<Rightarrow> tsc_env \<Rightarrow> int \<times> int \<Rightarrow> int \<times> int \<Rightarrow> int + 'f TscCalibration" where
  "finish_calibration F E t0 t1 =
     (let c0 = te_rdtsc E 0; c1 = te_rdtsc E 1;
          ns = fp_ns F (fst t1 - fst t0) (snd t1 - snd t0)
      in if c1 \<le> c0 \<or> fp_short F ns then Inl ERANGE
         else let per_tick = fp_per_tick F ns (c1 - c0)
              in if \<not> fp_usable F per_tick then Inl ERANGE
                 else let overhead = sort (timer_pairs E)
                      in Inr \<lparr>ns_per_tick = per_tick, pair_min_ticks = hd overhead,
                              pair_median_ticks = overhead ! (length overhead div 2)\<rparr>)"

definition calibrate_tsc :: "'f fp_calib \<Rightarrow> tsc_env \<Rightarrow> (int + 'f TscCalibration) option" where
  "calibrate_tsc F E =
     (if \<not> cpu_has E 0x80000001 27 then Some (Inl EOPNOTSUPP)
      else if \<not> cpu_has E 0x80000007 8 then Some (Inl EOPNOTSUPP)
      else (case te_gettime E 0 of
              Inl e \<Rightarrow> Some (Inl e)
            | Inr t0 \<Rightarrow> do {
                slept \<leftarrow> sleep_loop E 0;
                (case slept of
                   Inl e \<Rightarrow> Some (Inl e)
                 | Inr _ \<Rightarrow>
                     (case te_gettime E 1 of
                        Inl e \<Rightarrow> Some (Inl e)
                      | Inr t1 \<Rightarrow> Some (finish_calibration F E t0 t1))) }))"

section \<open>Correctness\<close>

text \<open>The loop ends with the first sleep that no signal interrupts.\<close>

lemma sleep_loop_returns:
  assumes "te_nanosleep E j \<noteq> Some EINTR"
  shows "i \<le> j \<Longrightarrow> \<exists>k. i \<le> k \<and> k \<le> j \<and> (\<forall>m \<in> {i..<k}. te_nanosleep E m = Some EINTR) \<and>
    sleep_loop E i = Some (case te_nanosleep E k of None \<Rightarrow> Inr () | Some e \<Rightarrow> Inl e)"
proof (induction "j - i" arbitrary: i)
  case 0
  then have "i = j" by simp
  with assms show ?case by (intro exI [of _ j]) (simp add: sleep_loop.simps [of E j] split: option.splits)
next
  case (Suc n)
  show ?case
  proof (cases "te_nanosleep E i = Some EINTR")
    case False
    with Suc(3) show ?thesis by (intro exI [of _ i]) (simp add: sleep_loop.simps [of E i] split: option.splits)
  next
    case True
    have "n = j - Suc i" "Suc i \<le> j" using Suc(2) by auto
    from Suc(1) [OF this] obtain k where k: "Suc i \<le> k" "k \<le> j" "\<forall>m \<in> {Suc i..<k}. te_nanosleep E m = Some EINTR"
      "sleep_loop E (Suc i) = Some (case te_nanosleep E k of None \<Rightarrow> Inr () | Some e \<Rightarrow> Inl e)" by blast
    have "te_nanosleep E m = Some EINTR" if "m \<in> {i..<k}" for m
      using that k(3) True by (cases "m = i") auto
    with k True show ?thesis by (intro exI [of _ k]) (simp add: sleep_loop.simps [of E i])
  qed
qed

lemma calibrate_tsc_returns:
  assumes "te_nanosleep E j \<noteq> Some EINTR"
  shows "\<exists>res. calibrate_tsc F E = Some res"
  using sleep_loop_returns [OF assms, of 0]
  by (auto simp: calibrate_tsc_def split: sum.splits)

text \<open>The calibration of a processor with an invariant counter: its values come from the measured pairs.\<close>

lemma finish_calibration_Inr:
  assumes "finish_calibration F E t0 t1 = Inr cal"
  shows "te_rdtsc E 0 < te_rdtsc E 1" "fp_usable F (ns_per_tick cal)"
    "ns_per_tick cal = fp_per_tick F (fp_ns F (fst t1 - fst t0) (snd t1 - snd t0)) (te_rdtsc E 1 - te_rdtsc E 0)"
    "pair_min_ticks cal = Min (set (timer_pairs E))" "pair_median_ticks cal = sort (timer_pairs E) ! 128"
proof -
  have len: "length (timer_pairs E) = 256" by (simp add: timer_pairs_def)
  have "hd (sort (timer_pairs E)) = Min (set (timer_pairs E))"
  proof (cases "sort (timer_pairs E)")
    case Nil
    with len show ?thesis by (metis length_sort list.size(3) zero_neq_numeral)
  next
    case (Cons x xs)
    have "sorted (x # xs)" "set (timer_pairs E) = set (x # xs)"
      using sorted_sort set_sort Cons by metis+
    with Cons show ?thesis by (auto intro!: Min_eqI [symmetric])
  qed
  with assms len show "te_rdtsc E 0 < te_rdtsc E 1" "fp_usable F (ns_per_tick cal)"
    "ns_per_tick cal = fp_per_tick F (fp_ns F (fst t1 - fst t0) (snd t1 - snd t0)) (te_rdtsc E 1 - te_rdtsc E 0)"
    "pair_min_ticks cal = Min (set (timer_pairs E))" "pair_median_ticks cal = sort (timer_pairs E) ! 128"
    by (auto simp: finish_calibration_def Let_def not_le split: if_splits)
qed

end
