(* ===== verification/Control.thy ===== *)
theory Control
  imports Socket Reflector
begin

text \<open>
  The control thread of \<^verbatim>\<open>main.cpp\<close>: \<open>RunSummary\<close>, the printing of the kernel statistics, and the loop
  that reports once a second, starts the sampling after the warm-up and stops on a signal or on too
  many rejected frames. What the thread reads from outside (the clock, the flag \<open>g_stop\<close> as signals
  set it, the worker's counters) is a stream indexed by the turn; times are nanoseconds. A line that
  cannot be printed throws, and the exception leaves the loop. The lemmas give the result of the loop
  in closed form.
\<close>

section \<open>Summary of a run\<close>

datatype stop_reason = Stop_signal | Stop_tx_rejection_anomaly

record RunSummary =
  rs_started_unix_seconds :: int
  rs_worker_cpu :: int
  rs_scheduler_policy :: int
  rs_scheduler_priority :: int
  rs_zero_copy :: bool
  rs_native_xdp :: bool
  rs_hugetlb :: bool
  rs_sampling_started :: bool
  rs_csv_exported :: bool
  rs_sampling_start_after :: int
  rs_active_duration :: int
  rs_samples_recorded :: nat
  rs_rx_processed :: u64
  rs_callbacks :: u64
  rs_callback_bytes :: u64
  rs_unsupported :: u64
  rs_tx_staged :: u64
  rs_tx_submitted :: u64
  rs_tx_reclaimed :: u64
  rs_tx_rejected :: u64
  rs_fill_refill_batches :: u64
  rs_tx_retryable_wakeup_errors :: u64
  rs_tx_abandoned :: u32
  rs_rx_first_wakeup_errno :: int
  rs_tx_first_wakeup_errno :: int
  rs_first_kernel_stats_errno :: int
  rs_stop_redirect_errno :: int
  rs_stop_reason :: stop_reason
  rs_kernel_stats :: "int + KernelStats"

definition ENODATA :: int where "ENODATA = 61"
definition TX_REJECTION_LIMIT :: u64 where "TX_REJECTION_LIMIT = 100000"
definition SAMPLE_WARMUP :: int where "SAMPLE_WARMUP = 1000000000"
definition TX_DRAIN_TIMEOUT :: int where "TX_DRAIN_TIMEOUT = 100000000"

definition RunSummary_new :: "int \<Rightarrow> RunSummary" where
  "RunSummary_new time =
     \<lparr>rs_started_unix_seconds = time, rs_worker_cpu = -1, rs_scheduler_policy = -1, rs_scheduler_priority = -1, rs_zero_copy = False, rs_native_xdp = False, rs_hugetlb = False,
      rs_sampling_started = False, rs_csv_exported = False, rs_sampling_start_after = 0,
      rs_active_duration = 0, rs_samples_recorded = 0, rs_rx_processed = 0, rs_callbacks = 0,
      rs_callback_bytes = 0, rs_unsupported = 0, rs_tx_staged = 0, rs_tx_submitted = 0,
      rs_tx_reclaimed = 0, rs_tx_rejected = 0, rs_fill_refill_batches = 0,
      rs_tx_retryable_wakeup_errors = 0, rs_tx_abandoned = 0, rs_rx_first_wakeup_errno = 0,
      rs_tx_first_wakeup_errno = 0, rs_first_kernel_stats_errno = 0, rs_stop_redirect_errno = 0,
      rs_stop_reason = Stop_signal, rs_kernel_stats = Inl ENODATA\<rparr>"

text \<open>The text of the stop reason, and a duration in milliseconds, rounded towards zero.\<close>

fun reason_text :: "stop_reason \<Rightarrow> string" where
  "reason_text Stop_signal = ''signal''"
| "reason_text Stop_tx_rejection_anomaly = ''tx_rejection_anomaly''"

definition milliseconds :: "int \<Rightarrow> int" where
  "milliseconds ns = (if ns \<ge> 0 then ns div 1000000 else - ((- ns) div 1000000))"

section \<open>Kernel statistics\<close>

text \<open>The calls of \<open>fprintf\<close>, format and arguments; the second is made only if the first succeeds.\<close>

definition kernel_stats_calls :: "int + KernelStats \<Rightarrow> (string \<times> arg list) list" where
  "kernel_stats_calls result =
     (case result of
        Inl e \<Rightarrow> [(''kernel_stats_errno=%d'' @ nl, [A_int e])]
      | Inr r \<Rightarrow>
          let s = counters r
          in [(''kernel_stats_returned_bytes=%u'' @ nl @ ''kernel_rx_dropped=%llu'' @ nl @
               ''kernel_rx_invalid_descs=%llu'' @ nl @ ''kernel_tx_invalid_descs=%llu'' @ nl,
               [A_uint (returned_bytes r), A_ulonglong (rx_dropped s), A_ulonglong (rx_invalid_descs s),
                A_ulonglong (tx_invalid_descs s)]),
              if has_ring_counters r
              then (''kernel_rx_ring_full=%llu'' @ nl @ ''kernel_rx_fill_ring_empty_descs=%llu'' @ nl @
                    ''kernel_tx_ring_empty_descs=%llu'' @ nl,
                    [A_ulonglong (rx_ring_full s), A_ulonglong (rx_fill_ring_empty_descs s), A_ulonglong (tx_ring_empty_descs s)])
              else (''kernel_rx_ring_full=unavailable'' @ nl @ ''kernel_rx_fill_ring_empty_descs=unavailable'' @ nl @
                    ''kernel_tx_ring_empty_descs=unavailable'' @ nl, [])])"

text \<open>\<open>pr\<close> writes a text to a stream and gives the value \<open>fprintf\<close> returns.\<close>

fun print_all :: "(string \<Rightarrow> 's \<Rightarrow> int \<times> 's) \<Rightarrow> (string \<times> arg list) list \<Rightarrow> 's \<Rightarrow> int \<times> 's" where
  "print_all pr [] s = (0, s)"
| "print_all pr [(fmt, args)] s = pr (the (printf fmt args)) s"
| "print_all pr ((fmt, args) # cs) s =
     (let (r, s) = pr (the (printf fmt args)) s in if r < 0 then (-1, s) else print_all pr cs s)"

definition print_kernel_stats :: "(string \<Rightarrow> 's \<Rightarrow> int \<times> 's) \<Rightarrow> int + KernelStats \<Rightarrow> 's \<Rightarrow> int \<times> 's" where
  "print_kernel_stats pr result s = print_all pr (kernel_stats_calls result) s"

definition print_stdout :: "os \<Rightarrow> string \<Rightarrow> sys \<Rightarrow> int \<times> sys" where
  "print_stdout os str s = call os (Fprintf Stdout str) s"

section \<open>The loop\<close>

text \<open>
  In turn \<open>i\<close>: the clock, whether a signal is visible at the head of the loop and at the test before
  the sampling starts, and the worker's counters.
\<close>

record control_env =
  ce_now :: "nat \<Rightarrow> int"
  ce_signal :: "nat \<Rightarrow> bool"
  ce_signal_sampling :: "nat \<Rightarrow> bool"
  ce_rstats :: "nat \<Rightarrow> Receiver_Stats"
  ce_tstats :: "nat \<Rightarrow> Transmitter_Stats"
  ce_bench :: "nat \<Rightarrow> BenchStats"

definition ce_rejected :: "control_env \<Rightarrow> nat \<Rightarrow> u64" where
  "ce_rejected E i = st_frames_rejected (ce_tstats E i)"

text \<open>
  \<open>ct_started\<close>: \<open>samples.start()\<close> was called; \<open>ct_stop\<close>: \<open>g_stop\<close> was set, or seen set, here;
  \<open>ct_thrown\<close>: the exception that left the loop.
\<close>

record control =
  ct_run :: RunSummary
  ct_exit :: int
  ct_started :: bool
  ct_last_report :: int
  ct_last_rejected :: u64
  ct_stop :: bool
  ct_thrown :: "exn option"
  ct_sys :: sys

definition start_sampling :: "control_env \<Rightarrow> int \<Rightarrow> nat \<Rightarrow> control \<Rightarrow> control" where
  "start_sampling E activated_at i k =
     (let now = ce_now E i
      in if \<not> rs_sampling_started (ct_run k) \<and> now - activated_at \<ge> SAMPLE_WARMUP \<and>
            \<not> (ct_stop k \<or> ce_signal_sampling E i)
         then k\<lparr>ct_started := True,
                ct_run := (ct_run k)\<lparr>rs_sampling_started := True, rs_sampling_start_after := now - activated_at\<rparr>\<rparr>
         else k)"

definition report_line :: "int \<Rightarrow> Receiver_Stats \<Rightarrow> Transmitter_Stats \<Rightarrow> BenchStats \<Rightarrow> message" where
  "report_line elapsed_ms r t b =
     [Str ''[stats cumulative] report_interval='', Num elapsed_ms,
      Str ''ms | rx_frames_processed='', Wnum (st_packets_received r),
      Str '' | fill_refill_batches='', Wnum (st_fill_refills r),
      Str '' | tx_frames_submitted='', Wnum (st_frames_submitted t),
      Str '' | tx_frames_reclaimed='', Wnum (st_frames_reclaimed t),
      Str '' | tx_frames_rejected='', Wnum (st_frames_rejected t),
      Str '' | callbacks='', Wnum (b_callbacks b), Str '' | callback_bytes='', Wnum (b_bytes b),
      Str '' | tx_frames_staged='', Wnum (b_staged b), Str '' | unsupported_frames='', Wnum (b_unsupported b),
      Str '' | tx_retryable_wakeup_errors='', Wnum (st_retryable_wakeup_errors t),
      Str '' | tx_first_wakeup_errno='', Num (st_tx_first_wakeup_error t),
      Str '' | rx_first_wakeup_errno='', Num (st_rx_first_wakeup_error r)]"

text \<open>The statistics are stored; the first error is remembered, and any error fails the run.\<close>

definition note_kernel_stats :: "int + KernelStats \<Rightarrow> RunSummary \<Rightarrow> int \<Rightarrow> RunSummary \<times> int" where
  "note_kernel_stats st summary exit_code =
     (let summary = summary\<lparr>rs_kernel_stats := st\<rparr>
      in case st of
           Inr _ \<Rightarrow> (summary, exit_code)
         | Inl e \<Rightarrow> (if rs_first_kernel_stats_errno summary = 0 then summary\<lparr>rs_first_kernel_stats_errno := e\<rparr> else summary, 1))"

text \<open>The anomaly is printed before it is noted.\<close>

definition check_rejections :: "os \<Rightarrow> int \<Rightarrow> u64 \<Rightarrow> control \<Rightarrow> control" where
  "check_rejections os elapsed_ms rejected k =
     (let rejected_in_window = rejected - ct_last_rejected k
      in if rejected_in_window > TX_REJECTION_LIMIT
         then case try_print os Stderr
                     [Str ''[control] TX staging rejection anomaly ('', Wnum rejected_in_window, Str '' in '', Num elapsed_ms,
                      Str (''ms) '' @ em_dash @ '' shutting down'')] (ct_sys k) of
                (Some e, s) \<Rightarrow> k\<lparr>ct_sys := s, ct_thrown := Some e\<rparr>
              | (None, s) \<Rightarrow> k\<lparr>ct_sys := s, ct_run := (ct_run k)\<lparr>rs_stop_reason := Stop_tx_rejection_anomaly\<rparr>,
                              ct_exit := 1, ct_stop := True\<rparr>
         else k)"

definition control_turn ::
  "os \<Rightarrow> ((syscall \<times> int) list \<Rightarrow> xdp_statistics \<times> u32) \<Rightarrow> int \<Rightarrow> control_env \<Rightarrow> int \<Rightarrow> nat \<Rightarrow> control \<Rightarrow> control" where
  "control_turn os filled fd E activated_at i k =
     (let k = start_sampling E activated_at i k;
          elapsed_ms = milliseconds (ce_now E i - ct_last_report k)
      in case try_print os Stdout (report_line elapsed_ms (ce_rstats E i) (ce_tstats E i) (ce_bench E i)) (ct_sys k) of
           (Some e, s) \<Rightarrow> k\<lparr>ct_sys := s, ct_thrown := Some e\<rparr>
         | (None, s) \<Rightarrow>
             let (st, s) = kernel_stats os filled fd s;
                 (_, s) = print_kernel_stats (print_stdout os) st s;
                 (summary, exit_code) = note_kernel_stats st (ct_run k) (ct_exit k);
                 k = k\<lparr>ct_run := summary, ct_exit := exit_code, ct_sys := s\<rparr>;
                 k = check_rejections os elapsed_ms (ce_rejected E i) k
             in if ct_thrown k \<noteq> None then k
                else k\<lparr>ct_last_rejected := ce_rejected E i, ct_last_report := ce_now E i\<rparr>)"

text \<open>The loop gives the number of turns and the state.\<close>

partial_function (option) control_loop ::
  "os \<Rightarrow> ((syscall \<times> int) list \<Rightarrow> xdp_statistics \<times> u32) \<Rightarrow> int \<Rightarrow> control_env \<Rightarrow> int \<Rightarrow> nat \<Rightarrow> control \<Rightarrow>
   (nat \<times> control) option" where
  "control_loop os filled fd E activated_at i k =
     (if ct_thrown k \<noteq> None \<or> ct_stop k \<or> ce_signal E i then Some (i, k)
      else control_loop os filled fd E activated_at (Suc i) (control_turn os filled fd E activated_at i k))"

section \<open>The loop in closed form\<close>

fun turns ::
  "os \<Rightarrow> ((syscall \<times> int) list \<Rightarrow> xdp_statistics \<times> u32) \<Rightarrow> int \<Rightarrow> control_env \<Rightarrow> int \<Rightarrow> nat \<Rightarrow> control \<Rightarrow> control" where
  "turns os filled fd E activated_at 0 k = k"
| "turns os filled fd E activated_at (Suc m) k =
     control_turn os filled fd E activated_at m (turns os filled fd E activated_at m k)"

text \<open>The rejected frames between two reports, and the turns in which the sampling may start.\<close>

definition rejected_window :: "control_env \<Rightarrow> nat \<Rightarrow> u64" where
  "rejected_window E i = ce_rejected E i - (if i = 0 then 0 else ce_rejected E (i - 1))"

definition may_sample :: "control_env \<Rightarrow> int \<Rightarrow> nat \<Rightarrow> bool" where
  "may_sample E activated_at i \<longleftrightarrow> ce_now E i - activated_at \<ge> SAMPLE_WARMUP \<and> \<not> ce_signal_sampling E i"

definition fresh_control :: "control \<Rightarrow> bool" where
  "fresh_control k \<longleftrightarrow> \<not> ct_started k \<and> \<not> rs_sampling_started (ct_run k) \<and> ct_last_rejected k = 0 \<and>
     ct_thrown k = None \<and> ct_exit k = 0 \<and> rs_stop_reason (ct_run k) = Stop_signal \<and> rs_first_kernel_stats_errno (ct_run k) = 0"

lemma start_sampling_simps:
  defines "now \<equiv> \<lambda>E a i k. \<not> rs_sampling_started (ct_run k) \<and> may_sample E a i \<and> \<not> ct_stop k"
  shows "ct_stop (start_sampling E a i k) = ct_stop k" "ct_exit (start_sampling E a i k) = ct_exit k"
    "ct_last_rejected (start_sampling E a i k) = ct_last_rejected k"
    "rs_stop_reason (ct_run (start_sampling E a i k)) = rs_stop_reason (ct_run k)"
    "rs_first_kernel_stats_errno (ct_run (start_sampling E a i k)) = rs_first_kernel_stats_errno (ct_run k)"
    "ct_started (start_sampling E a i k) = (ct_started k \<or> now E a i k)"
    "rs_sampling_started (ct_run (start_sampling E a i k)) =
      (rs_sampling_started (ct_run k) \<or> may_sample E a i \<and> \<not> ct_stop k)"
    "rs_sampling_start_after (ct_run (start_sampling E a i k)) =
      (if now E a i k then ce_now E i - a else rs_sampling_start_after (ct_run k))"
    "ct_thrown (start_sampling E a i k) = ct_thrown k" "ct_sys (start_sampling E a i k) = ct_sys k"
    "rs_stop_redirect_errno (ct_run (start_sampling E a i k)) = rs_stop_redirect_errno (ct_run k)"
  by (auto simp: now_def start_sampling_def may_sample_def Let_def)

lemma check_rejections_None:
  assumes "ct_thrown (check_rejections os ms n k) = None"
  shows "ct_thrown k = None \<and> (\<exists>s. check_rejections os ms n k =
    (if n - ct_last_rejected k > TX_REJECTION_LIMIT
     then k\<lparr>ct_sys := s, ct_run := (ct_run k)\<lparr>rs_stop_reason := Stop_tx_rejection_anomaly\<rparr>, ct_exit := 1, ct_stop := True\<rparr>
     else k))"
proof (cases "n - ct_last_rejected k > TX_REJECTION_LIMIT")
  case True
  obtain e s where p: "try_print os Stderr [Str ''[control] TX staging rejection anomaly ('', Wnum (n - ct_last_rejected k),
      Str '' in '', Num ms, Str (''ms) '' @ em_dash @ '' shutting down'')] (ct_sys k) = (e, s)" by (rule prod.exhaust)
  with assms True show ?thesis
    by (intro conjI exI [of _ s]) (simp_all add: check_rejections_def Let_def split: option.splits)
qed (use assms in \<open>simp add: check_rejections_def\<close>)

text \<open>A turn that no exception ends.\<close>

lemma control_turn_cases:
  assumes "k' = control_turn os filled fd E a i k" "ct_thrown k' = None"
  obtains st s1 s2 where "ct_thrown k = None" "k' = (let k0 = start_sampling E a i k;
      (summary, exit_code) = note_kernel_stats st (ct_run k0) (ct_exit k0);
      k1 = k0\<lparr>ct_run := summary, ct_exit := exit_code, ct_sys := s1\<rparr>;
      k2 = (if ce_rejected E i - ct_last_rejected k > TX_REJECTION_LIMIT
            then k1\<lparr>ct_sys := s2, ct_run := (ct_run k1)\<lparr>rs_stop_reason := Stop_tx_rejection_anomaly\<rparr>, ct_exit := 1, ct_stop := True\<rparr>
            else k1)
    in k2\<lparr>ct_last_rejected := ce_rejected E i, ct_last_report := ce_now E i\<rparr>)"
proof -
  define k0 where "k0 = start_sampling E a i k"
  let ?ms = "milliseconds (ce_now E i - ct_last_report k0)"
  obtain e1 s1 where p1: "try_print os Stdout (report_line ?ms (ce_rstats E i) (ce_tstats E i) (ce_bench E i)) (ct_sys k0) = (e1, s1)"
    by (rule prod.exhaust)
  obtain st s2 where ks: "kernel_stats os filled fd s1 = (st, s2)" by (rule prod.exhaust)
  obtain r3 s3 where pk: "print_kernel_stats (print_stdout os) st s2 = (r3, s3)" by (rule prod.exhaust)
  obtain summary c where nk: "note_kernel_stats st (ct_run k0) (ct_exit k0) = (summary, c)" by (rule prod.exhaust)
  define k1 where "k1 = k0\<lparr>ct_run := summary, ct_exit := c, ct_sys := s3\<rparr>"
  have k': "k' = (check_rejections os ?ms (ce_rejected E i) k1)\<lparr>ct_last_rejected := ce_rejected E i,
      ct_last_report := ce_now E i\<rparr>" and nt: "ct_thrown (check_rejections os ?ms (ce_rejected E i) k1) = None"
    using assms p1 ks pk nk
    by (auto simp: control_turn_def k0_def [symmetric] k1_def Let_def split: option.splits if_splits)
  have same: "ct_last_rejected k1 = ct_last_rejected k" "ct_thrown k1 = ct_thrown k"
    by (simp_all add: k1_def k0_def start_sampling_simps)
  from check_rejections_None [OF nt] obtain s4 where "ct_thrown k = None" "check_rejections os ?ms (ce_rejected E i) k1 =
    (if ce_rejected E i - ct_last_rejected k > TX_REJECTION_LIMIT
     then k1\<lparr>ct_sys := s4, ct_run := (ct_run k1)\<lparr>rs_stop_reason := Stop_tx_rejection_anomaly\<rparr>, ct_exit := 1, ct_stop := True\<rparr>
     else k1)" unfolding same by blast
  with k' show thesis
    by (intro that [of st s3 s4]) (simp_all only: Let_def k0_def [symmetric] nk prod.case k1_def [symmetric])
qed

lemma turn_thrown: "ct_thrown (control_turn os filled fd E a i k) = None \<Longrightarrow> ct_thrown k = None"
  by (rule control_turn_cases [OF refl]) auto

lemma turn_simps:
  assumes "k' = control_turn os filled fd E a i k" "ct_thrown k' = None"
  shows "ct_last_rejected k' = ce_rejected E i" "ct_started k' = (ct_started k \<or>
      \<not> rs_sampling_started (ct_run k) \<and> may_sample E a i \<and> \<not> ct_stop k)"
    "rs_sampling_started (ct_run k') = (rs_sampling_started (ct_run k) \<or> may_sample E a i \<and> \<not> ct_stop k)"
    "ct_stop k' = (ct_stop k \<or> ce_rejected E i - ct_last_rejected k > TX_REJECTION_LIMIT)"
    "ct_exit k' = (if ce_rejected E i - ct_last_rejected k > TX_REJECTION_LIMIT \<or> isl (rs_kernel_stats (ct_run k'))
       then 1 else ct_exit k)"
    "rs_stop_reason (ct_run k') = (if ce_rejected E i - ct_last_rejected k > TX_REJECTION_LIMIT
       then Stop_tx_rejection_anomaly else rs_stop_reason (ct_run k))"
    "rs_sampling_start_after (ct_run k') = (if \<not> rs_sampling_started (ct_run k) \<and> may_sample E a i \<and> \<not> ct_stop k
       then ce_now E i - a else rs_sampling_start_after (ct_run k))"
    "rs_first_kernel_stats_errno (ct_run k') = (case rs_kernel_stats (ct_run k') of
        Inl e \<Rightarrow> if rs_first_kernel_stats_errno (ct_run k) = 0 then e else rs_first_kernel_stats_errno (ct_run k)
      | Inr _ \<Rightarrow> rs_first_kernel_stats_errno (ct_run k))"
    "rs_stop_redirect_errno (ct_run k') = rs_stop_redirect_errno (ct_run k)"
  by (rule control_turn_cases [OF assms],
      simp add: note_kernel_stats_def Let_def start_sampling_simps split: sum.split)+

lemma turns_thrown: "ct_thrown (turns os filled fd E a m k) = None \<Longrightarrow> i \<le> m \<Longrightarrow> ct_thrown (turns os filled fd E a i k) = None"
proof (induction m)
  case (Suc m)
  from turn_thrown [of os filled fd E a m] Suc.prems(1) have "ct_thrown (turns os filled fd E a m k) = None" by simp
  with Suc show ?case by (cases "i = Suc m") auto
qed simp

lemmas turns_simps = turn_simps [OF turns.simps(2)]

lemma turns_last_rejected:
  assumes "fresh_control k" "ct_thrown (turns os filled fd E a m k) = None"
  shows "ce_rejected E m - ct_last_rejected (turns os filled fd E a m k) = rejected_window E m"
  using assms by (cases m) (simp_all add: turns_simps(1) rejected_window_def fresh_control_def del: turns.simps(2))

text \<open>
  The state after \<open>m\<close> turns that no exception ended. An induction over the turns has this prefix: the
  turn before was not ended by an exception either, and the window of the last turn is known.
\<close>

lemma turns_induct [consumes 2, case_names zero turn]:
  assumes "fresh_control k" "ct_thrown (turns os filled fd E a m k) = None"
    and "P 0"
    and "\<And>n. ct_thrown (turns os filled fd E a (Suc n) k) = None \<Longrightarrow> ct_thrown (turns os filled fd E a n k) = None \<Longrightarrow>
      ce_rejected E n - ct_last_rejected (turns os filled fd E a n k) = rejected_window E n \<Longrightarrow> P n \<Longrightarrow> P (Suc n)"
  shows "P m"
  using assms(2)
proof (induction m)
  case (Suc m)
  have "ct_thrown (turns os filled fd E a m k) = None" using turns_thrown [OF Suc.prems, of m] by simp
  with Suc assms(4) turns_last_rejected [OF assms(1)] show ?case by blast
qed (rule assms(3))

lemma turns_stop:
  assumes "fresh_control k" "ct_thrown (turns os filled fd E a m k) = None"
  shows "ct_stop (turns os filled fd E a m k) = (ct_stop k \<or> (\<exists>i < m. rejected_window E i > TX_REJECTION_LIMIT))"
  using assms
proof (induction rule: turns_induct)
  case (turn m)
  then show ?case unfolding turns_simps(4) [OF turn(1)] turn(3) less_Suc_eq by blast
qed simp

lemma turns_stop_reason:
  assumes "fresh_control k" "ct_thrown (turns os filled fd E a m k) = None"
  shows "(rs_stop_reason (ct_run (turns os filled fd E a m k)) = Stop_signal) = (\<forall>i < m. rejected_window E i \<le> TX_REJECTION_LIMIT)"
  using assms
proof (induction rule: turns_induct)
  case zero
  then show ?case using assms by (simp add: fresh_control_def)
next
  case (turn m)
  then show ?case unfolding turns_simps(6) [OF turn(1)] turn(3) less_Suc_eq by (auto simp: not_less)
qed

lemma turns_exit:
  assumes "fresh_control k" "ct_thrown (turns os filled fd E a m k) = None"
  shows "ct_exit (turns os filled fd E a m k) =
    (if \<exists>i < m. rejected_window E i > TX_REJECTION_LIMIT \<or> isl (rs_kernel_stats (ct_run (turns os filled fd E a (Suc i) k)))
     then 1 else 0)"
  using assms
proof (induction rule: turns_induct)
  case zero
  then show ?case using assms by (simp add: fresh_control_def)
next
  case (turn m)
  then show ?case unfolding turns_simps(5) [OF turn(1)] turn(3) less_Suc_eq by (auto simp del: turns.simps(2))
qed

lemma turns_sampling:
  assumes "fresh_control k" "ct_thrown (turns os filled fd E a m k) = None"
  shows "ct_started (turns os filled fd E a m k) = rs_sampling_started (ct_run (turns os filled fd E a m k)) \<and>
    rs_sampling_started (ct_run (turns os filled fd E a m k)) =
      (\<exists>i < m. may_sample E a i \<and> \<not> ct_stop (turns os filled fd E a i k)) \<and>
    (rs_sampling_started (ct_run (turns os filled fd E a m k)) \<longrightarrow>
      rs_sampling_start_after (ct_run (turns os filled fd E a m k)) \<ge> SAMPLE_WARMUP)"
  using assms
proof (induction rule: turns_induct)
  case zero
  then show ?case using assms by (simp add: fresh_control_def)
next
  case (turn m)
  have "may_sample E a m \<Longrightarrow> ce_now E m - a \<ge> SAMPLE_WARMUP" by (simp add: may_sample_def)
  with turn show ?case
    unfolding turns_simps(2,3,7) [OF turn(1)] less_Suc_eq by auto
qed

text \<open>The first error of the statistics that is not 0 is kept.\<close>

lemma turns_first_errno:
  assumes "fresh_control k" "ct_thrown (turns os filled fd E a m k) = None"
  shows "rs_first_kernel_stats_errno (ct_run (turns os filled fd E a m k)) =
    (case filter (\<lambda>st. isl st \<and> projl st \<noteq> 0) (map (\<lambda>i. rs_kernel_stats (ct_run (turns os filled fd E a (Suc i) k))) [0..<m]) of
       [] \<Rightarrow> 0 | st # _ \<Rightarrow> projl st)"
  using assms
proof (induction rule: turns_induct)
  case zero
  then show ?case using assms by (simp add: fresh_control_def)
next
  case (turn m)
  show ?case
    unfolding turns_simps(8) [OF turn(1)] turn(4)
    by (auto simp del: turns.simps(2) split: list.splits sum.splits dest!: filter_eq_ConsD)
qed

section \<open>The loop returns\<close>

definition loop_ends :: "control_env \<Rightarrow> nat \<Rightarrow> control \<Rightarrow> bool" where
  "loop_ends E i k \<longleftrightarrow> ct_thrown k \<noteq> None \<or> ct_stop k \<or> ce_signal E i"

lemma control_loop_turns:
  assumes "ce_signal E j"
  shows "i \<le> j \<Longrightarrow> \<exists>m. i \<le> m \<and> m \<le> j \<and>
    control_loop os filled fd E a i (turns os filled fd E a i k) = Some (m, turns os filled fd E a m k) \<and>
    loop_ends E m (turns os filled fd E a m k) \<and> (\<forall>n \<in> {i..<m}. \<not> loop_ends E n (turns os filled fd E a n k))"
proof (induction "j - i" arbitrary: i)
  case 0
  then have "i = j" by simp
  with assms show ?case by (intro exI [of _ j]) (simp add: control_loop.simps loop_ends_def)
next
  case (Suc n)
  show ?case
  proof (cases "loop_ends E i (turns os filled fd E a i k)")
    case True
    with Suc(3) show ?thesis by (intro exI [of _ i]) (simp add: control_loop.simps loop_ends_def)
  next
    case False
    have "n = j - Suc i" "Suc i \<le> j" using Suc(2) by auto
    from Suc(1) [OF this] obtain m where m: "Suc i \<le> m" "m \<le> j"
      "control_loop os filled fd E a (Suc i) (turns os filled fd E a (Suc i) k) = Some (m, turns os filled fd E a m k)"
      "loop_ends E m (turns os filled fd E a m k)"
      "\<forall>n \<in> {Suc i..<m}. \<not> loop_ends E n (turns os filled fd E a n k)" by blast
    have "\<not> loop_ends E n (turns os filled fd E a n k)" if "n \<in> {i..<m}" for n
      using that m(5) False by (cases "n = i") auto
    with m False show ?thesis
      by (intro exI [of _ m]) (simp add: control_loop.simps [of os filled fd E a i] loop_ends_def)
  qed
qed

text \<open>An exception is that of a line that could not be printed, and this was the last call.\<close>

definition print_failed :: "sys \<Rightarrow> bool" where
  "print_failed s \<longleftrightarrow> (\<exists>t st msg r. sys_trace s = t @ [(Println st msg, r)] \<and> r < 0)"

lemma try_print_failed: "try_print os st msg s = (Some e, s') \<Longrightarrow> print_failed s'"
  by (auto simp: try_print_def print_failed_def Let_def split: prod.splits if_splits dest: call_trace)

lemma control_turn_failed:
  assumes "ct_thrown k = None" "ct_thrown (control_turn os filled fd E a i k) \<noteq> None"
  shows "print_failed (ct_sys (control_turn os filled fd E a i k))"
proof -
  have chk: "ct_thrown k1 = None \<Longrightarrow> ct_thrown (check_rejections os ms n k1) \<noteq> None \<Longrightarrow>
      print_failed (ct_sys (check_rejections os ms n k1))" for ms n k1
    by (auto simp: check_rejections_def Let_def split: if_splits prod.splits option.splits dest: try_print_failed)
  define k0 where "k0 = start_sampling E a i k"
  let ?ms = "milliseconds (ce_now E i - ct_last_report k0)"
  obtain e1 s1 where p1: "try_print os Stdout (report_line ?ms (ce_rstats E i) (ce_tstats E i) (ce_bench E i)) (ct_sys k0) = (e1, s1)"
    by (rule prod.exhaust)
  obtain st s2 where ks: "kernel_stats os filled fd s1 = (st, s2)" by (rule prod.exhaust)
  obtain r3 s3 where pk: "print_kernel_stats (print_stdout os) st s2 = (r3, s3)" by (rule prod.exhaust)
  obtain summary c where nk: "note_kernel_stats st (ct_run k0) (ct_exit k0) = (summary, c)" by (rule prod.exhaust)
  have "ct_thrown k0 = None" using assms(1) by (simp add: k0_def start_sampling_simps)
  with assms(2) p1 ks pk nk chk try_print_failed [of os] show ?thesis
    by (cases e1) (auto simp: control_turn_def k0_def [symmetric] Let_def split: if_splits)
qed

text \<open>Only the last turn can see too many rejections, and it ends the loop.\<close>

lemma control_loop_result:
  assumes "fresh_control k" "\<not> ct_stop k" "ce_signal E j"
  shows "\<exists>m. m \<le> j \<and> control_loop os filled fd E a 0 k = Some (m, turns os filled fd E a m k) \<and>
    (\<forall>i < m. \<not> ce_signal E i) \<and>
    (ct_thrown (turns os filled fd E a m k) = None \<longrightarrow>
      (\<forall>i < m. Suc i < m \<longrightarrow> rejected_window E i \<le> TX_REJECTION_LIMIT) \<and>
      (ce_signal E m \<or> 0 < m \<and> rejected_window E (m - 1) > TX_REJECTION_LIMIT)) \<and>
    (ct_thrown (turns os filled fd E a m k) \<noteq> None \<longrightarrow> print_failed (ct_sys (turns os filled fd E a m k)))"
proof -
  from control_loop_turns [OF assms(3), of 0 os filled fd a k] obtain m where
    m: "m \<le> j" "control_loop os filled fd E a 0 k = Some (m, turns os filled fd E a m k)"
      "loop_ends E m (turns os filled fd E a m k)"
      "\<forall>n < m. \<not> loop_ends E n (turns os filled fd E a n k)" by auto
  have small: "rejected_window E i \<le> TX_REJECTION_LIMIT" if "i < m" "Suc i < m" for i
  proof -
    have "ct_thrown (turns os filled fd E a (Suc i) k) = None" "\<not> ct_stop (turns os filled fd E a (Suc i) k)"
      using m(4) that(2) unfolding loop_ends_def by blast+
    with turns_stop [OF assms(1) this(1)] show ?thesis by (metis lessI not_less)
  qed
  have "0 < m \<and> rejected_window E (m - 1) > TX_REJECTION_LIMIT"
    if "\<not> ce_signal E m" "ct_thrown (turns os filled fd E a m k) = None"
  proof -
    from that m(3) turns_stop [OF assms(1) that(2)] assms(2) obtain i where
      i: "i < m" "rejected_window E i > TX_REJECTION_LIMIT" by (auto simp: loop_ends_def)
    with small [of i] have "i = m - 1" by (metis Suc_lessI diff_Suc_1 not_less)
    with i show ?thesis by simp
  qed
  moreover have "print_failed (ct_sys (turns os filled fd E a m k))" if t: "ct_thrown (turns os filled fd E a m k) \<noteq> None"
  proof -
    from t assms(1) obtain n where n: "m = Suc n" by (cases m) (auto simp: fresh_control_def)
    with m(4) have "ct_thrown (turns os filled fd E a n k) = None" by (auto simp: loop_ends_def)
    from control_turn_failed [OF this] t n show ?thesis by simp
  qed
  moreover have "\<forall>i < m. \<not> ce_signal E i" using m(4) by (auto simp: loop_ends_def)
  ultimately show ?thesis using m(1,2) small by (intro exI [of _ m] conjI impI) auto
qed

section \<open>The calls of the loop\<close>

text \<open>The loop prints and reads the statistics, nothing else.\<close>

definition control_call :: "syscall \<Rightarrow> bool" where
  "control_call c \<longleftrightarrow> (case c of Println _ _ \<Rightarrow> True | Fprintf _ _ \<Rightarrow> True | Getsockopt_statistics _ \<Rightarrow> True | _ \<Rightarrow> False)"

lemma try_print_called: "try_print os st msg s = (e, s') \<Longrightarrow> called control_call s s'"
  by (auto simp: try_print_def control_call_def split: prod.splits intro: called_call)

lemma print_all_called: "print_all (print_stdout os) cs s = (r, s') \<Longrightarrow> called control_call s s'"
proof (induction "print_stdout os" cs s arbitrary: r s' rule: print_all.induct)
  case (3 fmt args c cs s)
  obtain r1 s1 where c: "print_stdout os (the (printf fmt args)) s = (r1, s1)" by (rule prod.exhaust)
  have "called control_call s s1" using c by (auto simp: print_stdout_def control_call_def intro: called_call)
  with 3 c show ?case by (auto split: if_splits intro: called_trans)
qed (auto simp: print_stdout_def control_call_def called_refl intro: called_call)

lemma kernel_stats_called: "kernel_stats os filled fd s = (st, s') \<Longrightarrow> called control_call s s'"
  by (auto simp: kernel_stats_def control_call_def Let_def split: prod.splits if_splits intro: called_call)

lemma control_turn_called: "called control_call (ct_sys k) (ct_sys (control_turn os filled fd E a i k))"
proof -
  define k0 where "k0 = start_sampling E a i k"
  let ?ms = "milliseconds (ce_now E i - ct_last_report k0)"
  obtain e1 s1 where p1: "try_print os Stdout (report_line ?ms (ce_rstats E i) (ce_tstats E i) (ce_bench E i)) (ct_sys k0) = (e1, s1)"
    by (rule prod.exhaust)
  obtain st s2 where ks: "kernel_stats os filled fd s1 = (st, s2)" by (rule prod.exhaust)
  obtain r3 s3 where pk: "print_kernel_stats (print_stdout os) st s2 = (r3, s3)" by (rule prod.exhaust)
  have c1: "called control_call (ct_sys k) s1" using try_print_called [OF p1] by (simp add: k0_def start_sampling_simps)
  have c3: "called control_call (ct_sys k) s3"
    using called_trans [OF called_trans [OF c1 kernel_stats_called [OF ks]] print_all_called [OF pk [unfolded print_kernel_stats_def]]] .
  have "called control_call (ct_sys k1) (ct_sys (check_rejections os ms n k1))" for ms n k1
    by (auto simp: check_rejections_def Let_def called_refl split: prod.split option.split intro: try_print_called)
  then have c4: "called control_call (ct_sys k) (ct_sys (check_rejections os ?ms n k1))" if "ct_sys k1 = s3" for n k1
    using called_trans [OF c3] that by metis
  obtain summary c where nk: "note_kernel_stats st (ct_run k0) (ct_exit k0) = (summary, c)" by (rule prod.exhaust)
  show ?thesis
  proof (cases e1)
    case None
    with p1 ks pk nk show ?thesis by (simp add: control_turn_def k0_def [symmetric] Let_def c4)
  next
    case (Some e)
    with p1 c1 show ?thesis by (simp add: control_turn_def k0_def [symmetric] Let_def)
  qed
qed

lemma control_loop_called:
  "control_loop os filled fd E a i k = Some mk \<Longrightarrow> called control_call (ct_sys k) (ct_sys (snd mk))"
proof (induction rule: control_loop.raw_induct [rotated, consumes 1, case_names step])
  case (step f os filled fd E a i k mk)
  show ?case
  proof (cases "ct_thrown k \<noteq> None \<or> ct_stop k \<or> ce_signal E i")
    case True
    with step(2) show ?thesis by (auto simp: called_refl)
  next
    case False
    with step(2) have "f os filled fd E a (Suc i) (control_turn os filled fd E a i k) = Some mk" by simp
    from called_trans [OF control_turn_called step(1) [OF this]] show ?thesis .
  qed
qed

lemma control_call_res: "control_call c \<Longrightarrow> acquires (c, r) = {#} \<and> releases (c, r) = {#}"
  by (cases c) (simp_all add: control_call_def)

lemma called_holds:
  assumes "called control_call s s'" "holds_after s0 R s"
  shows "holds_after s0 R s'"
proof -
  from assms obtain t u where t: "sys_trace s = sys_trace s0 @ t" "acquired t = released t + R"
    "sys_trace s' = sys_trace s @ u" "\<forall>x \<in> set u. control_call (fst x)" by (auto simp: called_def holds_after_def)
  have "acquires x = {#} \<and> releases x = {#}" if "x \<in> set u" for x
    using that t(4) control_call_res [of "fst x" "snd x"] by simp
  then have "acquired u = {#}" "released u = {#}" unfolding acquired_def released_def by (simp_all cong: map_cong)
  with t show ?thesis unfolding holds_after_def by (intro exI [of _ "t @ u"]) (simp add: acquired_def released_def)
qed

lemma control_loop_holds:
  assumes "control_loop os filled fd E a i k = Some mk" "holds_after s0 R (ct_sys k)"
  shows "holds_after s0 R (ct_sys (snd mk))"
  using called_holds [OF control_loop_called [OF assms(1)] assms(2)] .

end
