(* ===== verification/Command_Line.thy ===== *)
theory Command_Line
  imports System
begin

text \<open>
  \<^verbatim>\<open>main.cpp\<close>: the command line (\<open>Args\<close>, \<open>parse_args\<close>) with the number parsing of the standard
  library it uses (\<open>std::stoul\<close>, \<open>std::stoi\<close>), the usage text, and the installation of the signal
  handlers.
\<close>

section \<open>Numbers\<close>

definition is_space :: "char \<Rightarrow> bool" where
  "is_space c \<longleftrightarrow> c \<in> set '' '' \<or> of_char c \<in> {9 .. 13 :: nat}"

text \<open>\<open>strtoul\<close> and \<open>strtol\<close>, base 10: white space, a sign, and the longest run of digits.\<close>

definition scan_number :: "string \<Rightarrow> exn + bool \<times> nat" where
  "scan_number str =
     (let str = dropWhile is_space str;
          (neg, str) = (case str of c # cs \<Rightarrow> if c = CHR ''-'' then (True, cs)
                                       else if c = CHR ''+'' then (False, cs) else (False, str)
                                | [] \<Rightarrow> (False, []));
          ds = takeWhile is_digit str
      in if ds = [] then Inl invalid_argument else Inr (neg, digits_val ds))"

text \<open>A 64-bit result; a negative number wraps around.\<close>

definition stoul :: "string \<Rightarrow> exn + u64" where
  "stoul str =
     (case scan_number str of
        Inl e \<Rightarrow> Inl e
      | Inr (neg, n) \<Rightarrow> if 2 ^ 64 \<le> n then Inl out_of_range else Inr (if neg then - of_nat n else of_nat n))"

definition stoi :: "string \<Rightarrow> exn + int" where
  "stoi str =
     (case scan_number str of
        Inl e \<Rightarrow> Inl e
      | Inr (neg, n) \<Rightarrow>
          let v = (if neg then - int n else int n)
          in if v < - (2 ^ 31) \<or> 2 ^ 31 \<le> v then Inl out_of_range else Inr v)"

section \<open>Arguments\<close>

record Args =
  a_iface :: string
  a_filter_ip :: string
  a_queue :: u32
  a_cpu_pin :: int
  a_realtime :: bool
  a_huge_pages :: bool
  a_zerocopy :: bool

definition default_args :: Args where
  "default_args = \<lparr>a_iface = ''eth0'', a_filter_ip = ''0.0.0.0'', a_queue = 0, a_cpu_pin = -1,
     a_realtime = False, a_huge_pages = True, a_zerocopy = True\<rparr>"

text \<open>
  The loop over \<open>argv[1 ..]\<close>. An option that takes a value but is the last argument falls through to
  the usage branch, like an unknown one.
\<close>

function parse_loop :: "string list \<Rightarrow> Args \<Rightarrow> bool \<Rightarrow> exn + (Args \<times> bool) option" where
  "parse_loop argv a got_filter =
     (case argv of
        [] \<Rightarrow> Inr (Some (a, got_filter))
      | arg # rest \<Rightarrow>
          if arg = ''-i'' \<and> rest \<noteq> [] then parse_loop (tl rest) (a\<lparr>a_iface := hd rest\<rparr>) got_filter
          else if arg = ''-f'' \<and> rest \<noteq> [] then parse_loop (tl rest) (a\<lparr>a_filter_ip := hd rest\<rparr>) True
          else if arg = ''-q'' \<and> rest \<noteq> []
          then (case stoul (hd rest) of
                  Inl e \<Rightarrow> Inl e
                | Inr n \<Rightarrow> parse_loop (tl rest) (a\<lparr>a_queue := ucast n\<rparr>) got_filter)
          else if arg = ''-c'' \<and> rest \<noteq> []
          then (case stoi (hd rest) of
                  Inl e \<Rightarrow> Inl e
                | Inr n \<Rightarrow> parse_loop (tl rest) (a\<lparr>a_cpu_pin := n\<rparr>) got_filter)
          else if arg = ''-r'' then parse_loop rest (a\<lparr>a_realtime := True\<rparr>) got_filter
          else if arg = ''--no-hugepages'' then parse_loop rest (a\<lparr>a_huge_pages := False\<rparr>) got_filter
          else if arg = ''--no-zerocopy'' then parse_loop rest (a\<lparr>a_zerocopy := False\<rparr>) got_filter
          else Inr None)"
  by pat_completeness auto
termination
  by (relation "measure (\<lambda>(argv, a, g). length argv)") (auto simp: le_imp_less_Suc)

declare parse_loop.simps [simp del]

definition usage_lines :: "string \<Rightarrow> string list" where
  "usage_lines prog =
     [''Usage: '' @ prog @ '' -i <iface> -f <filter_ip> [-q <queue>] [-c <cpu>] [-r] [--no-hugepages] [--no-zerocopy]'',
      ''  -i  NIC interface (default: eth0)'',
      ''  -f  Source IP to filter (required), e.g. 192.168.1.100'',
      ''  -q  NIC RX queue index (default: 0)'',
      ''  -c  Worker CPU (default: CPU selected during startup)'',
      ''  -r  Enable SCHED_FIFO realtime scheduling (needs root)'',
      ''  --no-hugepages  Disable 2MB huge page allocation'',
      ''  --no-zerocopy   Force XDP_COPY mode'']"

fun print_lines :: "os \<Rightarrow> string list \<Rightarrow> unit step" where
  "print_lines os [] = ereturn ()"
| "print_lines os (l # ls) = ebind (println os Stderr [Str l]) (\<lambda>_. print_lines os ls)"

definition print_usage :: "os \<Rightarrow> string \<Rightarrow> unit step" where
  "print_usage os prog = print_lines os (usage_lines prog)"

text \<open>\<open>prog\<close> is \<open>argv[0]\<close>, \<open>argv\<close> the rest.\<close>

definition parse_args :: "os \<Rightarrow> string \<Rightarrow> string list \<Rightarrow> Args option step" where
  "parse_args os prog argv s =
     (case parse_loop argv default_args False of
        Inl e \<Rightarrow> (Inl (Thrown e), s)
      | Inr None \<Rightarrow> ebind (print_usage os prog) (\<lambda>_. ereturn None) s
      | Inr (Some (a, got_filter)) \<Rightarrow>
          if got_filter then ereturn (Some a) s
          else ebind (println os Stderr [Str ''Error: -f <filter_ip> is required.'']) (\<lambda>_.
               ebind (print_usage os prog) (\<lambda>_. ereturn None)) s)"

section \<open>Signals\<close>

datatype handler = Previous | Stop_handler

record sig_state =
  on_int :: handler
  on_term :: handler

text \<open>
  The results of the calls: \<open>sigemptyset\<close>, the three \<open>sigaction\<close> calls in their order, each with the
  value of \<open>errno\<close> after it. A call that succeeds changes the handler.
\<close>

record sig_os =
  so_emptyset :: "int \<times> int"
  so_int :: "int \<times> int"
  so_term :: "int \<times> int"
  so_restore :: "int \<times> int"

definition install_signal_handlers :: "sig_os \<Rightarrow> sig_state \<Rightarrow> (int + unit) \<times> sig_state" where
  "install_signal_handlers G s =
     (if fst (so_emptyset G) \<noteq> 0 then (Inl (snd (so_emptyset G)), s)
      else if fst (so_int G) \<noteq> 0 then (Inl (snd (so_int G)), s)
      else let previous_int = on_int s; s = s\<lparr>on_int := Stop_handler\<rparr>
           in if fst (so_term G) \<noteq> 0
              then let error = snd (so_term G);
                       s = (if fst (so_restore G) = 0 then s\<lparr>on_int := previous_int\<rparr> else s)
                   in (Inl error, s)
              else (Inr (), s\<lparr>on_term := Stop_handler\<rparr>))"

section \<open>Printing\<close>

text \<open>A command line that selects given arguments.\<close>

definition render_args :: "Args \<Rightarrow> string list" where
  "render_args a =
     [''-i'', a_iface a, ''-f'', a_filter_ip a, ''-q'', show_nat (unat (a_queue a))] @
     (if a_cpu_pin a = -1 then [] else [''-c'', show_nat (nat (a_cpu_pin a))]) @
     (if a_realtime a then [''-r''] else []) @
     (if a_huge_pages a then [] else [''--no-hugepages'']) @
     (if a_zerocopy a then [] else [''--no-zerocopy''])"

section \<open>Correctness\<close>

lemma digit_not_space: "is_digit c \<Longrightarrow> \<not> is_space c"
  by (auto simp: is_digit_def is_space_def)

lemma scan_show: "scan_number (show_nat n) = Inr (False, n)"
proof -
  obtain c cs where c: "show_nat n = c # cs" "is_digit c" "c \<noteq> CHR ''-''" "c \<noteq> CHR ''+''" by (rule show_nat_Cons)
  have tw: "takeWhile is_digit (c # cs) = c # cs"
    using show_nat_ok [of n] c(1) by (simp only: takeWhile_eq_all_conv) simp
  have dw: "dropWhile is_space (c # cs) = c # cs" using digit_not_space [OF c(2)] by simp
  have "digits_val (c # cs) = n" using show_nat_ok [of n] c(1) by simp
  with c(3,4) show ?thesis
    by (simp only: scan_number_def c(1) dw Let_def list.case if_False prod.case tw list.distinct)
qed

lemma stoul_show: "n < 2 ^ 64 \<Longrightarrow> stoul (show_nat n) = Inr (of_nat n)"
  by (simp add: stoul_def scan_show)

lemma stoi_show: "n < 2 ^ 31 \<Longrightarrow> stoi (show_nat n) = Inr (int n)"
  by (simp add: stoi_def scan_show Let_def)

lemma parse_flags:
  "parse_loop ((if b1 then [''-r''] else []) @ (if b2 then [] else [''--no-hugepages'']) @
     (if b3 then [] else [''--no-zerocopy''])) a g =
   Inr (Some (a\<lparr>a_realtime := b1 \<or> a_realtime a, a_huge_pages := b2 \<and> a_huge_pages a,
     a_zerocopy := b3 \<and> a_zerocopy a\<rparr>, g))"
  by (cases b1; cases b2; cases b3) (simp_all add: parse_loop.simps)

lemma parse_render:
  assumes "- 1 \<le> a_cpu_pin a" "a_cpu_pin a < 2 ^ 31"
  shows "parse_args os prog (render_args a) s = (Inr (Some a), s)"
proof -
  have q: "stoul (show_nat (unat (a_queue a))) = Inr (of_nat (unat (a_queue a)))"
    using u32_bound [of "a_queue a"] by (intro stoul_show) simp
  have qq: "(ucast (of_nat (unat (a_queue a)) :: u64) :: u32) = a_queue a"
    using u32_bound [of "a_queue a"]
    by (simp add: word_unat_eq_iff unsigned_ucast_eq unsigned_of_nat take_bit_nat_eq_self take_bit_word_eq_self)
  have c: "stoi (show_nat (nat (a_cpu_pin a))) = Inr (a_cpu_pin a)" if "a_cpu_pin a \<noteq> -1"
    using stoi_show [of "nat (a_cpu_pin a)"] that assms by simp
  show ?thesis
    using q qq c parse_flags [of "a_realtime a" "a_huge_pages a" "a_zerocopy a"]
    by (cases "a_cpu_pin a = -1")
      (simp_all add: parse_args_def render_args_def parse_loop.simps [of "_ # _"] default_args_def ereturn_def)
qed

text \<open>The filter address is mandatory.\<close>

lemma parse_loop_filter:
  "parse_loop argv a g = Inr (Some (a', True)) \<Longrightarrow> g \<or> ''-f'' \<in> set argv"
proof (induction argv arbitrary: a g rule: length_induct)
  case (1 argv)
  then have IH: "g \<or> ''-f'' \<in> set xs" if "parse_loop xs a g = Inr (Some (a', True))" "length xs < length argv" for xs a g
    using that by blast
  show ?case
  proof (cases argv)
    case Nil
    with 1(2) show ?thesis by (simp add: parse_loop.simps)
  next
    case (Cons arg rest)
    have tl: "length (tl rest) < length argv" "length rest < length argv" "set (tl rest) \<subseteq> set rest"
      using Cons by (auto dest: list.set_sel(2) [rotated] simp: less_Suc_eq_le) (metis list.sel(2) list.set_sel(2))
    show ?thesis
      using 1(2) tl Cons by (auto simp: parse_loop.simps [of "arg # rest"] split: if_splits sum.splits dest!: IH)
  qed
qed

lemma parse_args_filter: "parse_args os prog argv s = (Inr (Some a), s') \<Longrightarrow> ''-f'' \<in> set argv \<and> s' = s"
  by (auto simp: parse_args_def ereturn_def split: sum.splits option.splits if_splits dest!: ebind_Inr dest: parse_loop_filter)

lemma install_signal_handlers_ok:
  "install_signal_handlers G s = (res, s') \<Longrightarrow>
   (res = Inr () \<longrightarrow> on_int s' = Stop_handler \<and> on_term s' = Stop_handler) \<and>
   (res \<noteq> Inr () \<longrightarrow> on_term s' = on_term s \<and> (fst (so_restore G) = 0 \<longrightarrow> s' = s))"
  by (auto simp: install_signal_handlers_def Let_def split: if_splits)

text \<open>A queue number beyond 32 bits is truncated without an error: this one selects queue 0.\<close>

lemma parse_args_truncates:
  "parse_args os prog [''-f'', ip, ''-q'', ''4294967296''] s = (Inr (Some (default_args\<lparr>a_filter_ip := ip\<rparr>)), s)"
proof -
  have "scan_number ''4294967296'' = Inr (False, 4294967296)"
    by (simp add: scan_number_def is_space_def is_digit_def digits_val_def digit_val_def)
  then have "stoul ''4294967296'' = Inr 4294967296" by (simp add: stoul_def)
  then show ?thesis by (simp add: parse_args_def parse_loop.simps default_args_def ereturn_def)
qed

section \<open>Numbers that are none\<close>

text \<open>Complete options can be parsed first, and the rest after them.\<close>

lemma parse_loop_append:
  "parse_loop opts a g = Inr (Some (a', g')) \<Longrightarrow> parse_loop (opts @ argv) a g = parse_loop argv a' g'"
proof (induction opts arbitrary: a g rule: measure_induct_rule [of length])
  case (less opts)
  show ?case
  proof (cases opts)
    case Nil
    with less(2) show ?thesis by (simp add: parse_loop.simps [of "[]"])
  next
    case (Cons arg rest)
    note IH = less(1) [unfolded Cons]
    show ?thesis
      using less(2) unfolding Cons append_Cons parse_loop.simps [of "arg # rest"] parse_loop.simps [of "arg # rest @ argv"]
      by (auto split: if_splits sum.splits simp: neq_Nil_conv intro!: IH)
  qed
qed

definition bad_number :: "string \<Rightarrow> string \<Rightarrow> exn \<Rightarrow> bool" where
  "bad_number opt v e \<longleftrightarrow> opt = ''-q'' \<and> stoul v = Inl e \<or> opt = ''-c'' \<and> stoi v = Inl e"

definition bad_number_after :: "string list \<Rightarrow> Args \<Rightarrow> bool \<Rightarrow> exn \<Rightarrow> bool" where
  "bad_number_after argv a g e \<longleftrightarrow> (\<exists>opts x opt v rest. argv = opts @ opt # v # rest \<and>
     parse_loop opts a g = Inr (Some x) \<and> bad_number opt v e)"

lemma bad_number_later:
  assumes "bad_number_after argv a' g' e" "parse_loop opts a g = Inr (Some (a', g'))"
  shows "bad_number_after (opts @ argv) a g e"
proof -
  from assms(1) obtain opts' x opt v rest where o: "argv = opts' @ opt # v # rest"
    "parse_loop opts' a' g' = Inr (Some x)" "bad_number opt v e" by (auto simp: bad_number_after_def)
  have "opts @ argv = (opts @ opts') @ opt # v # rest \<and> parse_loop (opts @ opts') a g = Inr (Some x) \<and> bad_number opt v e"
    using parse_loop_append [OF assms(2), of opts'] o by simp
  then show ?thesis
    unfolding bad_number_after_def by blast
qed

lemma parse_loop_throws: "parse_loop argv a g = Inl e \<Longrightarrow> bad_number_after argv a g e"
proof (induction argv arbitrary: a g rule: measure_induct_rule [of length])
  case (less argv)
  have here: "bad_number_after (opt # v # rest) a g e" if "bad_number opt v e" for opt v rest
    unfolding bad_number_after_def using that by (intro exI [of _ "[]"]) (auto simp: parse_loop.simps)
  show ?case
  proof (cases argv)
    case Nil
    with less(2) show ?thesis by (simp add: parse_loop.simps [of "[]"])
  next
    case (Cons arg rest)
    note IH = less(1) [unfolded Cons]
    show ?thesis
    proof (cases rest)
      case Nil
      with less(2) Cons show ?thesis
        using IH [of "[]"] by (auto simp: parse_loop.simps split: if_splits)
    next
      case (Cons v more)
      have one: "bad_number_after (arg # rest) a g e"
        if "parse_loop rest a' g' = Inl e" "parse_loop [arg] a g = Inr (Some (a', g'))" for a' g'
        using bad_number_later [OF IH [OF _ that(1)] that(2)] by simp
      have two: "bad_number_after (arg # v # more) a g e"
        if "parse_loop more a' g' = Inl e" "parse_loop [arg, v] a g = Inr (Some (a', g'))" for a' g'
        using bad_number_later [OF IH [OF _ that(1)] that(2)] Cons by simp
      show ?thesis
        using less(2) one two here [of arg v more] unfolding \<open>argv = arg # rest\<close> Cons
        by (auto simp: parse_loop.simps bad_number_def split: if_splits sum.splits)
    qed
  qed
qed

lemma parse_loop_bad_number: "parse_loop argv a g = Inl e \<longleftrightarrow> bad_number_after argv a g e"
proof
  assume "bad_number_after argv a g e"
  then obtain opts x opt v rest where o: "argv = opts @ opt # v # rest" "parse_loop opts a g = Inr (Some x)" "bad_number opt v e"
    by (auto simp: bad_number_after_def)
  obtain a' g' where x: "x = (a', g')" by (rule prod.exhaust)
  from parse_loop_append [OF o(2) [unfolded x], of "opt # v # rest"] o(1,3) show "parse_loop argv a g = Inl e"
    by (auto simp: bad_number_def parse_loop.simps [of "opt # v # rest"])
qed (rule parse_loop_throws)

end
