(* ===== verification/Metadata.thy ===== *)
theory Metadata
  imports Control Calibration Command_Line
begin

text \<open>
  The file \<^verbatim>\<open>run_metadata.txt\<close> (\<open>dump_run_metadata\<close> of \<^verbatim>\<open>main.cpp\<close>): one \<open>fprintf\<close> with 57 arguments,
  the kernel statistics, and the error handling of the stream. The build information is generated by
  the build and is a parameter, like the answer of \<open>uname\<close> and the text of floating point numbers.
  The lemmas show that each conversion fits its argument and that the file reads back.
\<close>

definition BUSY_POLL_BUDGET :: u32 where "BUSY_POLL_BUDGET = 64"
definition BUSY_POLL_TIMEOUT_US :: u32 where "BUSY_POLL_TIMEOUT_US = 20"

section \<open>The text\<close>

record build_info =
  bi_revision :: string
  bi_source_state :: string
  bi_source_fingerprint :: string
  bi_compiler :: string
  bi_configuration :: string
  bi_compile_command :: string
  bi_libbpf_version :: string

text \<open>
  \<open>mt_ms\<close> gives the text of a duration in nanoseconds as a number of milliseconds, \<open>mt_double\<close> that of
  a number, both under a given conversion.
\<close>

record 'f metadata_env =
  mt_build :: build_info
  mt_uname :: "(string \<times> string) option"
  mt_ms :: "int \<Rightarrow> string \<Rightarrow> string"
  mt_double :: "'f \<Rightarrow> string \<Rightarrow> string"

definition metadata_format :: string where
  "metadata_format =
     ''source_revision=%s'' @ nl @
     ''source_state=%s'' @ nl @
     ''source_fingerprint_sha256=%s'' @ nl @
     ''compiler=%s'' @ nl @
     ''build_configuration=%s'' @ nl @
     ''compile_command=%s'' @ nl @
     ''libbpf_build_version=%s'' @ nl @
     ''kernel=%s'' @ nl @
     ''machine=%s'' @ nl @
     ''started_unix_seconds=%lld'' @ nl @
     ''interface=%s'' @ nl @
     ''filter_source_ipv4=%s'' @ nl @
     ''queue=%u'' @ nl @
     ''worker_cpu=%d'' @ nl @
     ''worker_scheduler_policy=%d'' @ nl @
     ''worker_scheduler_priority=%d'' @ nl @
     ''zerocopy_requested=%d'' @ nl @
     ''copy_mode=%s'' @ nl @
     ''xdp_mode=%s'' @ nl @
     ''hugepages_requested=%d'' @ nl @
     ''umem_mapping=%s'' @ nl @
     ''need_wakeup=1'' @ nl @
     ''busy_poll=1'' @ nl @
     ''busy_poll_budget=%u'' @ nl @
     ''busy_poll_timeout_us=%u'' @ nl @
     ''num_frames=%u'' @ nl @
     ''frame_size=%u'' @ nl @
     ''umem_headroom=%u'' @ nl @
     ''ring_size=%u'' @ nl @
     ''rx_batch_size=%d'' @ nl @
     ''workload=unicast_untagged_ipv4_ihl5_unfragmented_udp_reflection'' @ nl @
     ''ipv4_mtu=%zu'' @ nl @
     ''offered_load=external_generator_not_measured_here'' @ nl @
     ''metric=callback_tx_staging_ns'' @ nl @
     ''csv_order=sorted_ascending'' @ nl @
     ''sample_population=all_callbacks_including_unsupported_and_tx_rejections'' @ nl @
     ''warmup_min_ms=%lld'' @ nl @
     ''sample_capacity=%zu'' @ nl @
     ''sampling_started=%d'' @ nl @
     ''sampling_start_after_activation_ms=%.3f'' @ nl @
     ''sample_window=first_capacity_callbacks_or_worker_stop'' @ nl @
     ''samples_recorded=%zu'' @ nl @
     ''active_duration_ms=%.3f'' @ nl @
     ''tsc_ns_per_tick=%.12g'' @ nl @
     ''timer_pair_min_ticks=%llu'' @ nl @
     ''timer_pair_median_ticks=%llu'' @ nl @
     ''rx_frames_processed=%llu'' @ nl @
     ''callbacks=%llu'' @ nl @
     ''callback_bytes=%llu'' @ nl @
     ''unsupported_frames=%llu'' @ nl @
     ''tx_frames_staged=%llu'' @ nl @
     ''tx_frames_submitted=%llu'' @ nl @
     ''tx_frames_reclaimed=%llu'' @ nl @
     ''tx_frames_rejected=%llu'' @ nl @
     ''fill_refill_batches=%llu'' @ nl @
     ''tx_retryable_wakeup_errors=%llu'' @ nl @
     ''tx_first_wakeup_errno=%d'' @ nl @
     ''rx_first_wakeup_errno=%d'' @ nl @
     ''first_kernel_stats_errno=%d'' @ nl @
     ''tx_rejection_limit_per_report=%llu'' @ nl @
     ''stop_reason=%s'' @ nl @
     ''stop_redirect_errno=%d'' @ nl @
     ''tx_frames_abandoned=%u'' @ nl @
     ''csv_exported=%d'' @ nl @
     ''exit_code=%d'' @ nl"

definition metadata_args :: "'f metadata_env \<Rightarrow> Args \<Rightarrow> RunSummary \<Rightarrow> 'f TscCalibration \<Rightarrow> int \<Rightarrow> arg list" where
  "metadata_args T args sm tsc exit_code =
     [A_str (bi_revision (mt_build T)),
      A_str (bi_source_state (mt_build T)),
      A_str (bi_source_fingerprint (mt_build T)),
      A_str (bi_compiler (mt_build T)),
      A_str (bi_configuration (mt_build T)),
      A_str (bi_compile_command (mt_build T)),
      A_str (bi_libbpf_version (mt_build T)),
      A_str (case mt_uname T of Some (release, machine) \<Rightarrow> release | None \<Rightarrow> ''unavailable''),
      A_str (case mt_uname T of Some (release, machine) \<Rightarrow> machine | None \<Rightarrow> ''unavailable''),
      A_longlong (rs_started_unix_seconds sm),
      A_str (a_iface args),
      A_str (a_filter_ip args),
      A_uint (a_queue args),
      A_int (rs_worker_cpu sm),
      A_int (rs_scheduler_policy sm),
      A_int (rs_scheduler_priority sm),
      A_int (of_bool (a_zerocopy args)),
      A_str (if rs_zero_copy sm then ''zero_copy'' else ''copy''),
      A_str (if rs_native_xdp sm then ''native'' else ''generic''),
      A_int (of_bool (a_huge_pages args)),
      A_str (if rs_hugetlb sm then ''hugetlb'' else ''anonymous''),
      A_uint BUSY_POLL_BUDGET,
      A_uint BUSY_POLL_TIMEOUT_US,
      A_uint NUM_FRAMES,
      A_uint FRAME_SIZE,
      A_uint UMEM_HEADROOM,
      A_uint RING_SIZE,
      A_int RX_BATCH_SIZE,
      A_size (of_nat REFLECTOR_IPV4_MTU),
      A_longlong (milliseconds SAMPLE_WARMUP),
      A_size (of_nat SAMPLE_CAPACITY),
      A_int (of_bool (rs_sampling_started sm)),
      A_double (mt_ms T (rs_sampling_start_after sm)),
      A_size (of_nat (rs_samples_recorded sm)),
      A_double (mt_ms T (rs_active_duration sm)),
      A_double (mt_double T (ns_per_tick tsc)),
      A_ulonglong (pair_min_ticks tsc),
      A_ulonglong (pair_median_ticks tsc),
      A_ulonglong (rs_rx_processed sm),
      A_ulonglong (rs_callbacks sm),
      A_ulonglong (rs_callback_bytes sm),
      A_ulonglong (rs_unsupported sm),
      A_ulonglong (rs_tx_staged sm),
      A_ulonglong (rs_tx_submitted sm),
      A_ulonglong (rs_tx_reclaimed sm),
      A_ulonglong (rs_tx_rejected sm),
      A_ulonglong (rs_fill_refill_batches sm),
      A_ulonglong (rs_tx_retryable_wakeup_errors sm),
      A_int (rs_tx_first_wakeup_errno sm),
      A_int (rs_rx_first_wakeup_errno sm),
      A_int (rs_first_kernel_stats_errno sm),
      A_ulonglong TX_REJECTION_LIMIT,
      A_str (reason_text (rs_stop_reason sm)),
      A_int (rs_stop_redirect_errno sm),
      A_uint (rs_tx_abandoned sm),
      A_int (of_bool (rs_csv_exported sm)),
      A_int exit_code]"

section \<open>The file\<close>

text \<open>
  The stream: \<open>md_open\<close> is the error number of a failed \<open>fopen\<close>; the \<open>i\<close>-th \<open>fprintf\<close> and \<open>fclose\<close> give
  \<open>(ret, errno)\<close>. Its state counts the calls and has the text and the last value of \<open>errno\<close>.
\<close>

record metadata_io =
  md_open :: "int option"
  md_print :: "nat \<Rightarrow> int \<times> int"
  md_close :: "int \<times> int"

type_synonym out_file = "nat \<times> string \<times> int"

definition file_print :: "metadata_io \<Rightarrow> string \<Rightarrow> out_file \<Rightarrow> int \<times> out_file" where
  "file_print F str f =
     (case f of (n, written, _) \<Rightarrow>
        let (ret, errno) = md_print F n in (ret, (Suc n, if ret < 0 then written else written @ str, errno)))"

definition errno_or_EIO :: "int \<Rightarrow> int" where
  "errno_or_EIO errno = (if errno \<noteq> 0 then errno else EIO)"

definition dump_run_metadata ::
  "metadata_io \<Rightarrow> 'f metadata_env \<Rightarrow> Args \<Rightarrow> RunSummary \<Rightarrow> 'f TscCalibration \<Rightarrow> int \<Rightarrow> (int + string) option" where
  "dump_run_metadata F T args sm tsc exit_code =
     (case md_open F of
        Some errno \<Rightarrow> Some (Inl errno)
      | None \<Rightarrow> do {
          str \<leftarrow> printf metadata_format (metadata_args T args sm tsc exit_code);
          let (ret, f) = file_print F str (0, [], 0);
          let error = (if ret < 0 then errno_or_EIO (snd (snd f)) else 0);
          let (error, f) = (if error = 0
             then let (ret, f) = print_kernel_stats (file_print F) (rs_kernel_stats sm) f
                  in (if ret < 0 then errno_or_EIO (snd (snd f)) else 0, f)
             else (error, f));
          let error = (if fst (md_close F) \<noteq> 0 \<and> error = 0 then errno_or_EIO (snd (md_close F)) else error);
          Some (if error \<noteq> 0 then Inl error else Inr (fst (snd f))) })"

section \<open>The fields\<close>

definition metadata_fields :: "'f metadata_env \<Rightarrow> Args \<Rightarrow> RunSummary \<Rightarrow> 'f TscCalibration \<Rightarrow> int \<Rightarrow> field list" where
  "metadata_fields T args sm tsc exit_code =
     [Conv ''source_revision'' ''s'' (A_str (bi_revision (mt_build T))),
      Conv ''source_state'' ''s'' (A_str (bi_source_state (mt_build T))),
      Conv ''source_fingerprint_sha256'' ''s'' (A_str (bi_source_fingerprint (mt_build T))),
      Conv ''compiler'' ''s'' (A_str (bi_compiler (mt_build T))),
      Conv ''build_configuration'' ''s'' (A_str (bi_configuration (mt_build T))),
      Conv ''compile_command'' ''s'' (A_str (bi_compile_command (mt_build T))),
      Conv ''libbpf_build_version'' ''s'' (A_str (bi_libbpf_version (mt_build T))),
      Conv ''kernel'' ''s'' (A_str (case mt_uname T of Some (release, machine) \<Rightarrow> release | None \<Rightarrow> ''unavailable'')),
      Conv ''machine'' ''s'' (A_str (case mt_uname T of Some (release, machine) \<Rightarrow> machine | None \<Rightarrow> ''unavailable'')),
      Conv ''started_unix_seconds'' ''lld'' (A_longlong (rs_started_unix_seconds sm)),
      Conv ''interface'' ''s'' (A_str (a_iface args)),
      Conv ''filter_source_ipv4'' ''s'' (A_str (a_filter_ip args)),
      Conv ''queue'' ''u'' (A_uint (a_queue args)),
      Conv ''worker_cpu'' ''d'' (A_int (rs_worker_cpu sm)),
      Conv ''worker_scheduler_policy'' ''d'' (A_int (rs_scheduler_policy sm)),
      Conv ''worker_scheduler_priority'' ''d'' (A_int (rs_scheduler_priority sm)),
      Conv ''zerocopy_requested'' ''d'' (A_int (of_bool (a_zerocopy args))),
      Conv ''copy_mode'' ''s'' (A_str (if rs_zero_copy sm then ''zero_copy'' else ''copy'')),
      Conv ''xdp_mode'' ''s'' (A_str (if rs_native_xdp sm then ''native'' else ''generic'')),
      Conv ''hugepages_requested'' ''d'' (A_int (of_bool (a_huge_pages args))),
      Conv ''umem_mapping'' ''s'' (A_str (if rs_hugetlb sm then ''hugetlb'' else ''anonymous'')),
      Fixed ''need_wakeup'' ''1'',
      Fixed ''busy_poll'' ''1'',
      Conv ''busy_poll_budget'' ''u'' (A_uint BUSY_POLL_BUDGET),
      Conv ''busy_poll_timeout_us'' ''u'' (A_uint BUSY_POLL_TIMEOUT_US),
      Conv ''num_frames'' ''u'' (A_uint NUM_FRAMES),
      Conv ''frame_size'' ''u'' (A_uint FRAME_SIZE),
      Conv ''umem_headroom'' ''u'' (A_uint UMEM_HEADROOM),
      Conv ''ring_size'' ''u'' (A_uint RING_SIZE),
      Conv ''rx_batch_size'' ''d'' (A_int RX_BATCH_SIZE),
      Fixed ''workload'' ''unicast_untagged_ipv4_ihl5_unfragmented_udp_reflection'',
      Conv ''ipv4_mtu'' ''zu'' (A_size (of_nat REFLECTOR_IPV4_MTU)),
      Fixed ''offered_load'' ''external_generator_not_measured_here'',
      Fixed ''metric'' ''callback_tx_staging_ns'',
      Fixed ''csv_order'' ''sorted_ascending'',
      Fixed ''sample_population'' ''all_callbacks_including_unsupported_and_tx_rejections'',
      Conv ''warmup_min_ms'' ''lld'' (A_longlong (milliseconds SAMPLE_WARMUP)),
      Conv ''sample_capacity'' ''zu'' (A_size (of_nat SAMPLE_CAPACITY)),
      Conv ''sampling_started'' ''d'' (A_int (of_bool (rs_sampling_started sm))),
      Conv ''sampling_start_after_activation_ms'' ''.3f'' (A_double (mt_ms T (rs_sampling_start_after sm))),
      Fixed ''sample_window'' ''first_capacity_callbacks_or_worker_stop'',
      Conv ''samples_recorded'' ''zu'' (A_size (of_nat (rs_samples_recorded sm))),
      Conv ''active_duration_ms'' ''.3f'' (A_double (mt_ms T (rs_active_duration sm))),
      Conv ''tsc_ns_per_tick'' ''.12g'' (A_double (mt_double T (ns_per_tick tsc))),
      Conv ''timer_pair_min_ticks'' ''llu'' (A_ulonglong (pair_min_ticks tsc)),
      Conv ''timer_pair_median_ticks'' ''llu'' (A_ulonglong (pair_median_ticks tsc)),
      Conv ''rx_frames_processed'' ''llu'' (A_ulonglong (rs_rx_processed sm)),
      Conv ''callbacks'' ''llu'' (A_ulonglong (rs_callbacks sm)),
      Conv ''callback_bytes'' ''llu'' (A_ulonglong (rs_callback_bytes sm)),
      Conv ''unsupported_frames'' ''llu'' (A_ulonglong (rs_unsupported sm)),
      Conv ''tx_frames_staged'' ''llu'' (A_ulonglong (rs_tx_staged sm)),
      Conv ''tx_frames_submitted'' ''llu'' (A_ulonglong (rs_tx_submitted sm)),
      Conv ''tx_frames_reclaimed'' ''llu'' (A_ulonglong (rs_tx_reclaimed sm)),
      Conv ''tx_frames_rejected'' ''llu'' (A_ulonglong (rs_tx_rejected sm)),
      Conv ''fill_refill_batches'' ''llu'' (A_ulonglong (rs_fill_refill_batches sm)),
      Conv ''tx_retryable_wakeup_errors'' ''llu'' (A_ulonglong (rs_tx_retryable_wakeup_errors sm)),
      Conv ''tx_first_wakeup_errno'' ''d'' (A_int (rs_tx_first_wakeup_errno sm)),
      Conv ''rx_first_wakeup_errno'' ''d'' (A_int (rs_rx_first_wakeup_errno sm)),
      Conv ''first_kernel_stats_errno'' ''d'' (A_int (rs_first_kernel_stats_errno sm)),
      Conv ''tx_rejection_limit_per_report'' ''llu'' (A_ulonglong TX_REJECTION_LIMIT),
      Conv ''stop_reason'' ''s'' (A_str (reason_text (rs_stop_reason sm))),
      Conv ''stop_redirect_errno'' ''d'' (A_int (rs_stop_redirect_errno sm)),
      Conv ''tx_frames_abandoned'' ''u'' (A_uint (rs_tx_abandoned sm)),
      Conv ''csv_exported'' ''d'' (A_int (of_bool (rs_csv_exported sm))),
      Conv ''exit_code'' ''d'' (A_int exit_code)]"

definition kernel_fields :: "int + KernelStats \<Rightarrow> field list" where
  "kernel_fields result =
     (case result of
        Inl e \<Rightarrow> [Conv ''kernel_stats_errno'' ''d'' (A_int e)]
      | Inr r \<Rightarrow>
          [Conv ''kernel_stats_returned_bytes'' ''u'' (A_uint (returned_bytes r)),
           Conv ''kernel_rx_dropped'' ''llu'' (A_ulonglong (rx_dropped (counters r))),
           Conv ''kernel_rx_invalid_descs'' ''llu'' (A_ulonglong (rx_invalid_descs (counters r))),
           Conv ''kernel_tx_invalid_descs'' ''llu'' (A_ulonglong (tx_invalid_descs (counters r)))] @
          (if has_ring_counters r
           then [Conv ''kernel_rx_ring_full'' ''llu'' (A_ulonglong (rx_ring_full (counters r))),
                 Conv ''kernel_rx_fill_ring_empty_descs'' ''llu'' (A_ulonglong (rx_fill_ring_empty_descs (counters r))),
                 Conv ''kernel_tx_ring_empty_descs'' ''llu'' (A_ulonglong (tx_ring_empty_descs (counters r)))]
           else [Fixed ''kernel_rx_ring_full'' ''unavailable'', Fixed ''kernel_rx_fill_ring_empty_descs'' ''unavailable'',
                 Fixed ''kernel_tx_ring_empty_descs'' ''unavailable'']))"

lemma metadata_format_fields:
  "metadata_format = concat (map field_format (metadata_fields T args sm tsc exit_code))"
  by (simp add: metadata_format_def metadata_fields_def)

lemma metadata_args_fields:
  "metadata_args T args sm tsc exit_code = concat (map field_args (metadata_fields T args sm tsc exit_code))"
  by (simp add: metadata_args_def metadata_fields_def)

lemma metadata_fields_ok: "list_all field_ok (metadata_fields T args sm tsc exit_code)"
  by (simp add: metadata_fields_def)

text \<open>Every conversion of the one large call has an argument of its type.\<close>

lemma printf_metadata:
  "printf metadata_format (metadata_args T args sm tsc exit_code) =
   Some (concat (map field_line (metadata_fields T args sm tsc exit_code)))"
  unfolding metadata_format_fields [of T args sm tsc exit_code] metadata_args_fields
  by (rule printf_fields [OF metadata_fields_ok])

lemma dump_run_metadata_returns: "\<exists>res. dump_run_metadata F T args sm tsc exit_code = Some res"
  by (auto simp: dump_run_metadata_def printf_metadata Let_def split: option.split prod.split)

section \<open>What a written file has\<close>

lemma kernel_fields_ok: "list_all field_ok (kernel_fields result)"
  by (auto simp: kernel_fields_def split: sum.split)

lemma file_print_ok:
  "file_print F str (n, written, e) = (r, f') \<Longrightarrow> 0 \<le> r \<Longrightarrow> \<exists>e'. f' = (Suc n, written @ str, e')"
  by (auto simp: file_print_def Let_def split: prod.splits)

text \<open>The calls of \<open>print_kernel_stats\<close> are well typed and print the fields.\<close>

lemma kernel_stats_calls_text:
  "\<exists>ts. map (\<lambda>(fmt, args). printf fmt args) (kernel_stats_calls result) = map Some ts \<and>
    concat ts = concat (map field_line (kernel_fields result))"
proof (cases result)
  case (Inl e)
  have "printf (''kernel_stats_errno=%d'' @ nl) [A_int e] = Some (concat (map field_line (kernel_fields result)))"
    using printf_fields [OF kernel_fields_ok, of result] Inl by (simp add: kernel_fields_def)
  with Inl show ?thesis
    by (intro exI [of _ "[concat (map field_line (kernel_fields result))]"]) (simp add: kernel_stats_calls_def)
next
  case (Inr r)
  define fs where "fs = take 4 (kernel_fields result)"
  define gs where "gs = drop 4 (kernel_fields result)"
  have ok: "list_all field_ok fs" "list_all field_ok gs"
    using kernel_fields_ok [of result] by (auto simp: fs_def gs_def list_all_iff dest: in_set_takeD in_set_dropD)
  have "kernel_stats_calls result =
      [(concat (map field_format fs), concat (map field_args fs)), (concat (map field_format gs), concat (map field_args gs))]"
    by (simp add: Inr kernel_stats_calls_def fs_def gs_def kernel_fields_def Let_def)
  moreover have "kernel_fields result = fs @ gs" by (simp add: fs_def gs_def)
  ultimately show ?thesis
    using printf_fields [OF ok(1)] printf_fields [OF ok(2)]
    by (intro exI [of _ "[concat (map field_line fs), concat (map field_line gs)]"]) simp
qed

lemma kernel_stats_calls_typed: "list_all (\<lambda>(fmt, args). printf fmt args \<noteq> None) (kernel_stats_calls result)"
proof -
  from kernel_stats_calls_text [of result] obtain ts where
    ts: "map (\<lambda>(fmt, args). printf fmt args) (kernel_stats_calls result) = map Some ts" by blast
  have "printf (fst c) (snd c) \<noteq> None" if "c \<in> set (kernel_stats_calls result)" for c
  proof -
    from that have "printf (fst c) (snd c) \<in> set (map (\<lambda>(fmt, args). printf fmt args) (kernel_stats_calls result))"
      by (force simp: split_beta)
    then show ?thesis unfolding ts by auto
  qed
  then show ?thesis by (auto simp: list_all_iff)
qed

lemma print_all_ok:
  assumes "map (\<lambda>(fmt, args). printf fmt args) cs = map Some ts"
    and "print_all (file_print F) cs (n, written, e) = (r, f')" "0 \<le> r" "cs \<noteq> []"
  shows "\<exists>n' e'. f' = (n', written @ concat ts, e')"
  using assms
proof (induction "file_print F" cs "(n, written, e)" arbitrary: ts n written e r f' rule: print_all.induct)
  case (2 fmt args)
  then show ?case by (cases ts) (auto dest: file_print_ok)
next
  case (3 fmt args c cs)
  obtain r1 f1 where p: "file_print F (the (printf fmt args)) (n, written, e) = (r1, f1)" by (rule prod.exhaust)
  with 3(3,4) have r1: "0 \<le> r1" and rest: "print_all (file_print F) (c # cs) f1 = (r, f')"
    by (auto split: if_splits)
  from file_print_ok [OF p r1] obtain e1 where f1: "f1 = (Suc n, written @ the (printf fmt args), e1)" by blast
  from 3(2) obtain t ts' where ts: "ts = t # ts'" "printf fmt args = Some t" by (cases ts) auto
  have "\<exists>n' e'. f' = (n', (written @ t) @ concat ts', e')"
    using 3(1) [OF p [symmetric], of r1 "Suc n" "written @ t" e1 ts' r f'] 3(2,4) r1 rest f1 ts by auto
  with ts show ?case by auto
qed simp

lemma dump_run_metadata_text:
  assumes "dump_run_metadata F T args sm tsc exit_code = Some (Inr str)"
  shows "str = concat (map field_line (metadata_fields T args sm tsc exit_code @ kernel_fields (rs_kernel_stats sm)))"
proof -
  let ?t = "concat (map field_line (metadata_fields T args sm tsc exit_code))"
  obtain r f where p: "file_print F ?t (0, [], 0) = (r, f)" by (rule prod.exhaust)
  obtain r2 f2 where k: "print_kernel_stats (file_print F) (rs_kernel_stats sm) f = (r2, f2)" by (rule prod.exhaust)
  have io: "errno_or_EIO e \<noteq> 0" for e by (simp add: errno_or_EIO_def EIO_def)
  from assms p k have r: "0 \<le> r" "0 \<le> r2" "str = fst (snd f2)"
    by (auto simp: dump_run_metadata_def printf_metadata Let_def io split: option.splits if_splits)
  from file_print_ok [OF p r(1)] obtain e where f: "f = (1, ?t, e)" by auto
  from kernel_stats_calls_text [of "rs_kernel_stats sm"] obtain ts where
    ts: "map (\<lambda>(fmt, args). printf fmt args) (kernel_stats_calls (rs_kernel_stats sm)) = map Some ts"
      "concat ts = concat (map field_line (kernel_fields (rs_kernel_stats sm)))" by blast
  have "kernel_stats_calls (rs_kernel_stats sm) \<noteq> []" by (simp add: kernel_stats_calls_def Let_def split: sum.split)
  from print_all_ok [OF ts(1) k [unfolded print_kernel_stats_def f] r(2) this] ts(2) r(3) show ?thesis by auto
qed

text \<open>The strings of a file that reads back have no newline; numbers never have one.\<close>

definition metadata_lines :: "'f metadata_env \<Rightarrow> Args \<Rightarrow> RunSummary \<Rightarrow> 'f TscCalibration \<Rightarrow> bool" where
  "metadata_lines T args sm tsc \<longleftrightarrow>
     list_all (\<lambda>v. CHR 0x0A \<notin> set v)
       ([bi_revision (mt_build T), bi_source_state (mt_build T), bi_source_fingerprint (mt_build T), bi_compiler (mt_build T),
         bi_configuration (mt_build T), bi_compile_command (mt_build T), bi_libbpf_version (mt_build T),
         a_iface args, a_filter_ip args, mt_ms T (rs_sampling_start_after sm) ''.3f'',
         mt_ms T (rs_active_duration sm) ''.3f'', mt_double T (ns_per_tick tsc) ''.12g''] @
        (case mt_uname T of Some (release, machine) \<Rightarrow> [release, machine] | None \<Rightarrow> []))"

lemma metadata_values:
  assumes "metadata_lines T args sm tsc"
  shows "\<forall>f \<in> set (metadata_fields T args sm tsc exit_code). CHR 0x0A \<notin> set (the (field_value f))"
proof -
  have "CHR 0x0A \<notin> set (reason_text r)" for r by (cases r) simp_all
  with assms show ?thesis
    unfolding metadata_fields_def metadata_lines_def by (simp split: option.splits prod.splits)
qed

lemma kernel_values: "\<forall>f \<in> set (kernel_fields result). CHR 0x0A \<notin> set (the (field_value f))"
  by (auto simp: kernel_fields_def split: sum.splits if_splits)

lemma read_metadata:
  assumes "dump_run_metadata F T args sm tsc exit_code = Some (Inr str)" "metadata_lines T args sm tsc"
  shows "read_fields str = map (\<lambda>f. (field_key f, the (field_value f)))
    (metadata_fields T args sm tsc exit_code @ kernel_fields (rs_kernel_stats sm))"
proof -
  let ?fs = "metadata_fields T args sm tsc exit_code @ kernel_fields (rs_kernel_stats sm)"
  have ok: "list_all field_ok ?fs" using metadata_fields_ok kernel_fields_ok by (simp add: list_all_iff ball_Un)
  have "\<forall>f \<in> set ?fs. CHR 0x0A \<notin> set (the (field_value f))"
    using metadata_values [OF assms(2)] kernel_values by (simp add: ball_Un)
  from read_fields_lines [OF ok this, of "[]"] dump_run_metadata_text [OF assms(1)] show ?thesis
    by (simp add: read_fields_def read_lines.simps)
qed

lemma metadata_keys_distinct:
  "distinct (map field_key (metadata_fields T args sm tsc exit_code @ kernel_fields (rs_kernel_stats sm)))"
  by (simp add: metadata_fields_def kernel_fields_def split: sum.split)

text \<open>A key of the file selects its number.\<close>

definition metadata_number :: "string \<Rightarrow> string \<Rightarrow> int option" where
  "metadata_number str key = Option.bind (map_of (read_fields str) key) read_int"

text \<open>The file is complete: no key is used twice, and each counter reads back as the summary has it.\<close>

lemma metadata_number_read:
  assumes "dump_run_metadata F T args sm tsc exit_code = Some (Inr str)" "metadata_lines T args sm tsc"
    and "Conv key spec a \<in> set (metadata_fields T args sm tsc exit_code)" "read_int (the (show_arg spec a)) = Some n"
  shows "metadata_number str key = Some n"
proof -
  let ?fs = "metadata_fields T args sm tsc exit_code @ kernel_fields (rs_kernel_stats sm)"
  have "(key, the (show_arg spec a)) \<in> set (read_fields str)"
    using assms(3) unfolding read_metadata [OF assms(1,2)] by (force simp: image_iff)
  moreover have "distinct (map fst (read_fields str))"
    using metadata_keys_distinct [of T args sm tsc exit_code] unfolding read_metadata [OF assms(1,2)]
    by (simp add: comp_def)
  ultimately have "map_of (read_fields str) key = Some (the (show_arg spec a))" by (simp add: map_of_is_SomeI)
  with assms(4) show ?thesis by (simp add: metadata_number_def)
qed

lemma metadata_counters:
  assumes "dump_run_metadata F T args sm tsc exit_code = Some (Inr str)" "metadata_lines T args sm tsc"
  shows "metadata_number str ''exit_code'' = Some exit_code"
    "metadata_number str ''callbacks'' = Some (uint (rs_callbacks sm))"
    "metadata_number str ''tx_frames_submitted'' = Some (uint (rs_tx_submitted sm))"
    "metadata_number str ''tx_frames_reclaimed'' = Some (uint (rs_tx_reclaimed sm))"
    "metadata_number str ''tx_frames_abandoned'' = Some (uint (rs_tx_abandoned sm))"
proof -
  note read = metadata_number_read [OF assms]
  show "metadata_number str ''exit_code'' = Some exit_code"
    by (rule read [where spec = "''d''" and a = "A_int exit_code"]) (simp_all add: metadata_fields_def read_show_int)
  have u: "read_int (show_nat (unat w)) = Some (uint w)" for w :: "'w::len word"
    using read_show_int [of "uint w"] by (simp add: show_int_def)
  show "metadata_number str ''callbacks'' = Some (uint (rs_callbacks sm))"
    by (rule read [where spec = "''llu''" and a = "A_ulonglong (rs_callbacks sm)"]) (simp_all add: metadata_fields_def u)
  show "metadata_number str ''tx_frames_submitted'' = Some (uint (rs_tx_submitted sm))"
    by (rule read [where spec = "''llu''" and a = "A_ulonglong (rs_tx_submitted sm)"]) (simp_all add: metadata_fields_def u)
  show "metadata_number str ''tx_frames_reclaimed'' = Some (uint (rs_tx_reclaimed sm))"
    by (rule read [where spec = "''llu''" and a = "A_ulonglong (rs_tx_reclaimed sm)"]) (simp_all add: metadata_fields_def u)
  show "metadata_number str ''tx_frames_abandoned'' = Some (uint (rs_tx_abandoned sm))"
    by (rule read [where spec = "''u''" and a = "A_uint (rs_tx_abandoned sm)"]) (simp_all add: metadata_fields_def u)
qed

end
