(* ===== verification/Unwind.thy ===== *)
theory Unwind
  imports System
begin

text \<open>
  Function bodies that can be left early: by \<open>return\<close>, by an exception that unwinds the stack, or by
  \<^verbatim>\<open>std::terminate\<close>. A body is a function from the state to a result; \<open>None\<close> is a fault or a loop that does
  not end. \<open>scoped\<close> is a block with a local object, whose destructor runs however the block is left,
  and \<open>on_leave\<close> the destructor of an object that the normal path has given up already. The triples
  state what a body guarantees for each way out; \<open>held\<close> is the assertion used for the program:
  which resources are held, and that memory and descriptors were only given back while no worker
  thread was running.
\<close>

section \<open>Bodies\<close>

datatype leave = Return int | Unwind exn | is_Terminate: Terminate exn

type_synonym 'a body = "sys \<Rightarrow> ((leave + 'a) \<times> sys) option"

definition breturn :: "'a \<Rightarrow> 'a body" where
  "breturn a s = Some (Inr a, s)"

definition bleave :: "leave \<Rightarrow> 'a body" where
  "bleave l s = Some (Inl l, s)"

definition bbind :: "'a body \<Rightarrow> ('a \<Rightarrow> 'b body) \<Rightarrow> 'b body" where
  "bbind m f s = (case m s of
       None \<Rightarrow> None | Some (Inl l, s) \<Rightarrow> Some (Inl l, s) | Some (Inr a, s) \<Rightarrow> f a s)"

lemma bbind_Inr:
  assumes "bbind m f s = Some (Inr b, s')"
  obtains a s1 where "m s = Some (Inr a, s1)" "f a s1 = Some (Inr b, s')"
  using assms by (auto simp: bbind_def split: option.splits sum.splits)

text \<open>A computation outside the system state.\<close>

definition bpure :: "'a option \<Rightarrow> 'a body" where
  "bpure x s = (case x of None \<Rightarrow> None | Some a \<Rightarrow> Some (Inr a, s))"

lemma bbind_bpure [simp]: "bbind (bpure (Some a)) f = f a"
  by (rule ext) (simp add: bbind_def bpure_def)

text \<open>Calls that neither fail nor throw.\<close>

definition bcall :: "(sys \<Rightarrow> 'a \<times> sys) \<Rightarrow> 'a body" where
  "bcall f s = (let (a, s) = f s in Some (Inr a, s))"

definition bprint :: "os \<Rightarrow> stream \<Rightarrow> message \<Rightarrow> unit body" where
  "bprint os st msg s =
     (case try_print os st msg s of (Some e, s) \<Rightarrow> Some (Inl (Unwind e), s) | (None, s) \<Rightarrow> Some (Inr (), s))"

text \<open>A creation whose error is printed and ends the function with exit code 1.\<close>

definition create_or_exit :: "os \<Rightarrow> string \<Rightarrow> 'a step \<Rightarrow> 'a body" where
  "create_or_exit os what m s =
     (case m s of
        (Inr a, s) \<Rightarrow> Some (Inr a, s)
      | (Inl (Thrown e), s) \<Rightarrow> Some (Inl (Unwind e), s)
      | (Inl (Failed e), s) \<Rightarrow> bbind (bprint os Stderr (Str what # error_message e)) (\<lambda>_. bleave (Return 1)) s)"

definition scoped :: "'a body \<Rightarrow> (sys \<Rightarrow> sys) \<Rightarrow> 'a body" where
  "scoped m cleanup s = (case m s of
       None \<Rightarrow> None
     | Some (Inl (Terminate e), s) \<Rightarrow> Some (Inl (Terminate e), s)
     | Some (res, s) \<Rightarrow> Some (res, cleanup s))"

definition on_leave :: "'a body \<Rightarrow> (sys \<Rightarrow> sys) \<Rightarrow> 'a body" where
  "on_leave m cleanup s = (case m s of
       None \<Rightarrow> None
     | Some (Inl (Terminate e), s) \<Rightarrow> Some (Inl (Terminate e), s)
     | Some (Inl l, s) \<Rightarrow> Some (Inl l, cleanup s)
     | Some (Inr a, s) \<Rightarrow> Some (Inr a, s))"

text \<open>An exception that leaves a \<open>noexcept\<close> function ends the program.\<close>

definition bnoexcept :: "'a body \<Rightarrow> 'a body" where
  "bnoexcept m s = (case m s of Some (Inl (Unwind e), s) \<Rightarrow> Some (Inl (Terminate e), s) | x \<Rightarrow> x)"

section \<open>Triples\<close>

definition triple :: "(sys \<Rightarrow> bool) \<Rightarrow> 'a body \<Rightarrow> (leave \<Rightarrow> sys \<Rightarrow> bool) \<Rightarrow> ('a \<Rightarrow> sys \<Rightarrow> bool) \<Rightarrow> bool" where
  "triple P m E Q \<longleftrightarrow> (\<forall>s res s'. P s \<longrightarrow> m s = Some (res, s') \<longrightarrow>
     (case res of Inl l \<Rightarrow> E l s' | Inr a \<Rightarrow> Q a s'))"

lemma tripleI:
  assumes "\<And>s res s'. P s \<Longrightarrow> m s = Some (res, s') \<Longrightarrow> (case res of Inl l \<Rightarrow> E l s' | Inr a \<Rightarrow> Q a s')"
  shows "triple P m E Q"
  using assms by (simp add: triple_def)

lemma tripleD:
  assumes "triple P m E Q" "P s"
  shows "m s = Some (Inl l, s') \<Longrightarrow> E l s'" and "m s = Some (Inr a, s') \<Longrightarrow> Q a s'"
  using assms unfolding triple_def by fastforce+

lemma triple_bind:
  assumes m: "triple P m E Q" and f: "\<And>a. triple (Q a) (f a) E R"
  shows "triple P (bbind m f) E R"
proof (rule tripleI)
  fix s res s' assume s: "P s" "bbind m f s = Some (res, s')"
  then obtain x s1 where x: "m s = Some (x, s1)" by (auto simp: bbind_def split: option.splits)
  show "case res of Inl l \<Rightarrow> E l s' | Inr a \<Rightarrow> R a s'"
  proof (cases x)
    case (Inl l)
    with s x tripleD(1) [OF m s(1)] show ?thesis by (auto simp: bbind_def)
  next
    case (Inr a)
    with x tripleD(2) [OF m s(1)] have "Q a s1" by simp
    with f [of a] s(2) x Inr show ?thesis by (auto simp: bbind_def triple_def)
  qed
qed

lemma triple_pre: "(\<phi> \<Longrightarrow> triple P m E Q) \<Longrightarrow> triple (\<lambda>s. \<phi> \<and> P s) m E Q"
  by (auto simp: triple_def)

lemma triple_bpure: "triple P (bpure x) E (\<lambda>_. P)"
  by (auto simp: triple_def bpure_def split: option.splits)

lemma triple_breturn: "(\<And>s. P s \<Longrightarrow> Q a s) \<Longrightarrow> triple P (breturn a) E Q"
  by (auto simp: triple_def breturn_def)

lemma triple_bleave: "(\<And>s. P s \<Longrightarrow> E l s) \<Longrightarrow> triple P (bleave l) E Q"
  by (auto simp: triple_def bleave_def)

lemma triple_bcall: "(\<And>s a s'. P s \<Longrightarrow> f s = (a, s') \<Longrightarrow> Q a s') \<Longrightarrow> triple P (bcall f) E Q"
  by (auto simp: triple_def bcall_def split: prod.splits)

lemma triple_conseq:
  assumes "triple P' m E' Q'" "\<And>s. P s \<Longrightarrow> P' s" "\<And>l s. E' l s \<Longrightarrow> E l s" "\<And>a s. Q' a s \<Longrightarrow> Q a s"
  shows "triple P m E Q"
  using assms unfolding triple_def by (fastforce split: sum.splits)

lemma triple_if:
  assumes "b \<Longrightarrow> triple P m E Q" "\<not> b \<Longrightarrow> triple P n E Q"
  shows "triple P (if b then m else n) E Q"
  using assms by simp

lemma triple_scoped:
  assumes m: "triple P m E' Q'"
    and c: "\<And>l s. E' l s \<Longrightarrow> (case l of Terminate e \<Rightarrow> E l s | _ \<Rightarrow> E l (cleanup s))" "\<And>a s. Q' a s \<Longrightarrow> Q a (cleanup s)"
  shows "triple P (scoped m cleanup) E Q"
proof (rule tripleI)
  fix s res s' assume s: "P s" "scoped m cleanup s = Some (res, s')"
  then obtain x s1 where x: "m s = Some (x, s1)" by (auto simp: scoped_def split: option.splits)
  show "case res of Inl l \<Rightarrow> E l s' | Inr a \<Rightarrow> Q a s'"
  proof (cases x)
    case (Inl l)
    with c(1) [OF tripleD(1) [OF m s(1)]] x s(2) show ?thesis by (cases l) (auto simp: scoped_def)
  next
    case (Inr a)
    with c(2) [OF tripleD(2) [OF m s(1)]] x s(2) show ?thesis by (auto simp: scoped_def)
  qed
qed

lemma triple_on_leave:
  assumes m: "triple P m E' Q"
    and c: "\<And>l s. E' l s \<Longrightarrow> (case l of Terminate e \<Rightarrow> E l s | _ \<Rightarrow> E l (cleanup s))"
  shows "triple P (on_leave m cleanup) E Q"
proof (rule tripleI)
  fix s res s' assume s: "P s" "on_leave m cleanup s = Some (res, s')"
  then obtain x s1 where x: "m s = Some (x, s1)" by (auto simp: on_leave_def split: option.splits)
  show "case res of Inl l \<Rightarrow> E l s' | Inr a \<Rightarrow> Q a s'"
  proof (cases x)
    case (Inl l)
    with c(1) [OF tripleD(1) [OF m s(1)]] x s(2) show ?thesis by (cases l) (auto simp: on_leave_def)
  next
    case (Inr a)
    with tripleD(2) [OF m s(1)] x s(2) show ?thesis by (auto simp: on_leave_def)
  qed
qed

lemma triple_noexcept:
  assumes "triple P m (\<lambda>_. E) Q"
  shows "triple P (bnoexcept m) (\<lambda>_. E) Q"
proof (rule tripleI)
  fix s res s' assume s: "P s" "bnoexcept m s = Some (res, s')"
  obtain x where x: "m s = Some (x, s')" using s(2) by (auto simp: bnoexcept_def split: option.splits sum.splits leave.splits)
  show "case res of Inl l \<Rightarrow> E s' | Inr a \<Rightarrow> Q a s'"
    using tripleD [OF assms s(1)] s(2) x by (cases x; cases "projl x") (auto simp: bnoexcept_def)
qed

text \<open>A body that returns from every state, with a property of its result.\<close>

definition returns :: "'a body \<Rightarrow> ('a \<Rightarrow> bool) \<Rightarrow> bool" where
  "returns m Q \<longleftrightarrow> (\<forall>s. \<exists>res s'. m s = Some (res, s') \<and> (case res of Inl l \<Rightarrow> True | Inr a \<Rightarrow> Q a))"

lemma returns_bind:
  assumes "returns m Q" "\<And>a. Q a \<Longrightarrow> returns (f a) R"
  shows "returns (bbind m f) R"
  unfolding returns_def
proof
  fix s
  from assms(1) obtain x s1 where x: "m s = Some (x, s1)" "case x of Inl l \<Rightarrow> True | Inr a \<Rightarrow> Q a"
    unfolding returns_def by blast
  show "\<exists>res s'. bbind m f s = Some (res, s') \<and> (case res of Inl l \<Rightarrow> True | Inr a \<Rightarrow> R a)"
  proof (cases x)
    case (Inl l)
    with x show ?thesis by (simp add: bbind_def)
  next
    case (Inr a)
    with x assms(2) [of a] show ?thesis by (simp add: bbind_def returns_def)
  qed
qed

lemma returns_simple:
  "returns (bleave l) Q" "returns (bprint os st msg) (\<lambda>_. True)" "returns (bcall f) (\<lambda>_. True)"
  "Q a \<Longrightarrow> returns (breturn a) Q" "x = Some a \<Longrightarrow> Q a \<Longrightarrow> returns (bpure x) Q"
  by (auto simp: returns_def bleave_def bprint_def bcall_def breturn_def bpure_def Let_def split: prod.split option.split)

lemma returns_scoped:
  assumes "returns m Q"
  shows "returns (scoped m c) Q"
  unfolding returns_def
proof
  fix s
  from assms obtain x s1 where x: "m s = Some (x, s1)" "case x of Inl l \<Rightarrow> True | Inr a \<Rightarrow> Q a"
    unfolding returns_def by blast
  then show "\<exists>res s'. scoped m c s = Some (res, s') \<and> (case res of Inl l \<Rightarrow> True | Inr a \<Rightarrow> Q a)"
    by (cases x; cases "projl x") (simp_all add: scoped_def)
qed

lemma returns_on_leave:
  assumes "returns m Q"
  shows "returns (on_leave m c) Q"
  unfolding returns_def
proof
  fix s
  from assms obtain x s1 where x: "m s = Some (x, s1)" "case x of Inl l \<Rightarrow> True | Inr a \<Rightarrow> Q a"
    unfolding returns_def by blast
  then show "\<exists>res s'. on_leave m c s = Some (res, s') \<and> (case res of Inl l \<Rightarrow> True | Inr a \<Rightarrow> Q a)"
    by (cases x; cases "projl x") (simp_all add: on_leave_def)
qed

lemma returns_noexcept:
  assumes "returns m Q"
  shows "returns (bnoexcept m) Q"
  unfolding returns_def
proof
  fix s
  from assms obtain x s1 where x: "m s = Some (x, s1)" "case x of Inl l \<Rightarrow> True | Inr a \<Rightarrow> Q a"
    unfolding returns_def by blast
  then show "\<exists>res s'. bnoexcept m s = Some (res, s') \<and> (case res of Inl l \<Rightarrow> True | Inr a \<Rightarrow> Q a)"
    by (cases x; cases "projl x") (simp_all add: bnoexcept_def)
qed

lemma returns_create:
  assumes "\<And>s a s'. m s = (Inr a, s') \<Longrightarrow> Q a"
  shows "returns (create_or_exit os what m) Q"
  using assms
  by (auto simp: returns_def create_or_exit_def bbind_def bprint_def bleave_def split: prod.split sum.split failure.split option.split)

lemma returns_weaken: "returns m Q \<Longrightarrow> (\<And>a. Q a \<Longrightarrow> R a) \<Longrightarrow> returns m R"
  unfolding returns_def by (fastforce split: sum.splits)

lemma returns_result: "returns m Q \<Longrightarrow> m s = Some (Inr a, s') \<Longrightarrow> Q a"
  unfolding returns_def by (auto dest!: spec [of _ s])

text \<open>A property of every result that a body can give.\<close>

definition results :: "'a body \<Rightarrow> ('a \<Rightarrow> bool) \<Rightarrow> bool" where
  "results m Q \<longleftrightarrow> (\<forall>s a s'. m s = Some (Inr a, s') \<longrightarrow> Q a)"

lemma results_bind:
  assumes "results m Q" "\<And>a. Q a \<Longrightarrow> results (f a) R"
  shows "results (bbind m f) R"
  unfolding results_def
proof (intro allI impI)
  fix s b s' assume "bbind m f s = Some (Inr b, s')"
  then obtain a s1 where "m s = Some (Inr a, s1)" "f a s1 = Some (Inr b, s')" by (rule bbind_Inr)
  with assms show "R b" unfolding results_def by blast
qed

lemma results_any: "results m (\<lambda>_. True)"
  by (simp add: results_def)

lemma results_simple:
  "Q a \<Longrightarrow> results (breturn a) Q" "results (bleave l) Q" "(\<And>a. x = Some a \<Longrightarrow> Q a) \<Longrightarrow> results (bpure x) Q"
  by (auto simp: results_def breturn_def bleave_def bpure_def split: option.splits)

lemma results_scoped: "results m Q \<Longrightarrow> results (scoped m c) Q"
  unfolding results_def scoped_def by (auto split: option.splits sum.splits leave.splits)

lemma results_on_leave: "results m Q \<Longrightarrow> results (on_leave m c) Q"
  unfolding results_def on_leave_def by (auto split: option.splits sum.splits leave.splits)

section \<open>Order of release\<close>

text \<open>Calls that take away what the worker uses, and the calls on its thread.\<close>

definition takes_away :: "syscall \<Rightarrow> bool" where
  "takes_away c \<longleftrightarrow> (case c of Munmap _ _ \<Rightarrow> True | Close _ \<Rightarrow> True | _ \<Rightarrow> False)"

definition thread_call :: "syscall \<Rightarrow> bool" where
  "thread_call c \<longleftrightarrow> c = Thread_start \<or> c = Thread_join"

fun worker_after :: "bool \<Rightarrow> (syscall \<times> int) list \<Rightarrow> bool" where
  "worker_after b [] = b"
| "worker_after b ((c, r) # t) =
     worker_after (if c = Thread_start then b \<or> r = 0 else if c = Thread_join then False else b) t"

fun joins_first :: "bool \<Rightarrow> (syscall \<times> int) list \<Rightarrow> bool" where
  "joins_first b [] = True"
| "joins_first b ((c, r) # t) =
     ((b \<longrightarrow> \<not> takes_away c) \<and>
      joins_first (if c = Thread_start then b \<or> r = 0 else if c = Thread_join then False else b) t)"

lemma worker_after_append: "worker_after b (t @ u) = worker_after (worker_after b t) u"
  by (induction b t rule: worker_after.induct) auto

lemma joins_first_append: "joins_first b (t @ u) = (joins_first b t \<and> joins_first (worker_after b t) u)"
  by (induction b t rule: joins_first.induct) auto

lemma joins_first_quiet:
  "(\<forall>x \<in> set t. \<not> thread_call (fst x) \<and> (b \<longrightarrow> \<not> takes_away (fst x))) \<Longrightarrow> joins_first b t \<and> worker_after b t = b"
  by (induction b t rule: joins_first.induct) (auto simp: thread_call_def)

definition held :: "sys \<Rightarrow> resource multiset \<Rightarrow> bool \<Rightarrow> sys \<Rightarrow> bool" where
  "held s0 R b s \<longleftrightarrow> holds_after s0 R s \<and>
     (\<exists>t. sys_trace s = sys_trace s0 @ t \<and> joins_first False t \<and> worker_after False t = b)"

lemma held_refl: "held s {#} False s"
  by (auto simp: held_def)

lemma held_holds: "held s0 R b s \<Longrightarrow> holds_after s0 R s"
  by (simp add: held_def)

lemma held_step:
  assumes "held s0 R b s" "holds_after s0 R' s'" "called A s s'"
    and "\<And>c. A c \<Longrightarrow> \<not> thread_call c \<and> (b \<longrightarrow> \<not> takes_away c)"
  shows "held s0 R' b s'"
proof -
  from assms(1) obtain t where t: "sys_trace s = sys_trace s0 @ t" "joins_first False t" "worker_after False t = b"
    by (auto simp: held_def)
  from assms(3) obtain u where u: "sys_trace s' = sys_trace s @ u" "\<forall>x \<in> set u. A (fst x)" by (auto simp: called_def)
  from u(2) assms(4) have "joins_first b u" "worker_after b u = b" using joins_first_quiet [of u b] by auto
  with t u(1) assms(2) show ?thesis
    unfolding held_def by (auto simp: joins_first_append worker_after_append intro!: exI [of _ "t @ u"])
qed

lemma held_call:
  assumes "held s0 R b s" "call os c s = (r, s')" "holds_after s0 R' s'"
  shows "\<lbrakk>\<not> thread_call c; b \<longrightarrow> \<not> takes_away c\<rbrakk> \<Longrightarrow> held s0 R' b s'"
    and "\<lbrakk>c = Thread_start\<rbrakk> \<Longrightarrow> held s0 R' (b \<or> r = 0) s'"
    and "\<lbrakk>c = Thread_join\<rbrakk> \<Longrightarrow> held s0 R' False s'"
proof -
  from assms(1) obtain t where t: "sys_trace s = sys_trace s0 @ t" "joins_first False t" "worker_after False t = b"
    by (auto simp: held_def)
  have tr: "sys_trace s' = sys_trace s0 @ (t @ [(c, r)])" using t(1) call_trace [OF assms(2)] by simp
  have *: "held s0 R' (worker_after b [(c, r)]) s'" if "b \<longrightarrow> \<not> takes_away c"
    unfolding held_def using assms(3) tr t(2,3) that
    by (intro conjI exI [of _ "t @ [(c, r)]"]) (simp_all add: joins_first_append worker_after_append)
  show "held s0 R' b s'" if "\<not> thread_call c" "b \<longrightarrow> \<not> takes_away c"
    using * that by (simp add: thread_call_def)
  show "held s0 R' (b \<or> r = 0) s'" if "c = Thread_start" using * that by (simp add: takes_away_def)
  show "held s0 R' False s'" if "c = Thread_join" using * that by (simp add: takes_away_def)
qed

lemma print_call: "\<not> thread_call (Println st msg)" "\<not> takes_away (Println st msg)"
  by (simp_all add: thread_call_def takes_away_def)

lemma try_print_held:
  assumes "held s0 R b s" "try_print os st msg s = (e, s')"
  shows "held s0 R b s'"
proof -
  obtain r s1 where c: "call os (Println st msg) s = (r, s1)" by (rule prod.exhaust)
  have "s' = s1" using assms(2) c by (simp add: try_print_def)
  moreover have "holds_after s0 R s1" using holds_call [OF held_holds [OF assms(1)] c] by simp
  ultimately show ?thesis using held_call(1) [OF assms(1) c] print_call by blast
qed

lemma triple_print_unwind:
  "triple (held s0 R b) (bprint os st msg) (\<lambda>l s. (\<exists>e. l = Unwind e) \<and> held s0 R b s) (\<lambda>_. held s0 R b)"
  by (auto simp: triple_def bprint_def split: prod.splits option.splits dest: try_print_held)

text \<open>A creation: what it leaves on success, on failure and when it throws.\<close>

lemma triple_create:
  assumes "\<And>s. P s \<Longrightarrow> case m s of
      (Inl (Failed e), s') \<Rightarrow> held s0 R b s'
    | (Inl (Thrown e), s') \<Rightarrow> E (Unwind e) s'
    | (Inr a, s') \<Rightarrow> Q a s'"
    and "\<And>l s. held s0 R b s \<Longrightarrow> l = Return 1 \<or> (\<exists>e. l = Unwind e) \<Longrightarrow> E l s"
  shows "triple P (create_or_exit os what m) E Q"
proof (rule tripleI)
  fix s res s' assume s: "P s" "create_or_exit os what m s = Some (res, s')"
  obtain x s1 where m: "m s = (x, s1)" by (rule prod.exhaust)
  show "case res of Inl l \<Rightarrow> E l s' | Inr a \<Rightarrow> Q a s'"
  proof (cases x)
    case (Inr a)
    with s m assms(1) [OF s(1)] show ?thesis by (auto simp: create_or_exit_def)
  next
    case (Inl f)
    show ?thesis
    proof (cases f)
      case (Thrown e)
      with s m Inl assms(1) [OF s(1)] show ?thesis by (auto simp: create_or_exit_def)
    next
      case (Failed e)
      with m Inl assms(1) [OF s(1)] have h: "held s0 R b s1" by simp
      obtain ex s2 where p: "try_print os Stderr (Str what # error_message e) s1 = (ex, s2)" by (rule prod.exhaust)
      from s(2) m Inl Failed p assms(2) try_print_held [OF h p] show ?thesis
        by (cases ex) (auto simp: create_or_exit_def bbind_def bprint_def bleave_def)
    qed
  qed
qed

end
