(* ===== verification/Program.thy ===== *)
theory Program
  imports Reflector Socket Loader Calibration Control Command_Line Metadata Unwind
begin

text \<open>
  The whole program, \<^verbatim>\<open>run_receiver\<close> and \<open>main\<close> of \<^verbatim>\<open>main.cpp\<close>: creation of the area and the socket,
  preparation of the worker, the XDP program, the control loop, shutdown, the exports, every line of
  console output, and the destructors on every path, exceptions included. The two threads are put
  one after the other: what they see of each other (the start of the sampling, the stop request, the
  counters) is in the streams of the record \<open>machine\<close>, so every theorem holds for every interleaving
  that these streams describe. The start of the worker's thread, its stop request and its join are
  calls of the trace. \<open>None\<close> is a fault or a run that never ends.
\<close>

section \<open>The machine\<close>

text \<open>
  The operating system (\<open>ma_os\<close> and the structures its calls fill in), the C library's texts, the
  shared memory and kernel state behind a new socket, the kernel of the data path, the clocks, and
  the outcome of floating point and file operations: \<open>ma_show\<close> and \<open>ma_show_tsc\<close> are the texts of a
  number under \<^verbatim>\<open>{:.0f}\<close> and \<^verbatim>\<open>{:.6f}\<close>. \<open>ma_getcpu\<close> is the result of \<open>sched_getcpu\<close> with \<open>errno\<close>.
  \<open>ma_signal_startup\<close> and \<open>ma_signal_activation\<close>: \<open>g_stop\<close> is seen set once the worker is prepared, and
  before it is activated.
\<close>

record ('k, 'f, 'r) machine =
  ma_os :: os
  ma_lib :: c_library
  ma_offsets :: "(syscall \<times> int) list \<Rightarrow> xdp_mmap_offsets"
  ma_filled :: "(syscall \<times> int) list \<Rightarrow> xdp_statistics \<times> u32"
  ma_inet_pton :: "string \<Rightarrow> int \<times> u32"
  ma_time :: int
  ma_getcpu :: "int \<times> int"
  ma_world :: "Xsk \<Rightarrow> 'k world"
  ma_kernel :: "'k kernel"
  ma_fp :: "'f fp_calib"
  ma_calib :: tsc_env
  ma_policy :: int
  ma_priority :: "int option"
  ma_signal_startup :: bool
  ma_signal_activation :: bool
  ma_activated_at :: int
  ma_control :: control_env
  ma_timing :: timing
  ma_stop :: "nat \<Rightarrow> bool"
  ma_joined_at :: int
  ma_drain_at :: int
  ma_clk :: "nat \<Rightarrow> int"
  ma_index :: "rat \<Rightarrow> nat \<Rightarrow> nat"
  ma_ns :: "'f \<Rightarrow> u64 \<Rightarrow> 'r"
  ma_show :: "'r \<Rightarrow> string"
  ma_show_tsc :: "'f \<Rightarrow> string"
  ma_csv :: "'r stream_io"
  ma_metadata :: metadata_io
  ma_meta :: "'f metadata_env"

definition umem_config :: "Args \<Rightarrow> UmemConfig" where
  "umem_config args =
     \<lparr>uc_num_frames = NUM_FRAMES, uc_frame_size = FRAME_SIZE, uc_headroom = UMEM_HEADROOM,
      uc_use_huge_pages = a_huge_pages args\<rparr>"

definition xsk_config :: "Args \<Rightarrow> XskConfig" where
  "xsk_config args =
     \<lparr>xc_iface = a_iface args, xc_queue_id = a_queue args, xc_ring_size = RING_SIZE,
      xc_zero_copy = a_zerocopy args, xc_need_wakeup = True, xc_busy_poll = True,
      xc_busy_poll_budget = BUSY_POLL_BUDGET, xc_busy_poll_timeout_us = BUSY_POLL_TIMEOUT_US\<rparr>"

section \<open>Messages and threads\<close>

definition errno_text :: "string \<Rightarrow> int \<Rightarrow> message" where
  "errno_text what e = [Str what, Strerror e, Str '' (errno='', Num e, Str '')'']"

fun bprint_all :: "os \<Rightarrow> stream \<Rightarrow> message list \<Rightarrow> unit body" where
  "bprint_all os st [] = breturn ()"
| "bprint_all os st (m # ms) = bbind (bprint os st m) (\<lambda>_. bprint_all os st ms)"

text \<open>An error that is printed and changes the exit code, or does not.\<close>

definition print_errno :: "os \<Rightarrow> string \<Rightarrow> int \<Rightarrow> unit body" where
  "print_errno os what e = bprint os Stderr (errno_text what e)"

text \<open>\<^verbatim>\<open>operator new[]\<close> throws when there is no memory, the constructor of \<^verbatim>\<open>std::jthread\<close> when there is no thread.\<close>

definition bnew :: "os \<Rightarrow> nat \<Rightarrow> unit body" where
  "bnew os n s =
     (let (p, s) = call os (Operator_new n) s in Some (if p = 0 then Inl (Unwind bad_alloc) else Inr (), s))"

definition start_thread :: "os \<Rightarrow> unit body" where
  "start_thread os s =
     (let (e, s) = call os Thread_start s in Some (if e \<noteq> 0 then Inl (Unwind (system_error e)) else Inr (), s))"

text \<open>The two calls before the drain, and the destructor of \<open>poll_thread\<close>.\<close>

definition join_thread :: "os \<Rightarrow> sys \<Rightarrow> sys" where
  "join_thread os s = snd (call os Thread_join (snd (call os Thread_request_stop s)))"

definition destroy_loader :: "os \<Rightarrow> XdpLoader \<Rightarrow> sys \<Rightarrow> sys" where
  "destroy_loader os loader s = snd (loader_release os loader s)"

section \<open>The worker thread\<close>

definition prepare_worker ::
  "('k, 'f, 'r) machine \<Rightarrow> Receiver \<Rightarrow> RunSummary \<Rightarrow> ((int + 'f TscCalibration) \<times> RunSummary) body" where
  "prepare_worker M r summary =
     bbind (bcall (prepare_thread (ma_os M) r)) (\<lambda>res.
     case res of
       Inl e \<Rightarrow> breturn (Inl e, summary)
     | Inr _ \<Rightarrow>
         bbind (bpure (calibrate_tsc (ma_fp M) (ma_calib M))) (\<lambda>startup.
         let summary = summary\<lparr>rs_scheduler_policy := ma_policy M\<rparr>;
             summary = (case ma_priority M of Some p \<Rightarrow> summary\<lparr>rs_scheduler_priority := p\<rparr> | None \<Rightarrow> summary)
         in breturn (startup, summary)))"

text \<open>
  What the worker sees: the sampling only starts if the control thread started it, and a worker that
  was never activated is only released by the stop request.
\<close>

definition worker_timing :: "('k, 'f, 'r) machine \<Rightarrow> control \<Rightarrow> timing" where
  "worker_timing M k = (ma_timing M)\<lparr>start_seen := (\<lambda>n. ct_started k \<and> start_seen (ma_timing M) n)\<rparr>"

definition worker_stop :: "('k, 'f, 'r) machine \<Rightarrow> nat \<Rightarrow> bool" where
  "worker_stop M i \<longleftrightarrow> ma_signal_activation M \<or> ma_stop M i"

section \<open>From the worker's thread to the control loop\<close>

text \<open>
  While the worker prepares itself, the block can be left by a signal, a failed preparation, a failed
  loader or an exception.
\<close>

definition start_up ::
  "('k, 'f, 'r) machine \<Rightarrow> Args \<Rightarrow> Xsk \<Rightarrow> Receiver \<Rightarrow> RunSummary \<Rightarrow> ('f TscCalibration \<times> RunSummary \<times> XdpLoader) body" where
  "start_up M args xsk r summary =
     bbind (prepare_worker M r summary) (\<lambda>(startup, summary).
     if ma_signal_startup M then bleave (Return 0)
     else case startup of
            Inl e \<Rightarrow> bbind (print_errno (ma_os M) ''[main] Worker preparation/calibration failed: '' e) (\<lambda>_. bleave (Return 1))
          | Inr calibration \<Rightarrow>
              bbind (create_or_exit (ma_os M) ''[main] XDP loader failed: ''
                       (XdpLoader_create (ma_os M) (ma_inet_pton M) ''xdp_prog.bpf.o'' (a_iface args) (a_queue args)
                          (xsk_fd xsk) (a_filter_ip args))) (\<lambda>loader.
              breturn (calibration, summary\<lparr>rs_native_xdp := native_mode loader\<rparr>, loader)))"

text \<open>A line printed by the control thread; nothing happens after an exception.\<close>

definition control_print :: "os \<Rightarrow> stream \<Rightarrow> message \<Rightarrow> control \<Rightarrow> control" where
  "control_print os st msg k =
     (if ct_thrown k \<noteq> None then k
      else let (e, s) = try_print os st msg (ct_sys k) in k\<lparr>ct_sys := s, ct_thrown := e\<rparr>)"

definition first_control :: "('k, 'f, 'r) machine \<Rightarrow> RunSummary \<Rightarrow> sys \<Rightarrow> control" where
  "first_control M summary s =
     \<lparr>ct_run = summary, ct_exit = 0, ct_started = False, ct_last_report = ma_activated_at M, ct_last_rejected = 0,
      ct_stop = ma_signal_activation M, ct_thrown = None, ct_sys = s\<rparr>"

definition announce :: "('k, 'f, 'r) machine \<Rightarrow> int \<Rightarrow> 'f TscCalibration \<Rightarrow> control \<Rightarrow> control" where
  "announce M worker_cpu calibration k =
     (if ct_stop k then k
      else let pr = control_print (ma_os M) Stdout;
               k = pr [Str ''[main] Worker CPU='', Num worker_cpu, Str '' | TSC='', Str (ma_show_tsc M (ns_per_tick calibration)),
                       Str '' ns/tick | empty timer pair min='', Wnum (pair_min_ticks calibration),
                       Str '' median='', Wnum (pair_median_ticks calibration), Str '' ticks''] k;
               k = pr [Str ''[measure] callback_tx_staging: warmup='', Num (milliseconds SAMPLE_WARMUP), Str ''ms, next '',
                       Num (int SAMPLE_CAPACITY), Str '' callbacks, then no timestamps''] k
           in pr [Str ''[main] Running. Press Ctrl+C to stop.''] k)"

definition stop_redirection :: "os \<Rightarrow> XdpLoader \<Rightarrow> control \<Rightarrow> control \<times> XdpLoader" where
  "stop_redirection os loader k =
     (let k = control_print os Stdout [Str ''[main] Stopping...''] k
      in if ct_thrown k \<noteq> None then (k, loader)
         else let (res, loader, s) = stop_redirect os loader (ct_sys k);
                  k = k\<lparr>ct_sys := s\<rparr>
              in case res of
                   Inr _ \<Rightarrow> (k, loader)
                 | Inl e \<Rightarrow>
                     let k = control_print os Stderr (errno_text ''[main] Stopping redirection failed: '' e) k
                     in (if ct_thrown k \<noteq> None then k
                         else k\<lparr>ct_exit := 1, ct_run := (ct_run k)\<lparr>rs_stop_redirect_errno := e\<rparr>\<rparr>, loader))"

text \<open>From the activation of the worker to its stop request.\<close>

definition control_phase ::
  "('k, 'f, 'r) machine \<Rightarrow> int \<Rightarrow> int \<Rightarrow> 'f TscCalibration \<Rightarrow> RunSummary \<Rightarrow> XdpLoader \<Rightarrow> (control \<times> XdpLoader) body" where
  "control_phase M fd worker_cpu calibration summary loader s = do {
     let k = announce M worker_cpu calibration (first_control M summary s);
     (_, k) \<leftarrow> control_loop (ma_os M) (ma_filled M) fd (ma_control M) (ma_activated_at M) 0 k;
     let (k, loader) = stop_redirection (ma_os M) loader k;
     Some (Inr (k, loader), ct_sys k) }"

section \<open>Shutdown\<close>

definition collect_stats :: "Receiver \<Rightarrow> Client \<Rightarrow> RunSummary \<Rightarrow> RunSummary" where
  "collect_stats r cl summary =
     (let rstats = receiver_stats r; tstats = transmitter_stats (cl_tx cl); bench = cl_bench cl
      in summary\<lparr>rs_rx_processed := st_packets_received rstats, rs_fill_refill_batches := st_fill_refills rstats,
           rs_rx_first_wakeup_errno := st_rx_first_wakeup_error rstats,
           rs_tx_submitted := st_frames_submitted tstats, rs_tx_reclaimed := st_frames_reclaimed tstats,
           rs_tx_rejected := st_frames_rejected tstats,
           rs_tx_retryable_wakeup_errors := st_retryable_wakeup_errors tstats,
           rs_tx_first_wakeup_errno := st_tx_first_wakeup_error tstats,
           rs_tx_staged := b_staged bench, rs_callback_bytes := b_bytes bench,
           rs_callbacks := b_callbacks bench, rs_unsupported := b_unsupported bench\<rparr>)"

definition note_remaining :: "os \<Rightarrow> u32 \<Rightarrow> int \<Rightarrow> int body" where
  "note_remaining os remaining exit_code =
     (if remaining \<noteq> 0
      then bbind (bprint os Stderr [Str ''[main] TX drain timed out: abandoning '', Wnum remaining,
                    Str '' outstanding frames at teardown'']) (\<lambda>_. breturn 1)
      else breturn exit_code)"

text \<open>From the end of the drain to the end of the block; the loader is destroyed on every way out.\<close>

definition finish ::
  "('k, 'f, 'r) machine \<Rightarrow> int \<Rightarrow> XdpLoader \<Rightarrow> control \<Rightarrow> Receiver \<Rightarrow> Client \<Rightarrow> u32 \<Rightarrow> (RunSummary \<times> int \<times> Samples) body" where
  "finish M fd loader k r cl remaining =
     (let summary = (ct_run k)\<lparr>rs_active_duration := ma_joined_at M - ma_activated_at M, rs_tx_abandoned := remaining\<rparr>
      in bbind (on_leave (note_remaining (ma_os M) remaining (ct_exit k)) (destroy_loader (ma_os M) loader)) (\<lambda>exit_code.
         bbind (bcall (\<lambda>s. let (res, loader, s) = detach (ma_os M) loader s in ((res, loader), s))) (\<lambda>(res, loader).
         scoped
           (case res of
              Inl e \<Rightarrow> bbind (print_errno (ma_os M) ''[main] XDP detach failed: '' e) (\<lambda>_. bleave (Return 1))
            | Inr _ \<Rightarrow>
                bbind (bcall (kernel_stats (ma_os M) (ma_filled M) fd)) (\<lambda>st.
                let (summary, exit_code) = note_kernel_stats st (collect_stats r cl summary) exit_code
                in breturn (summary, exit_code, cl_samples cl)))
           (destroy_loader (ma_os M) loader))))"

text \<open>
  The control thread joins the worker; then the drain, or an exception that was on its way.
\<close>

definition shutdown ::
  "('k, 'f, 'r) machine \<Rightarrow> int \<Rightarrow> control \<Rightarrow> XdpLoader \<Rightarrow> Receiver \<Rightarrow> Client \<Rightarrow> 'k io \<Rightarrow> (RunSummary \<times> int \<times> Samples) body" where
  "shutdown M fd k loader r cl io =
     bbind (bpure (run (strategy (worker_timing M k) (ma_kernel M)) (service_tx (ma_kernel M)) (ma_kernel M)
              (worker_stop M) r cl io)) (\<lambda>(r, cl, io).
     bbind (bcall (\<lambda>s. ((), join_thread (ma_os M) s))) (\<lambda>_.
     case ct_thrown k of
       Some e \<Rightarrow> scoped (bleave (Unwind e)) (destroy_loader (ma_os M) loader)
     | None \<Rightarrow>
         bbind (bpure (drain_until (ma_kernel M) (ma_clk M) (ma_drain_at M + TX_DRAIN_TIMEOUT) (cl_tx cl) io))
           (\<lambda>(remaining, tr, io). finish M fd loader k r (cl\<lparr>cl_tx := tr\<rparr>) remaining)))"

text \<open>
  The block between the creation of the socket and its end. A worker that is stopped before its
  activation makes no pass, so the early returns leave the socket as it is.
\<close>

definition serve ::
  "('k, 'f, 'r) machine \<Rightarrow> Args \<Rightarrow> Xsk \<Rightarrow> int \<Rightarrow> RunSummary \<Rightarrow>
   ('f TscCalibration \<times> RunSummary \<times> int \<times> Samples) body" where
  "serve M args xsk worker_cpu summary =
     bbind (bprint (ma_os M) Stdout [Str ''[main] XSK socket fd='', Num (xsk_fd xsk)]) (\<lambda>_.
     bbind (bpure (FrameAllocator_new ALLOC_CAP NUM_FRAMES FRAME_SIZE)) (\<lambda>al.
     bbind (bprint (ma_os M) Stdout [Str ''[main] Frame allocator: '', Wnum (free_count al), Str ''/'', Wnum NUM_FRAMES,
              Str '' frames free'']) (\<lambda>_.
     bbind (bpure (prime_socket (ma_kernel M) al xsk (ma_world M xsk))) (\<lambda>(res, io).
     bbind (case res of
              Inl e \<Rightarrow>
                if is_expected_wakeup_retry e then breturn ()
                else bprint (ma_os M) Stderr (errno_text ''[main] Initial RX wakeup failed: '' e @ [Str ''; worker will retry''])
            | Inr _ \<Rightarrow> breturn ()) (\<lambda>_.
     bbind (bpure (make_worker worker_cpu (a_realtime args) xsk io)) (\<lambda>(r, cl, io).
     bbind (start_thread (ma_os M)) (\<lambda>_.
     bbind (on_leave (start_up M args xsk r summary) (join_thread (ma_os M))) (\<lambda>(calibration, summary, loader).
     bbind (control_phase M (xsk_fd xsk) worker_cpu calibration summary loader) (\<lambda>(k, loader).
     bbind (shutdown M (xsk_fd xsk) k loader r cl io) (\<lambda>(summary, exit_code, samples).
     breturn (calibration, summary, exit_code, samples)))))))))))"

section \<open>Exports and exit code\<close>

definition report_text :: "('r \<Rightarrow> string) \<Rightarrow> string \<Rightarrow> 'r report \<Rightarrow> message" where
  "report_text shown label rep =
     (case rep of
        NoSamples \<Rightarrow> [Str ''['', Str label, Str ''] no samples'']
      | Report n dropped p50 p90 p99 p999 mx \<Rightarrow>
          [Str ''['', Str label, Str ''] n='', Num (int n), Str '' dropped='', Wnum dropped, Str '' | p50='', Str (shown p50),
           Str ''ns p90='', Str (shown p90), Str ''ns p99='', Str (shown p99), Str ''ns p99.9='', Str (shown p999),
           Str ''ns max='', Str (shown mx), Str ''ns''])"

text \<open>\<open>Samples::report\<close> is \<open>noexcept\<close> and prints.\<close>

definition print_report :: "('k, 'f, 'r) machine \<Rightarrow> 'f \<Rightarrow> Samples \<Rightarrow> Samples body" where
  "print_report M per_tick samples =
     bnoexcept
       (bbind (bpure (samples_report (ma_index M) (ma_ns M per_tick) samples)) (\<lambda>(rep, samples).
        bbind (bprint (ma_os M) Stdout (report_text (ma_show M) ''callback_tx_staging'' rep)) (\<lambda>_.
        breturn samples)))"

definition done_line :: "RunSummary \<Rightarrow> int \<Rightarrow> message" where
  "done_line summary exit_code =
     [Str ''[main] Done. stop_reason='', Str (reason_text (rs_stop_reason summary)), Str '' exit_code='', Num exit_code,
      Str '' rx_frames_processed='', Wnum (rs_rx_processed summary), Str '' tx_frames_staged='', Wnum (rs_tx_staged summary),
      Str '' tx_frames_submitted='', Wnum (rs_tx_submitted summary), Str '' tx_frames_reclaimed='', Wnum (rs_tx_reclaimed summary),
      Str '' tx_frames_rejected='', Wnum (rs_tx_rejected summary), Str '' unsupported_frames='', Wnum (rs_unsupported summary)]"

definition export_csv :: "('k, 'f, 'r) machine \<Rightarrow> 'f \<Rightarrow> Samples \<Rightarrow> RunSummary \<Rightarrow> int \<Rightarrow> (RunSummary \<times> int) body" where
  "export_csv M per_tick samples summary exit_code =
     (case dump_csv (ma_csv M) (ma_ns M per_tick) samples of
        Inl e \<Rightarrow> bbind (print_errno (ma_os M) ''[export] callback_tx_staging_ns.csv failed: '' e) (\<lambda>_. breturn (summary, 1))
      | Inr _ \<Rightarrow> breturn (summary\<lparr>rs_csv_exported := True\<rparr>, exit_code))"

definition export_metadata ::
  "('k, 'f, 'r) machine \<Rightarrow> Args \<Rightarrow> 'f TscCalibration \<Rightarrow> RunSummary \<Rightarrow> int \<Rightarrow> int body" where
  "export_metadata M args calibration summary exit_code =
     bbind (bpure (dump_run_metadata (ma_metadata M) (ma_meta M) args summary calibration exit_code)) (\<lambda>res.
     case res of
       Inl e \<Rightarrow> bbind (print_errno (ma_os M) ''[export] run_metadata.txt failed: '' e) (\<lambda>_. breturn 1)
     | Inr _ \<Rightarrow> breturn exit_code)"

definition export_results ::
  "('k, 'f, 'r) machine \<Rightarrow> Args \<Rightarrow> 'f TscCalibration \<Rightarrow> RunSummary \<Rightarrow> int \<Rightarrow> Samples \<Rightarrow> (int \<times> RunSummary) body" where
  "export_results M args calibration summary exit_code samples =
     bbind (print_report M (ns_per_tick calibration) samples) (\<lambda>samples.
     let summary = summary\<lparr>rs_samples_recorded := samples_count samples\<rparr> in
     bbind (export_csv M (ns_per_tick calibration) samples summary exit_code) (\<lambda>(summary, exit_code).
     bbind (export_metadata M args calibration summary exit_code) (\<lambda>exit_code.
     bbind (bcall (print_kernel_stats (print_stdout (ma_os M)) (rs_kernel_stats summary))) (\<lambda>_.
     bbind (bprint (ma_os M) Stdout (done_line summary exit_code)) (\<lambda>_.
     breturn (exit_code, summary))))))"

section \<open>The program\<close>

text \<open>
  A run that gets to its end gives the exit code and the summary. The members that the destructors
  of the area and the socket read are never assigned after their creation.
\<close>

definition with_socket ::
  "('k, 'f, 'r) machine \<Rightarrow> Args \<Rightarrow> int \<Rightarrow> RunSummary \<Rightarrow> Umem \<Rightarrow> ('f TscCalibration \<times> RunSummary \<times> int \<times> Samples) body" where
  "with_socket M args worker_cpu summary umem =
     bbind (bprint (ma_os M) Stdout
              [Str ''[main] UMEM: '', Wnum (um_size umem div (1024 * 1024)), Str ''MB @ '', Ptr (um_base umem)]) (\<lambda>_.
     bbind (create_or_exit (ma_os M) ''[main] XSK creation failed: ''
              (Xsk_create (ma_os M) (ma_offsets M) (xsk_config args) umem)) (\<lambda>xsk.
     scoped
       (serve M args xsk worker_cpu (summary\<lparr>rs_hugetlb := um_uses_hugetlb umem, rs_zero_copy := xsk_zero_copy xsk\<rparr>))
       (Xsk_destroy (ma_os M) xsk)))"

definition io_block ::
  "('k, 'f, 'r) machine \<Rightarrow> Args \<Rightarrow> int \<Rightarrow> RunSummary \<Rightarrow> ('f TscCalibration \<times> RunSummary \<times> int \<times> Samples) body" where
  "io_block M args worker_cpu summary =
     bbind (create_or_exit (ma_os M) ''[main] UMEM creation failed: '' (Umem_create (ma_os M) (umem_config args))) (\<lambda>umem.
     scoped (with_socket M args worker_cpu summary umem) (\<lambda>s. snd (Umem_release (ma_os M) umem s)))"

definition run_receiver :: "('k, 'f, 'r) machine \<Rightarrow> Args \<Rightarrow> (int \<times> RunSummary) body" where
  "run_receiver M args =
     bbind (bprint_all (ma_os M) Stdout
              [[Str ''[main] Starting AF_XDP receiver''], [Str ''[main] Interface : '', Str (a_iface args)],
               [Str ''[main] Filter IP : '', Str (a_filter_ip args)], [Str ''[main] Queue     : '', Wnum (a_queue args)]]) (\<lambda>_.
     let worker_cpu = (if a_cpu_pin args \<ge> 0 then a_cpu_pin args else fst (ma_getcpu M))
     in if worker_cpu < 0
        then bbind (bprint (ma_os M) Stderr [Str ''[main] Cannot select worker CPU: '', Strerror (snd (ma_getcpu M))]) (\<lambda>_.
             bleave (Return 1))
        else bbind (bnew (ma_os M) (8 * SAMPLE_CAPACITY)) (\<lambda>_.
             bbind (io_block M args worker_cpu ((RunSummary_new (ma_time M))\<lparr>rs_worker_cpu := worker_cpu\<rparr>))
               (\<lambda>(calibration, summary, exit_code, samples).
             export_results M args calibration summary exit_code samples)))"

text \<open>\<open>main\<close>: only \<open>run_receiver\<close> is inside the \<open>try\<close> block; \<open>parse_args\<close> gives no error value.\<close>

datatype outcome = Exit int | Abort exn

definition main_program ::
  "('k, 'f, 'r) machine \<Rightarrow> sig_os \<Rightarrow> string \<Rightarrow> string list \<Rightarrow> sig_state \<Rightarrow> sys \<Rightarrow> (outcome \<times> sig_state \<times> sys) option" where
  "main_program M G prog argv sg s =
     (case parse_args (ma_os M) prog argv s of
        (Inl (Thrown e), s) \<Rightarrow> Some (Abort e, sg, s)
      | (Inl (Failed e), s) \<Rightarrow> None
      | (Inr None, s) \<Rightarrow> Some (Exit 1, sg, s)
      | (Inr (Some args), s) \<Rightarrow>
          (case install_signal_handlers G sg of
             (Inl e, sg) \<Rightarrow>
               (case try_print (ma_os M) Stderr (errno_text ''[main] Signal setup failed: '' e) s of
                  (Some ex, s) \<Rightarrow> Some (Abort ex, sg, s)
                | (None, s) \<Rightarrow> Some (Exit 1, sg, s))
           | (Inr _, sg) \<Rightarrow>
               (case run_receiver M args s of
                  None \<Rightarrow> None
                | Some (Inr (exit_code, _), s) \<Rightarrow> Some (Exit exit_code, sg, s)
                | Some (Inl (Return exit_code), s) \<Rightarrow> Some (Exit exit_code, sg, s)
                | Some (Inl (Terminate e), s) \<Rightarrow> Some (Abort e, sg, s)
                | Some (Inl (Unwind e), s) \<Rightarrow>
                    (case printf (''[main] Aborted: %s; cleanup attempted, queued work abandoned'' @ nl)
                            [A_str (lib_what (ma_lib M) e)] of
                       None \<Rightarrow> None
                     | Some str \<Rightarrow> Some (Exit 1, sg, snd (call (ma_os M) (Fprintf Stderr str) s))))))"

section \<open>What the program relies on\<close>

text \<open>A ring area after \<open>mmap\<close>: zero indices, room for the configured number of entries.\<close>

definition zeroed_ring :: "'d shm \<Rightarrow> bool" where
  "zeroed_ring sh \<longleftrightarrow> sh_producer sh = 0 \<and> sh_consumer sh = 0 \<and> length (sh_descs sh) = unat RING_SIZE"

definition zeroed_world :: "('k \<Rightarrow> u64 multiset) \<Rightarrow> ('k \<Rightarrow> u64 multiset) \<Rightarrow> 'k world \<Rightarrow> bool" where
  "zeroed_world kr kt w \<longleftrightarrow> zeroed_ring (w_rx w) \<and> zeroed_ring (w_tx w) \<and> zeroed_ring (w_fill w) \<and> zeroed_ring (w_cq w) \<and>
     kr (w_kern w) = {#} \<and> kt (w_kern w) = {#} \<and> length (w_umem w) = unat NUM_FRAMES * unat FRAME_SIZE"

text \<open>
  The kernel keeps the AF_XDP protocol, new rings are zeroed, some sleep is not interrupted, a
  signal arrives, the worker sees the stop request, and the clock reaches the deadline of the drain.
\<close>

definition machine_ok ::
  "('k \<Rightarrow> u64 multiset) \<Rightarrow> ('k \<Rightarrow> u64 multiset) \<Rightarrow> ('k, 'f, 'r) machine \<Rightarrow> bool" where
  "machine_ok kr kt M \<longleftrightarrow> kernel_contract main_geometry kr kt (ma_kernel M) \<and>
     (\<forall>xsk. zeroed_world kr kt (ma_world M xsk)) \<and> (\<exists>j. te_nanosleep (ma_calib M) j \<noteq> Some EINTR) \<and>
     (\<exists>j. ce_signal (ma_control M) j) \<and> (\<exists>j. ma_stop M j) \<and>
     (\<exists>j. ma_drain_at M + TX_DRAIN_TIMEOUT \<le> ma_clk M j)"

end
