(* ===== verification/Program_Resources.thy ===== *)
theory Program_Resources
  imports Program
begin

text \<open>
  What a run of the program leaves behind, on every way out of \<open>run_receiver\<close>, and that memory and
  descriptors are only given back while no worker thread is running. Each part of the program has a
  triple over \<open>held\<close>; \<open>leaves\<close> is the assertion for its early exits.
\<close>

section \<open>Calls of the components\<close>

definition quiet :: "syscall \<Rightarrow> bool" where
  "quiet c \<longleftrightarrow> \<not> thread_call c"

lemmas quiet_defs = quiet_def thread_call_def

lemma unmap_snd:
  "snd (MmapRing_unmap os r s) = (if map_base r \<noteq> NULL then snd (call os (Munmap (map_base r) (map_size r)) s) else s)"
  "snd (Umem_release os u s) = (if um_base u \<noteq> NULL then snd (call os (Munmap (um_base u) (um_size u)) s) else s)"
  "snd (FileDesc_reset os f s) = (if fd_raw f \<ge> 0 then snd (call os (Close (fd_raw f)) s) else s)"
  by (simp_all add: MmapRing_unmap_def Umem_release_def FileDesc_reset_def split: prod.split)

lemma release_calls:
  "calls_only quiet (\<lambda>s. snd (MmapRing_unmap os r s))" "calls_only quiet (\<lambda>s. snd (Umem_release os u s))"
  "calls_only quiet (\<lambda>s. snd (FileDesc_reset os f s))"
  unfolding unmap_snd by (intro calls_only_if calls_only_call; simp add: quiet_defs)+

lemma unmap_all_calls: "calls_only quiet (unmap_all os rs)"
proof (induction rs)
  case Nil
  show ?case by (simp add: calls_only_def)
next
  case (Cons r rs)
  from calls_only_comp [OF release_calls(1) Cons.IH, of os r] show ?case by simp
qed

lemma Xsk_destroy_calls: "calls_only quiet (Xsk_destroy os x)"
  unfolding Xsk_destroy_def [abs_def] by (rule calls_only_comp [OF unmap_all_calls release_calls(3)])

lemma map_ring_calls: "(\<And>r. emits quiet (rest r)) \<Longrightarrow> emits quiet (map_ring os fd off ro n sz rest)"
  unfolding map_ring_def MmapRing_create_def Let_def
  by (intro emits_rules unmap_all_calls) (simp_all add: quiet_defs)

lemma bind_copy_calls: "emits quiet (bind_copy os cfg fd i fl)"
  unfolding bind_copy_def Let_def by (intro emits_rules) (simp_all add: quiet_defs)

lemma bind_socket_calls: "emits quiet (bind_socket os cfg fd i)"
proof -
  have zc: "emits quiet (\<lambda>s. (if r = 0 then ebind (log_line os l1 Info m1) (\<lambda>_. ereturn fl)
      else ebind (log_line os l2 Warn (m2 (sys_errno s))) (\<lambda>_. bind_copy os cfg fd i fl2)) s)" for r l1 m1 fl l2 m2 fl2
    by (rule emits_state [of _ "\<lambda>e. if r = 0 then ebind (log_line os l1 Info m1) (\<lambda>_. ereturn fl)
      else ebind (log_line os l2 Warn (m2 e)) (\<lambda>_. bind_copy os cfg fd i fl2)" sys_errno],
      intro emits_if emits_rules bind_copy_calls) (simp_all add: quiet_defs)
  show ?thesis
    unfolding bind_socket_def Let_def
    by (intro emits_if emits_bind emits_call bind_copy_calls zc) (simp_all add: quiet_defs)
qed

lemma finish_socket_calls: "emits quiet (finish_socket os cfg fd rx tx fill cq)"
  unfolding finish_socket_def set_busy_poll_def
  by (intro emits_if emits_rules bind_socket_calls) (simp_all add: quiet_defs)

lemma Xsk_create_calls: "emits quiet (Xsk_create os offsets cfg umem)"
proof -
  have maps: "emits quiet (\<lambda>s. (let off = offsets (sys_trace s) in
      map_ring os fd o1 (off_rx off) n 16 (\<lambda>rx. map_ring os fd o2 (off_tx off) n 16 (\<lambda>tx.
      map_ring os fd o3 (off_fr off) n 8 (\<lambda>fill. map_ring os fd o4 (off_cr off) n 8 (\<lambda>cq.
      finish_socket os cfg fd rx tx fill cq))))) s)" for fd o1 o2 o3 o4 n
    unfolding Let_def by (rule emits_state) (intro map_ring_calls finish_socket_calls)
  show ?thesis
    unfolding Xsk_create_def set_ring_sizes_def register_umem_def Let_def
    by (intro emits_rules release_calls maps [unfolded Let_def]) (simp_all add: quiet_defs)
qed

text \<open>The creation of the area is written with the calls in sequence.\<close>

lemma snd_call_let: "snd (let (r, s) = call os c s in f r s) = (let (r, s) = call os c s in snd (f r s))"
  by (simp split: prod.split)

lemma calls_only_let:
  assumes "quiet c" "\<And>r. calls_only quiet (f r)"
  shows "calls_only quiet (\<lambda>s. let (r, s) = call os c s in f r s)"
  unfolding calls_only_def
proof
  fix s
  obtain r s1 where c: "call os c s = (r, s1)" by (rule prod.exhaust)
  from assms(2) [of r] obtain t where "sys_trace (f r s1) = sys_trace s1 @ t" "\<forall>x \<in> set t. quiet (fst x)"
    unfolding calls_only_def by blast
  with c call_trace [OF c] assms(1)
  show "\<exists>t. sys_trace (let (r, s) = call os c s in f r s) = sys_trace s @ t \<and> (\<forall>x \<in> set t. quiet (fst x))"
    by (intro exI [of _ "(c, r) # t"]) auto
qed

lemma lock_area_calls: "emits quiet (lock_area os cfg b used)"
proof -
  have "emits quiet (\<lambda>s. let (ret, s) = call os (Mlock b n) s
      in if ret \<noteq> 0 then let (_, s) = call os (Munmap b n) s in (Inl (f s), s) else (Inr u, s))" for n f and u :: Umem
    unfolding emits_calls_only snd_call_let if_distrib [of snd] snd_conv
    by (intro calls_only_let calls_only_if calls_only_id) (simp_all add: quiet_defs)
  then show ?thesis
    unfolding lock_area_def log_pages_def Let_def by (intro emits_if emits_rules) (simp_all add: quiet_defs)
qed

lemma map_area_called:
  assumes "map_area os cfg s = (x, s')"
  shows "called quiet s s'"
proof -
  obtain b2 s2 where c2: "(if uc_use_huge_pages cfg then call os (Mmap (total_size cfg) AnonymousHuge) s
    else (MAP_FAILED, s)) = (b2, s2)" by (rule prod.exhaust)
  obtain b3 s3 where c3: "(if b2 = MAP_FAILED then call os (Mmap (total_size cfg) Anonymous) s2 else (b2, s2)) = (b3, s3)"
    by (rule prod.exhaust)
  have "called quiet s s2" using c2 called_call [of os "Mmap (total_size cfg) AnonymousHuge" s b2 s2 quiet]
    by (auto simp: quiet_defs called_refl split: if_splits)
  moreover have "called quiet s2 s3" using c3 called_call [of os "Mmap (total_size cfg) Anonymous" s2 b3 s3 quiet]
    by (auto simp: quiet_defs called_refl split: if_splits)
  ultimately show ?thesis using assms c2 c3 by (auto simp: map_area_def Let_def intro: called_trans)
qed

lemma Umem_create_calls: "emits quiet (Umem_create os cfg)"
  unfolding emits_called
proof (intro allI impI)
  fix s x s' assume u: "Umem_create os cfg s = (x, s')"
  obtain r1 s1 where c1: "call os Setrlimit_memlock s = (r1, s1)" by (rule prod.exhaust)
  obtain b used s2 where c2: "map_area os cfg s1 = ((b, used), s2)" by (metis prod.exhaust)
  obtain y s3 where c3: "lock_area os cfg b used s2 = (y, s3)" by (rule prod.exhaust)
  have "called quiet s s1" using called_call [OF c1] by (simp add: quiet_defs)
  moreover note map_area_called [OF c2]
  moreover have "called quiet s2 s3" using lock_area_calls c3 unfolding emits_called by blast
  ultimately show "called quiet s s'"
    using u c1 c2 c3 by (auto simp: Umem_create_def split: if_splits intro: called_trans)
qed

section \<open>Ways out\<close>

text \<open>
  A block that started with the resources \<open>B\<close> is left with these, and with the attachment if
  detaching failed; that shows in the exit code, or an exception is on its way.
\<close>

definition leaves :: "sys \<Rightarrow> resource multiset \<Rightarrow> bool \<Rightarrow> leave \<Rightarrow> sys \<Rightarrow> bool" where
  "leaves s0 B b l s \<longleftrightarrow> \<not> is_Terminate l \<and>
     (\<exists>ld. held s0 (B + left_over ld) b s \<and> stuck s0 s ld \<and> (left_over ld \<noteq> {#} \<longrightarrow> l = Return 1 \<or> (\<exists>e. l = Unwind e)))"

lemma held_leaves: "held s0 B b s \<Longrightarrow> \<not> is_Terminate l \<Longrightarrow> leaves s0 B b l s"
  unfolding leaves_def using stuck_empty [OF held_holds] by (intro conjI exI [of _ XdpLoader_empty]) auto

lemma leaves_Terminate [simp]: "\<not> leaves s0 B b (Terminate e) s"
  by (simp add: leaves_def)

lemma triple_bprint: "triple (held s0 B b) (bprint os st msg) (leaves s0 B b) (\<lambda>_. held s0 B b)"
  by (rule triple_conseq [OF triple_print_unwind]) (auto intro: held_leaves)

lemma triple_bprint_all: "triple (held s0 B b) (bprint_all os st msgs) (leaves s0 B b) (\<lambda>_. held s0 B b)"
proof (induction msgs)
  case Nil
  show ?case by (simp add: triple_breturn)
next
  case (Cons m ms)
  show ?case unfolding bprint_all.simps by (rule triple_bind [OF triple_bprint Cons.IH])
qed

lemma triple_print_leave:
  "triple (held s0 B b) (bbind (bprint os st msg) (\<lambda>_. bleave (Return c))) (leaves s0 B b) Q"
  by (rule triple_bind [OF triple_bprint triple_bleave]) (simp add: held_leaves)

lemma quiet_step:
  assumes "held s0 R False s" "holds_after s0 R' s'" "called quiet s s'"
  shows "held s0 R' False s'"
  using held_step [OF assms] by (simp add: quiet_def)

lemma held_join:
  assumes "held s0 (B + {#Worker#}) b s"
  shows "held s0 B False (join_thread os s)"
proof -
  obtain r1 s1 where c1: "call os Thread_request_stop s = (r1, s1)" by (rule prod.exhaust)
  obtain r2 s2 where c2: "call os Thread_join s1 = (r2, s2)" by (rule prod.exhaust)
  have "holds_after s0 (B + {#Worker#}) s1" using holds_call [OF held_holds [OF assms] c1] by simp
  then have h1: "held s0 (B + {#Worker#}) b s1"
    using held_call(1) [OF assms c1] by (simp add: thread_call_def takes_away_def)
  have "holds_after s0 B s2" by (rule holds_release [OF held_holds [OF h1] c2]) simp_all
  then show ?thesis using held_call(3) [OF h1 c2] c1 c2 by (simp add: join_thread_def)
qed

lemma join_thread_calls: "calls_only (\<lambda>_. True) (join_thread os)"
  unfolding join_thread_def [abs_def] by (rule calls_only_comp [OF calls_only_call calls_only_call]) simp_all

lemma leaves_join:
  assumes "leaves s0 (B + {#Worker#}) b l s"
  shows "leaves s0 B False l (join_thread os s)"
proof -
  from assms obtain ld where "held s0 ((B + left_over ld) + {#Worker#}) b s" "stuck s0 s ld"
    "left_over ld \<noteq> {#} \<longrightarrow> l = Return 1 \<or> (\<exists>e. l = Unwind e)" "\<not> is_Terminate l" by (auto simp: leaves_def ac_simps)
  with held_join stuck_called [OF _ calls_only_called [OF join_thread_calls]] show ?thesis unfolding leaves_def by blast
qed

section \<open>The loader and the control thread\<close>

lemma loader_call_calm: "loader_call c \<Longrightarrow> \<not> thread_call c \<and> \<not> takes_away c"
  by (cases c) (simp_all add: loader_call_def thread_call_def takes_away_def)

lemma control_call_calm: "control_call c \<Longrightarrow> \<not> thread_call c \<and> \<not> takes_away c"
  by (cases c) (simp_all add: control_call_def thread_call_def takes_away_def)

lemma held_loader:
  assumes "held s0 R b s" "holds_after s0 R' s'" "called loader_call s s'"
  shows "held s0 R' b s'"
  using held_step [OF assms] loader_call_calm by blast

lemma held_control:
  assumes "held s0 R b s" "called control_call s s'"
  shows "held s0 R b s'"
  using held_step [OF assms(1) called_holds [OF assms(2) held_holds [OF assms(1)]] assms(2)] control_call_calm by blast

lemma destroy_loader_leaves:
  assumes "held s0 (B + loader_res l) b s" "ld_ifindex l \<noteq> 0 \<longrightarrow> lv = Return 1 \<or> (\<exists>e. lv = Unwind e)" "\<not> is_Terminate lv"
  shows "leaves s0 B b lv (destroy_loader os l s)"
proof -
  from release_left_over [OF held_holds [OF assms(1)], of os] obtain ld where
    "holds_after s0 (B + left_over ld) (destroy_loader os l s)" "ld_ifindex l = 0 \<longrightarrow> left_over ld = {#}"
    "stuck s0 (destroy_loader os l s) ld"
    unfolding destroy_loader_def by blast
  moreover have "called loader_call s (destroy_loader os l s)"
    unfolding destroy_loader_def by (rule calls_only_called [OF loader_release_calls])
  ultimately show ?thesis using held_loader [OF assms(1)] assms(2,3) unfolding leaves_def by blast
qed

lemma destroy_detached:
  assumes "held s0 (B + loader_res l) b s" "ld_ifindex l = 0"
  shows "held s0 B b (destroy_loader os l s)"
  using destroy_loader_leaves [OF assms(1), of "Return 0" os] assms(2) by (auto simp: leaves_def)

lemma control_print_called: "called control_call (ct_sys k) (ct_sys (control_print os st msg k))"
  by (auto simp: control_print_def Let_def called_refl split: prod.split intro: try_print_called)

lemma announce_called: "called control_call (ct_sys k) (ct_sys (announce M cpu cal k))"
  using called_trans [OF called_trans [OF control_print_called control_print_called] control_print_called]
  by (simp add: announce_def Let_def called_refl)

lemma stop_redirection_held:
  assumes "held s0 (B + loader_res l) b (ct_sys k)" "stop_redirection os l k = (k', l')"
  shows "held s0 (B + loader_res l') b (ct_sys k')"
proof -
  define k1 where "k1 = control_print os Stdout [Str ''[main] Stopping...''] k"
  have h1: "held s0 (B + loader_res l) b (ct_sys k1)"
    using held_control [OF assms(1) control_print_called] by (simp add: k1_def)
  obtain x l2 s2 where sr: "stop_redirect os l (ct_sys k1) = (x, l2, s2)" by (metis prod.exhaust)
  have "called loader_call (ct_sys k1) s2"
    using calls_only_called [OF stop_redirect_calls, of "ct_sys k1" os l] sr by simp
  from held_loader [OF h1 _ this] stop_redirect_holds(1,2) [OF held_holds [OF h1] sr]
  have h2: "held s0 (B + loader_res l2) b s2" by simp
  have h3: "held s0 (B + loader_res l2) b (ct_sys (control_print os Stderr msg (k1\<lparr>ct_sys := s2\<rparr>)))" for msg
    using held_control [OF h2] control_print_called [of "k1\<lparr>ct_sys := s2\<rparr>"] by simp
  show ?thesis
  proof (cases "ct_thrown k1")
    case None
    with assms(2) sr h2 h3 show ?thesis
      by (auto simp: stop_redirection_def k1_def [symmetric] Let_def split: sum.splits if_splits)
  next
    case (Some e)
    with assms(2) h1 show ?thesis by (simp add: stop_redirection_def k1_def [symmetric] Let_def)
  qed
qed

lemma triple_control_phase:
  "triple (held s0 (B + loader_res l) b) (control_phase M fd cpu cal sm l) E
    (\<lambda>x. held s0 (B + loader_res (snd x)) b)"
proof (rule tripleI)
  fix s res s' assume h: "held s0 (B + loader_res l) b s" and c: "control_phase M fd cpu cal sm l s = Some (res, s')"
  from c obtain n k k' l' where cl: "control_loop (ma_os M) (ma_filled M) fd (ma_control M) (ma_activated_at M) 0
      (announce M cpu cal (first_control M sm s)) = Some (n, k)" "stop_redirection (ma_os M) l k = (k', l')"
      "res = Inr (k', l')" "s' = ct_sys k'"
    by (auto simp: control_phase_def Let_def split: bind_splits prod.splits)
  have "called control_call s (ct_sys k)"
    using called_trans [OF announce_called control_loop_called [OF cl(1)]] by (simp add: first_control_def)
  from stop_redirection_held [OF held_control [OF h this] cl(2)] cl(3,4)
  show "case res of Inl l \<Rightarrow> E l s' | Inr x \<Rightarrow> held s0 (B + loader_res (snd x)) b s'" by simp
qed

lemma triple_prepare_worker: "triple (held s0 B b) (prepare_worker M r sm) E (\<lambda>_. held s0 B b)"
proof -
  have "triple (held s0 B b) (bcall (prepare_thread os r)) E (\<lambda>_. held s0 B b)" for os
  proof (rule triple_bcall)
    fix s res s' assume h: "held s0 B b s" and p: "prepare_thread os r s = (res, s')"
    from prepare_thread_calls [OF p] obtain t where
      t: "sys_trace s' = sys_trace s @ t" "map fst t = take (length t) (planned_calls r)" by blast
    have c: "(\<exists>m. fst x = Pthread_setaffinity m) \<or> (\<exists>p n. fst x = Sched_setscheduler p n)" if "x \<in> set t" for x
      using that t(2) planned_calls_kinds by (metis in_set_takeD image_eqI list.set_map)
    have calm: "\<not> thread_call (fst x) \<and> \<not> takes_away (fst x)" if "x \<in> set t" for x
      using c [OF that] by (auto simp: thread_call_def takes_away_def)
    have "\<forall>x \<in> set t. acquires x = {#} \<and> releases x = {#}" using c by (metis acquires.simps prod.collapse releases.simps)
    then have "acquired t = {#}" "released t = {#}" unfolding acquired_def released_def by (simp_all cong: map_cong)
    with t(1) have "holds_after s {#} s'" unfolding holds_after_def by auto
    from holds_after_trans [OF held_holds [OF h] this] have "holds_after s0 B s'" by simp
    moreover have "called (\<lambda>c. \<not> thread_call c \<and> \<not> takes_away c) s s'"
      unfolding called_def using t(1) calm by (intro exI [of _ t]) blast
    ultimately show "held s0 B b s'" using held_step [OF h] by blast
  qed
  then show ?thesis
    unfolding prepare_worker_def Let_def
    by (rule triple_bind) (auto intro!: triple_breturn triple_bind [OF triple_bpure] split: sum.split)
qed

lemma triple_start_up:
  "triple (held s0 B b) (start_up M args xsk r sm) (leaves s0 B b)
    (\<lambda>x. held s0 (B + loader_res (snd (snd x))) b)"
proof -
  let ?create = "XdpLoader_create (ma_os M) (ma_inet_pton M) ''xdp_prog.bpf.o'' (a_iface args) (a_queue args)
    (xsk_fd xsk) (a_filter_ip args)"
  have create: "triple (held s0 B b) (create_or_exit (ma_os M) what ?create) (leaves s0 B b) (\<lambda>l. held s0 (B + loader_res l) b)" for what
  proof (rule triple_create)
    fix s assume h: "held s0 B b s"
    obtain x s' where c: "?create s = (x, s')" by (rule prod.exhaust)
    have "called loader_call s s'" using XdpLoader_create_calls c unfolding emits_called by blast
    note step = held_loader [OF h _ this]
    from XdpLoader_create_holds [OF c held_holds [OF h]] c step
    show "case ?create s of (Inl (Failed e), s') \<Rightarrow> held s0 B b s' | (Inl (Thrown e), s') \<Rightarrow> leaves s0 B b (Unwind e) s'
        | (Inr a, s') \<Rightarrow> held s0 (B + loader_res a) b s'"
      by (auto simp: leaves_def split: sum.splits failure.splits)
  qed (auto intro: held_leaves)
  show ?thesis
    unfolding start_up_def print_errno_def
  proof (rule triple_bind [OF triple_prepare_worker], unfold split_beta, rule triple_if, goal_cases)
    case 1
    show ?case by (rule triple_bleave [OF held_leaves]) simp_all
  next
    case (2 a)
    show ?case by (cases "fst a") (auto intro: triple_print_leave triple_bind [OF create triple_breturn])
  qed
qed

section \<open>Shutdown and the whole run\<close>

lemma triple_note_remaining:
  "triple (held s0 B b) (note_remaining os n c) (\<lambda>l s. (\<exists>e. l = Unwind e) \<and> held s0 B b s) (\<lambda>_. held s0 B b)"
  unfolding note_remaining_def
  by (intro triple_if triple_bind [OF triple_print_unwind] triple_breturn)

lemma triple_detach:
  "triple (held s0 (B + loader_res l) b) (bcall (\<lambda>s. let (res, loader, s) = detach os l s in ((res, loader), s))) E
    (\<lambda>x s. (fst x = Inr () \<longleftrightarrow> ld_ifindex (snd x) = 0) \<and> held s0 (B + loader_res (snd x)) b s)"
proof (rule triple_bcall)
  fix s x s' assume h: "held s0 (B + loader_res l) b s"
    and d: "(let (res, loader, s) = detach os l s in ((res, loader), s)) = (x, s')"
  from d have dt: "detach os l s = (fst x, snd x, s')" by (auto split: prod.splits)
  have "called loader_call s s'" using calls_only_called [OF detach_calls, of s os l] dt by simp
  from held_loader [OF h _ this] detach_holds [OF held_holds [OF h] dt]
  show "(fst x = Inr () \<longleftrightarrow> ld_ifindex (snd x) = 0) \<and> held s0 (B + loader_res (snd x)) b s'" by simp
qed

lemma triple_kernel_stats: "triple (held s0 B b) (bcall (kernel_stats os filled fd)) E (\<lambda>_. held s0 B b)"
  by (rule triple_bcall) (blast intro: held_control kernel_stats_called)

lemma triple_detached:
  assumes "res = Inr () \<longleftrightarrow> ld_ifindex l = 0"
  shows "triple (held s0 (B + loader_res l) b)
    (scoped (case res of
        Inl e \<Rightarrow> bbind (bprint os Stderr (errno_text what e)) (\<lambda>_. bleave (Return 1))
      | Inr _ \<Rightarrow> bbind (bcall (kernel_stats os filled fd)) (\<lambda>st. breturn (f st)))
      (destroy_loader os l)) (leaves s0 B b) (\<lambda>_. held s0 B b)"
proof (cases res)
  case (Inl e)
  have "triple (held s0 (B + loader_res l) b) (bbind (bprint os Stderr (errno_text what e)) (\<lambda>_. bleave (Return 1)))
      (\<lambda>lv s. ((\<exists>e. lv = Unwind e) \<or> lv = Return 1) \<and> held s0 (B + loader_res l) b s) (\<lambda>_ _. False)"
    by (rule triple_bind [OF triple_conseq [OF triple_print_unwind] triple_bleave]) auto
  then show ?thesis unfolding Inl sum.case
    by (rule triple_scoped) (auto intro: destroy_loader_leaves split: leave.split)
next
  case (Inr u)
  have "triple (held s0 (B + loader_res l) b) (bbind (bcall (kernel_stats os filled fd)) (\<lambda>st. breturn (f st)))
      (\<lambda>_ _. False) (\<lambda>_. held s0 (B + loader_res l) b)"
    by (rule triple_bind [OF triple_kernel_stats triple_breturn])
  then show ?thesis unfolding Inr sum.case
    by (rule triple_scoped) (use assms Inr in \<open>auto intro: destroy_detached\<close>)
qed

lemma triple_finish:
  "triple (held s0 (B + loader_res l) b) (finish M fd l k r cl n) (leaves s0 B b) (\<lambda>_. held s0 B b)"
  unfolding finish_def Let_def split_beta print_errno_def
proof (rule triple_bind [OF triple_on_leave [OF triple_note_remaining]], goal_cases)
  case (1 lv s)
  then show ?case by (auto intro!: destroy_loader_leaves)
next
  case (2 c)
  show ?case
    by (rule triple_bind [OF triple_detach [unfolded Let_def split_beta]]) (rule triple_pre, rule triple_detached)
qed

lemma triple_shutdown:
  "triple (held s0 (B + {#Worker#} + loader_res l) b) (shutdown M fd k l r cl io) (leaves s0 B False) (\<lambda>_. held s0 B False)"
proof -
  have join: "triple (held s0 (B + {#Worker#} + loader_res l) b) (bcall (\<lambda>s. ((), join_thread (ma_os M) s))) E
      (\<lambda>_. held s0 (B + loader_res l) False)" for E
  proof (rule triple_bcall)
    fix s a s' assume h: "held s0 (B + {#Worker#} + loader_res l) b s" and c: "((), join_thread (ma_os M) s) = (a, s')"
    have "held s0 ((B + loader_res l) + {#Worker#}) b s" using h by (simp add: ac_simps)
    from held_join [OF this, of "ma_os M"] c show "held s0 (B + loader_res l) False s'" by simp
  qed
  have thrown: "triple (held s0 (B + loader_res l) False) (scoped (bleave (Unwind e)) (destroy_loader (ma_os M) l))
      (leaves s0 B False) (\<lambda>_. held s0 B False)" for e
    by (auto simp: triple_def scoped_def bleave_def intro!: destroy_loader_leaves)
  show ?thesis
    unfolding shutdown_def split_beta
    by (rule triple_bind [OF triple_bpure], rule triple_bind [OF join], cases "ct_thrown k")
      (auto intro: thrown triple_bind [OF triple_bpure] triple_finish)
qed

lemma triple_start_thread:
  "triple (held s0 B False) (start_thread os) (leaves s0 B False) (\<lambda>_. held s0 (B + {#Worker#}) True)"
proof (rule tripleI)
  fix s res s' assume h: "held s0 B False s" and st: "start_thread os s = Some (res, s')"
  obtain r s1 where c: "call os Thread_start s = (r, s1)" by (rule prod.exhaust)
  have "holds_after s0 (B + acquires (Thread_start, r)) s1" by (rule holds_call [OF held_holds [OF h] c]) simp
  from held_call(2) [OF h c this] c st
  show "case res of Inl l \<Rightarrow> leaves s0 B False l s' | Inr a \<Rightarrow> held s0 (B + {#Worker#}) True s'"
    by (auto simp: start_thread_def split: if_splits intro!: held_leaves)
qed

lemma triple_serve: "triple (held s0 B False) (serve M args xsk cpu sm) (leaves s0 B False) (\<lambda>_. held s0 B False)"
proof -
  have wakeup: "triple (held s0 B False) (case res of
        Inl e \<Rightarrow> if is_expected_wakeup_retry e then breturn () else bprint os Stderr (f e)
      | Inr (u :: unit) \<Rightarrow> breturn ()) (leaves s0 B False) (\<lambda>_. held s0 B False)" for os f res
    by (cases res) (auto intro: triple_breturn triple_bprint)
  have start: "triple (held s0 (B + {#Worker#}) True) (on_leave (start_up M args xsk r sm) (join_thread (ma_os M)))
      (leaves s0 B False) (\<lambda>x. held s0 (B + {#Worker#} + loader_res (snd (snd x))) True)" for r
    by (rule triple_on_leave [OF triple_start_up]) (auto intro: leaves_join split: leave.split)
  show ?thesis
    unfolding serve_def split_beta
    by (intro triple_bind [OF triple_bprint] triple_bind [OF triple_bpure] triple_bind [OF wakeup]
        triple_bind [OF triple_start_thread] triple_bind [OF start] triple_bind [OF triple_control_phase]
        triple_bind [OF triple_shutdown] triple_breturn)
qed

text \<open>A block with a local object that owns the resources \<open>R\<close>.\<close>

lemma triple_object:
  assumes m: "triple (held s0 (B + R) False) m (leaves s0 (B + R) False) (\<lambda>_. held s0 (B + R) False)"
    and destroy: "\<And>B' s. held s0 (B' + R) False s \<Longrightarrow> held s0 B' False (cleanup s)" and calls: "calls_only quiet cleanup"
  shows "triple (held s0 (B + R) False) (scoped m cleanup) (leaves s0 B False) (\<lambda>_. held s0 B False)"
proof (rule triple_scoped [OF m])
  fix l s assume l: "leaves s0 (B + R) False l s"
  then obtain ld where "held s0 ((B + left_over ld) + R) False s" "stuck s0 s ld" "\<not> is_Terminate l"
    "left_over ld \<noteq> {#} \<longrightarrow> l = Return 1 \<or> (\<exists>e. l = Unwind e)" by (auto simp: leaves_def ac_simps)
  with destroy stuck_called [OF _ calls_only_called [OF calls]] have "leaves s0 B False l (cleanup s)"
    unfolding leaves_def by blast
  with l show "case l of Terminate e \<Rightarrow> leaves s0 B False l s | _ \<Rightarrow> leaves s0 B False l (cleanup s)"
    by (auto split: leave.split)
qed (rule destroy)

lemma triple_with_socket:
  assumes os: "mmap_nonnull (ma_os M)"
  shows "triple (held s0 B False) (with_socket M args cpu sm u) (leaves s0 B False) (\<lambda>_. held s0 B False)"
proof -
  let ?create = "Xsk_create (ma_os M) (ma_offsets M) (xsk_config args) u"
  have create: "triple (held s0 B False) (create_or_exit (ma_os M) what ?create) (leaves s0 B False)
      (\<lambda>x s. (\<exists>s1 s2. ?create s1 = (Inr x, s2)) \<and> held s0 (B + xsk_res x) False s)" for what
  proof (rule triple_create)
    fix s assume h: "held s0 B False s"
    obtain x s' where c: "?create s = (x, s')" by (rule prod.exhaust)
    have q: "called quiet s s'" using Xsk_create_calls c unfolding emits_called by blast
    have "holds_after s0 B s'" if "x = Inl f" for f
      using holds_after_trans [OF held_holds [OF h] xsk.not_created [OF os c [unfolded that]]] by simp
    moreover have "holds_after s0 (B + xsk_res y) s'" if "x = Inr y" for y
      using holds_after_trans [OF held_holds [OF h] xsk.created [OF os c [unfolded that]]] .
    ultimately show "case ?create s of (Inl (Failed e), s') \<Rightarrow> held s0 B False s'
        | (Inl (Thrown e), s') \<Rightarrow> leaves s0 B False (Unwind e) s'
        | (Inr x, s') \<Rightarrow> (\<exists>s1 s2. ?create s1 = (Inr x, s2)) \<and> held s0 (B + xsk_res x) False s'"
      using c quiet_step [OF h _ q] by (auto intro!: held_leaves split: sum.splits failure.splits)
  qed (auto intro: held_leaves)
  have destroy: "held s0 B' False (Xsk_destroy (ma_os M) x s)"
    if "?create s1 = (Inr x, s2)" "held s0 (B' + xsk_res x) False s" for B' x s s1 s2
    using quiet_step [OF that(2) xsk.destroyed [OF os that(1) held_holds [OF that(2)]]]
      calls_only_called [OF Xsk_destroy_calls] by blast
  have "triple (held s0 (B + xsk_res x) False) (scoped (serve M args x cpu sm') (Xsk_destroy (ma_os M) x))
      (leaves s0 B False) (\<lambda>_. held s0 B False)" if "\<exists>s1 s2. ?create s1 = (Inr x, s2)" for x sm'
    by (rule triple_object [OF triple_serve _ Xsk_destroy_calls]) (use that destroy in blast)
  then show ?thesis
    unfolding with_socket_def by (intro triple_bind [OF triple_bprint] triple_bind [OF create] triple_pre)
qed

text \<open>An exception of the log line in the creation of the area leaves the area mapped.\<close>

definition leaves_area :: "sys \<Rightarrow> leave \<Rightarrow> sys \<Rightarrow> bool" where
  "leaves_area s0 l s \<longleftrightarrow> leaves s0 {#} False l s \<or> (\<exists>e b n. l = Unwind e \<and> held s0 {#Mapping b n#} False s \<and>
     (\<exists>t msg r. sys_trace s = t @ [(Println Stderr msg, r)] \<and> r < 0))"

lemma triple_area: "triple P m (leaves s0 {#} False) Q \<Longrightarrow> triple P m (leaves_area s0) Q"
  by (erule triple_conseq) (auto simp: leaves_area_def)

lemma triple_io_block:
  assumes os: "mmap_nonnull (ma_os M)"
  shows "triple (held s0 {#} False) (io_block M args cpu sm) (leaves_area s0) (\<lambda>_. held s0 {#} False)"
proof -
  let ?create = "Umem_create (ma_os M) (umem_config args)"
  have create: "triple (held s0 {#} False) (create_or_exit (ma_os M) what ?create) (leaves_area s0)
      (\<lambda>u s. (\<exists>s1 s2. ?create s1 = (Inr u, s2)) \<and> held s0 ({#} + umem_res u) False s)" for what
  proof (rule triple_create)
    fix s assume h: "held s0 {#} False s"
    obtain x s' where c: "?create s = (x, s')" by (rule prod.exhaust)
    have "called quiet s s'" using Umem_create_calls c unfolding emits_called by blast
    note step = quiet_step [OF h _ this] and trans = holds_after_trans [OF held_holds [OF h], simplified]
    show "case ?create s of (Inl (Failed e), s') \<Rightarrow> held s0 {#} False s'
        | (Inl (Thrown e), s') \<Rightarrow> leaves_area s0 (Unwind e) s'
        | (Inr u, s') \<Rightarrow> (\<exists>s1 s2. ?create s1 = (Inr u, s2)) \<and> held s0 ({#} + umem_res u) False s'"
      using c Umem_create_holds [OF c]
      by (auto simp: umem_res_def leaves_area_def intro!: step trans split: sum.splits failure.splits)
  qed (auto simp: leaves_area_def intro: held_leaves)
  have destroy: "held s0 B' False (snd (Umem_release (ma_os M) u s))"
    if "?create s1 = (Inr u, s2)" "held s0 (B' + umem_res u) False s" for B' u s s1 s2
    using quiet_step [OF that(2) umem.destroyed [OF os that(1) held_holds [OF that(2)]]]
      calls_only_called [OF release_calls(2)] by blast
  have "triple (held s0 ({#} + umem_res u) False)
      (scoped (with_socket M args cpu sm u) (\<lambda>s. snd (Umem_release (ma_os M) u s)))
      (leaves s0 {#} False) (\<lambda>_. held s0 {#} False)" if "\<exists>s1 s2. ?create s1 = (Inr u, s2)" for u
    by (rule triple_object [OF triple_with_socket [OF os] _ release_calls(2)]) (use that destroy in blast)
  then show ?thesis unfolding io_block_def by (intro triple_bind [OF create] triple_pre triple_area)
qed

lemma triple_bnew: "triple (held s0 B b) (bnew os n) (leaves s0 B b) (\<lambda>_. held s0 B b)"
proof (rule tripleI)
  fix s res s' assume h: "held s0 B b s" and st: "bnew os n s = Some (res, s')"
  obtain r s1 where c: "call os (Operator_new n) s = (r, s1)" by (rule prod.exhaust)
  have "holds_after s0 B s1" using holds_call [OF held_holds [OF h] c] by simp
  from held_call(1) [OF h c this] c st
  show "case res of Inl l \<Rightarrow> leaves s0 B b l s' | Inr a \<Rightarrow> held s0 B b s'"
    by (auto simp: bnew_def thread_call_def takes_away_def split: if_splits intro!: held_leaves)
qed

text \<open>When the exports start, nothing is held any more, and they hold nothing.\<close>

lemma triple_print_any: "triple (held s0 B b) (bprint os st msg) (\<lambda>_. held s0 B b) (\<lambda>_. held s0 B b)"
  by (rule triple_conseq [OF triple_print_unwind]) auto

lemma triple_export_results:
  "triple (held s0 B b) (export_results M args cal sm c samples) (\<lambda>_. held s0 B b) (\<lambda>_. held s0 B b)"
proof -
  let ?T = "\<lambda>m. triple (held s0 B b) m (\<lambda>_. held s0 B b) (\<lambda>_. held s0 B b)"
  have rep: "?T (print_report M t samples)" for t
    unfolding print_report_def split_beta
    by (rule triple_noexcept) (auto intro!: triple_bind [OF triple_bpure] triple_bind [OF triple_print_any] triple_breturn)
  have csv: "?T (export_csv M t sa sm' c')" for t sa sm' c'
    unfolding export_csv_def print_errno_def
    by (cases "dump_csv (ma_csv M) (ma_ns M t) sa") (auto intro: triple_bind [OF triple_print_any] triple_breturn)
  have md: "?T (export_metadata M args cal sm' c')" for sm' c'
    unfolding export_metadata_def print_errno_def
    by (rule triple_bind [OF triple_bpure]) (auto intro: triple_bind [OF triple_print_any] triple_breturn split: sum.split)
  have ks: "?T (bcall (print_kernel_stats (print_stdout (ma_os M)) st))" for st
    by (rule triple_bcall) (auto simp: print_kernel_stats_def intro: held_control print_all_called)
  show ?thesis
    unfolding export_results_def Let_def split_beta
    by (intro triple_bind [OF rep] triple_bind [OF csv] triple_bind [OF md] triple_bind [OF ks]
        triple_bind [OF triple_print_any] triple_breturn)
qed

text \<open>
  Every way out of \<open>run_receiver\<close>: the worker is joined, and everything is given back, up to an
  attachment whose removal failed and the area of an interrupted creation.
\<close>

definition leaves_run :: "sys \<Rightarrow> leave \<Rightarrow> sys \<Rightarrow> bool" where
  "leaves_run s0 l s \<longleftrightarrow> leaves_area s0 l s \<or> held s0 {#} False s"

lemma triple_run:
  "triple P m (leaves s0 {#} False) Q \<Longrightarrow> triple P m (leaves_run s0) Q"
  "triple P m (leaves_area s0) Q \<Longrightarrow> triple P m (leaves_run s0) Q"
  "triple P m (\<lambda>_. held s0 {#} False) Q \<Longrightarrow> triple P m (leaves_run s0) Q"
  by (erule triple_conseq; simp add: leaves_run_def leaves_area_def)+

lemma triple_run_receiver:
  assumes os: "mmap_nonnull (ma_os M)"
  shows "triple (held s0 {#} False) (run_receiver M args) (leaves_run s0) (\<lambda>_. held s0 {#} False)"
  unfolding run_receiver_def Let_def split_beta
  by (intro triple_bind [OF triple_run(1) [OF triple_bprint_all]] triple_if triple_run(1) [OF triple_print_leave]
      triple_bind [OF triple_run(1) [OF triple_bnew]] triple_bind [OF triple_run(2) [OF triple_io_block [OF os]]]
      triple_run(3) [OF triple_export_results])

lemma run_receiver_holds:
  assumes os: "mmap_nonnull (ma_os M)" and rr: "run_receiver M args s = Some (res, s')"
  shows "\<exists>R. held s R False s' \<and> (R \<noteq> {#} \<longrightarrow>
      (\<exists>l. R = left_over l \<and> stuck s s' l \<and> (res = Inl (Return 1) \<or> (\<exists>e. res = Inl (Unwind e)))) \<or>
      (\<exists>b n e t msg r. R = {#Mapping b n#} \<and> res = Inl (Unwind e) \<and> sys_trace s' = t @ [(Println Stderr msg, r)] \<and> r < 0))"
proof (cases res)
  case (Inl l)
  with tripleD(1) [OF triple_run_receiver [OF os] held_refl] rr have "leaves_run s l s'" by blast
  then show ?thesis
    unfolding leaves_run_def leaves_area_def leaves_def using Inl by (auto intro: exI [of _ "{#}"])
next
  case (Inr x)
  with tripleD(2) [OF triple_run_receiver [OF os] held_refl] rr show ?thesis by blast
qed

end
