(* ===== verification/Program_Result.thy ===== *)
theory Program_Result
  imports Program
begin

text \<open>
  The outcome of a run of \<open>run_receiver\<close>: it returns on every path when the machine keeps its side, an
  exit code of 0 means a clean summary and complete exports, the counters of every summary add up,
  and the last line printed and the file \<^verbatim>\<open>run_metadata.txt\<close> agree with the exit code.
\<close>

section \<open>The program returns\<close>

lemma zeroed_fresh:
  assumes "zeroed_world kr kt w" "Xsk_create os offsets (xsk_config args) umem s = (Inr xsk, s')"
  shows "fresh_socket main_geometry kr kt xsk w"
proof -
  have ring: "prod_inv RING_SIZE r sh \<and> cons_inv RING_SIZE r sh \<and> ring_queue sh = []"
    if "unused_indices RING_SIZE r" "zeroed_ring sh" for r and sh :: "'d shm"
    using that by (simp add: unused_indices_def zeroed_ring_def prod_inv_def cons_inv_def shm_ok_def ring_queue_def
        RING_SIZE_def PowerOfTwo_def)
  note rings = Xsk_create_rings [OF assms(2)]
  have "xc_ring_size (xsk_config args) = RING_SIZE" by (simp add: xsk_config_def)
  with rings assms(1) ring [of "xsk_rx xsk" "w_rx w"] ring [of "xsk_tx xsk" "w_tx w"] show ?thesis
    using ring [of "xsk_fill xsk" "w_fill w"] ring [of "xsk_completion xsk" "w_cq w"]
    by (simp add: fresh_socket_def zeroed_world_def main_geometry_def)
qed

text \<open>The counters of a summary, and what the shutdown needs of the drained worker.\<close>

definition summary_adds_up :: "RunSummary \<Rightarrow> bool" where
  "summary_adds_up sm \<longleftrightarrow>
     rs_callbacks sm = rs_tx_staged sm + rs_unsupported sm + rs_tx_rejected sm \<and>
     rs_tx_staged sm = rs_tx_submitted sm \<and> rs_tx_submitted sm = rs_tx_reclaimed sm + ucast (rs_tx_abandoned sm)"

lemma worker_returns:
  assumes M: "machine_ok kr kt M" and inv: "worker_inv main_geometry kr kt 0 cl io"
    and mask: "rc_frame_mask r = frame_mask FRAME_SIZE"
  obtains r1 cl1 io1 n tr io2 where
    "run (strategy (worker_timing M k) (ma_kernel M)) (service_tx (ma_kernel M)) (ma_kernel M) (worker_stop M) r cl io =
       Some (r1, cl1, io1)"
    "drain_until (ma_kernel M) (ma_clk M) (ma_drain_at M + TX_DRAIN_TIMEOUT) (cl_tx cl1) io1 = Some (n, tr, io2)"
    "worker_inv main_geometry kr kt 0 (cl1\<lparr>cl_tx := tr\<rparr>) io2" "n = outstanding tr" "tx_used tr = 0"
proof -
  from M obtain i j where ij: "worker_stop M i" "ma_drain_at M + TX_DRAIN_TIMEOUT \<le> ma_clk M j"
    by (auto simp: machine_ok_def worker_stop_def)
  from run_and_drain_ok [where stop = "worker_stop M" and clk = "ma_clk M" and tsc = "worker_timing M k",
      OF _ inv _ ij, of "ma_kernel M" r] M mask obtain n r' cl' io' where
    "run_and_drain (worker_timing M k) (ma_kernel M) (worker_stop M) (ma_clk M) (ma_drain_at M + TX_DRAIN_TIMEOUT) r cl io =
       Some (n, r', cl', io')" "worker_inv main_geometry kr kt 0 cl' io'" "n = outstanding (cl_tx cl')" "tx_used (cl_tx cl') = 0"
    by (auto simp: machine_ok_def main_geometry_def)
  then show thesis by (auto simp: run_and_drain_def split: bind_splits intro!: that)
qed

lemma returns_bcall: "returns (bcall f) (\<lambda>_. True)"
  by (rule returns_simple)

lemma returns_finish:
  assumes "worker_inv g kr kt 0 cl io" "n = outstanding (cl_tx cl)" "tx_used (cl_tx cl) = 0"
  shows "returns (finish M fd l k r cl n) (\<lambda>x. summary_adds_up (fst x) \<and> samples_inv (snd (snd x)))"
proof -
  from assms have sums: "summary_adds_up (fst (note_kernel_stats st (collect_stats r cl (sm\<lparr>rs_tx_abandoned := n\<rparr>)) c))" for st sm c
    by (auto simp: worker_inv_def counters_ok_def tx_inv_def summary_adds_up_def collect_stats_def note_kernel_stats_def
        transmitter_stats_def receiver_stats_def Let_def split: sum.split)
  have remaining: "returns (note_remaining os n c) (\<lambda>_. True)" for os c
    unfolding note_remaining_def by (auto intro!: returns_bind [OF returns_simple(2)] returns_simple(4))
  have inv: "samples_inv (cl_samples cl)" using assms(1) by (simp add: worker_inv_def)
  have detached: "returns (case res of
        Inl e \<Rightarrow> bbind (bprint os Stderr (msg e)) (\<lambda>_. bleave (Return 1))
      | Inr (u :: unit) \<Rightarrow> bbind (bcall (kernel_stats os filled fd)) (\<lambda>st. breturn (f st, h st, cl_samples cl)))
      (\<lambda>x. summary_adds_up (fst x) \<and> samples_inv (snd (snd x)))"
    if "\<And>st. summary_adds_up (f st)" for res os msg filled f and h :: "int + KernelStats \<Rightarrow> int"
    using that inv
    by (cases res) (auto intro!: returns_bind [OF returns_simple(2)] returns_bind [OF returns_bcall] returns_simple)
  show ?thesis
    unfolding finish_def Let_def split_beta print_errno_def
    by (intro returns_bind [OF returns_on_leave [OF remaining]] returns_bind [OF returns_bcall] returns_scoped
        detached sums)
qed

lemma returns_shutdown:
  assumes M: "machine_ok kr kt M" and inv: "worker_inv main_geometry kr kt 0 cl io"
    and mask: "rc_frame_mask r = frame_mask FRAME_SIZE"
  shows "returns (shutdown M fd k l r cl io) (\<lambda>x. summary_adds_up (fst x) \<and> samples_inv (snd (snd x)))"
proof -
  obtain r1 cl1 io1 n tr io2 where w:
    "run (strategy (worker_timing M k) (ma_kernel M)) (service_tx (ma_kernel M)) (ma_kernel M) (worker_stop M) r cl io =
       Some (r1, cl1, io1)"
    "drain_until (ma_kernel M) (ma_clk M) (ma_drain_at M + TX_DRAIN_TIMEOUT) (cl_tx cl1) io1 = Some (n, tr, io2)"
    "worker_inv main_geometry kr kt 0 (cl1\<lparr>cl_tx := tr\<rparr>) io2" "n = outstanding tr" "tx_used tr = 0"
    by (rule worker_returns [OF assms])
  from w(3-5) have fin: "returns (finish M fd l k r1 (cl1\<lparr>cl_tx := tr\<rparr>) n)
      (\<lambda>x. summary_adds_up (fst x) \<and> samples_inv (snd (snd x)))" by (intro returns_finish) auto
  then show ?thesis
    unfolding shutdown_def w(1) bbind_bpure prod.case w(2)
    by (intro returns_bind [OF returns_bcall], cases "ct_thrown k") (simp_all add: returns_scoped returns_simple)
qed

lemma control_phase_returns:
  assumes "ce_signal (ma_control M) j"
  shows "returns (control_phase M fd cpu cal sm l) (\<lambda>_. True)"
proof -
  have "\<exists>n k'. control_loop (ma_os M) (ma_filled M) fd (ma_control M) (ma_activated_at M) 0 k = Some (n, k')" for k
    using control_loop_turns [OF assms, of 0 "ma_os M" "ma_filled M" fd "ma_activated_at M" k] by auto
  then have "\<exists>n k'. control_loop (ma_os M) (ma_filled M) fd (ma_control M) (ma_activated_at M) 0
      (announce M cpu cal (first_control M sm s)) = Some (n, k')" for s .
  then show ?thesis
    unfolding returns_def
  proof (intro allI, goal_cases)
    case (1 s)
    then obtain n k where k: "control_loop (ma_os M) (ma_filled M) fd (ma_control M) (ma_activated_at M) 0
      (announce M cpu cal (first_control M sm s)) = Some (n, k)" by blast
    obtain k' l' where "stop_redirection (ma_os M) l k = (k', l')" by (rule prod.exhaust)
    with k show ?case by (simp add: control_phase_def Let_def)
  qed
qed

lemma start_up_returns:
  assumes "te_nanosleep (ma_calib M) j \<noteq> Some EINTR"
  shows "returns (start_up M args xsk r sm) (\<lambda>_. True)"
proof -
  from calibrate_tsc_returns [OF assms, of "ma_fp M"] obtain res where cal: "calibrate_tsc (ma_fp M) (ma_calib M) = Some res" by blast
  have pw: "returns (prepare_worker M r sm) (\<lambda>_. True)"
    unfolding prepare_worker_def cal bbind_bpure Let_def
    by (rule returns_bind [OF returns_bcall]) (auto intro!: returns_simple split: sum.split)
  show ?thesis
    unfolding start_up_def print_errno_def split_beta
    by (rule returns_bind [OF pw]) (auto intro!: returns_simple returns_bind [OF returns_simple(2)]
        returns_bind [OF returns_create [where Q = "\<lambda>_. True"]] split: sum.split)
qed

lemma returns_serve:
  assumes M: "machine_ok kr kt M" and fresh: "fresh_socket main_geometry kr kt xsk (ma_world M xsk)"
  shows "returns (serve M args xsk cpu sm) (\<lambda>x. summary_adds_up (fst (snd x)) \<and> samples_inv (snd (snd (snd x))))"
proof -
  from M have K: "kernel_contract main_geometry kr kt (ma_kernel M)" by (simp add: machine_ok_def)
  from M obtain j j' where j: "te_nanosleep (ma_calib M) j \<noteq> Some EINTR" "ce_signal (ma_control M) j'" by (auto simp: machine_ok_def)
  from start_worker_ok [OF K fresh, of cpu "a_realtime args"] obtain al res io r cl where
    sw: "FrameAllocator_new ALLOC_CAP NUM_FRAMES FRAME_SIZE = Some al"
      "prime_socket (ma_kernel M) al xsk (ma_world M xsk) = Some (res, io)"
      "make_worker cpu (a_realtime args) xsk io = Some (r, cl, io)"
      "worker_inv main_geometry kr kt 0 cl io" "rc_frame_mask r = frame_mask FRAME_SIZE"
    by (auto simp: start_worker_def make_worker_def split: bind_splits prod.splits)
  have wakeup: "returns (case res of Inl e \<Rightarrow> if is_expected_wakeup_retry e then breturn () else bprint os Stderr (f e)
      | Inr (u :: unit) \<Rightarrow> breturn ()) (\<lambda>_. True)" for os f
    by (auto intro: returns_simple split: sum.split)
  have thread: "returns (start_thread os) (\<lambda>_. True)" for os
    by (auto simp: returns_def start_thread_def split: prod.split sum.split)
  show ?thesis
    unfolding serve_def sw(1) bbind_bpure
    unfolding sw(2) bbind_bpure prod.case
    unfolding sw(3) bbind_bpure prod.case split_beta
    by (intro returns_bind [OF returns_simple(2)] returns_bind [OF wakeup] returns_bind [OF thread]
        returns_bind [OF returns_on_leave [OF start_up_returns [OF j(1)]]]
        returns_bind [OF control_phase_returns [OF j(2)]]) (auto intro!: returns_bind [OF returns_shutdown [OF M sw(4,5)]] returns_simple)
qed

lemma returns_export_results:
  assumes "samples_inv samples"
  shows "returns (export_results M args cal sm c samples) (\<lambda>_. True)"
proof -
  from samples_report_total [OF assms] obtain rep samples' where
    "samples_report (ma_index M) (ma_ns M (ns_per_tick cal)) samples = Some (rep, samples')" by blast
  then have rep: "returns (print_report M (ns_per_tick cal) samples) (\<lambda>_. True)"
    unfolding print_report_def by (auto intro!: returns_noexcept returns_bind [OF returns_simple(2)] returns_simple)
  have csv: "returns (export_csv M t sa sm' c') (\<lambda>_. True)" for t sa sm' c'
    unfolding export_csv_def print_errno_def
    by (auto intro!: returns_bind [OF returns_simple(2)] returns_simple split: sum.split)
  have md: "returns (export_metadata M args cal sm' c') (\<lambda>_. True)" for sm' c'
  proof -
    obtain res where "dump_run_metadata (ma_metadata M) (ma_meta M) args sm' cal c' = Some res"
      using dump_run_metadata_returns by blast
    then show ?thesis
      unfolding export_metadata_def print_errno_def
      by (auto intro!: returns_bind [OF returns_simple(2)] returns_simple split: sum.split)
  qed
  show ?thesis
    unfolding export_results_def Let_def split_beta
    by (intro returns_bind [OF rep] returns_bind [OF csv] returns_bind [OF md] returns_bind [OF returns_bcall]
        returns_bind [OF returns_simple(2)] returns_simple(4)) simp
qed

lemma returns_io_block:
  assumes M: "machine_ok kr kt M"
  shows "returns (io_block M args cpu sm) (\<lambda>x. summary_adds_up (fst (snd x)) \<and> samples_inv (snd (snd (snd x))))"
proof -
  let ?create = "\<lambda>u. Xsk_create (ma_os M) (ma_offsets M) (xsk_config args) u"
  have fresh: "fresh_socket main_geometry kr kt xsk (ma_world M xsk)" if "?create u s = (Inr xsk, s')" for u s xsk s'
    by (rule zeroed_fresh [OF _ that]) (use M in \<open>simp add: machine_ok_def\<close>)
  have "returns (with_socket M args cpu sm u) (\<lambda>x. summary_adds_up (fst (snd x)) \<and> samples_inv (snd (snd (snd x))))" for u
    unfolding with_socket_def
    by (intro returns_bind [OF returns_simple(2)]
        returns_bind [OF returns_create [where Q = "\<lambda>xsk. fresh_socket main_geometry kr kt xsk (ma_world M xsk)"]]
        returns_scoped returns_serve [OF M]) (use fresh in blast)
  then show ?thesis
    unfolding io_block_def
    by (intro returns_bind [OF returns_create [where Q = "\<lambda>_. True"]] returns_scoped) auto
qed

lemma run_receiver_returns:
  assumes "machine_ok kr kt M"
  shows "returns (run_receiver M args) (\<lambda>_. True)"
proof -
  have prints: "returns (bprint_all os st ms) (\<lambda>_. True)" for os st ms
    by (induction ms) (auto intro!: returns_simple returns_bind [OF returns_simple(2)])
  have new: "returns (bnew os n) (\<lambda>_. True)" for os n
    by (auto simp: returns_def bnew_def split: prod.split sum.split)
  show ?thesis
    unfolding run_receiver_def Let_def split_beta
    by (rule returns_bind [OF prints]) (auto intro!: returns_bind [OF returns_simple(2)] returns_simple
        returns_bind [OF new] returns_bind [OF returns_io_block [OF assms]] returns_export_results)
qed

text \<open>The counters of every summary add up; the exports only fill in their own fields.\<close>

definition exported :: "('k, 'f, 'r) machine \<Rightarrow> Args \<Rightarrow> 'f TscCalibration \<Rightarrow> RunSummary \<Rightarrow> int \<Rightarrow> int \<times> RunSummary \<Rightarrow> bool" where
  "exported M args cal sm c x \<longleftrightarrow> (\<exists>n b c1 res. snd x = sm\<lparr>rs_samples_recorded := n, rs_csv_exported := b\<rparr> \<and>
     (if b then c1 = c else c1 = 1 \<and> rs_csv_exported sm = b) \<and>
     dump_run_metadata (ma_metadata M) (ma_meta M) args (snd x) cal c1 = Some res \<and>
     fst x = (case res of Inl e \<Rightarrow> 1 | Inr str \<Rightarrow> c1))"

lemma results_export_results:
  assumes "\<not> rs_csv_exported sm"
  shows "results (export_results M args cal sm c samples) (exported M args cal sm c)"
proof -
  let ?csv = "\<lambda>n x. \<exists>b. fst x = sm\<lparr>rs_samples_recorded := n, rs_csv_exported := b\<rparr> \<and> (if b then snd x = c else snd x = 1)"
  have csv: "results (export_csv M t sa (sm\<lparr>rs_samples_recorded := n\<rparr>) c) (?csv n)" for t sa n
  proof (cases "dump_csv (ma_csv M) (ma_ns M t) sa")
    case (Inl e)
    have "?csv n (sm\<lparr>rs_samples_recorded := n\<rparr>, 1)" using assms by (intro exI [of _ False]) simp
    then show ?thesis unfolding export_csv_def Inl sum.case by (rule results_bind [OF results_any results_simple(1)])
  next
    case (Inr ls)
    have "?csv n (sm\<lparr>rs_samples_recorded := n, rs_csv_exported := True\<rparr>, c)" by (intro exI [of _ True]) simp
    then show ?thesis unfolding export_csv_def Inr sum.case by (rule results_simple(1))
  qed
  have md: "results (export_metadata M args cal sm' c') (\<lambda>c2. \<exists>res. dump_run_metadata (ma_metadata M) (ma_meta M) args sm' cal c' = Some res \<and>
      c2 = (case res of Inl e \<Rightarrow> 1 | Inr str \<Rightarrow> c'))" for sm' c'
    unfolding export_metadata_def
    by (rule results_bind [OF results_simple(3) [where Q = "\<lambda>res. dump_run_metadata (ma_metadata M) (ma_meta M) args sm' cal c' = Some res"]])
      (auto intro!: results_bind [OF results_any] results_simple split: sum.split)
  show ?thesis
    unfolding export_results_def Let_def split_beta
  proof (rule results_bind [OF results_any], rule results_bind [OF csv], rule results_bind [OF md],
      rule results_bind [OF results_any], rule results_bind [OF results_any], rule results_simple(1), goal_cases)
    case (1 sa x c2)
    then obtain b where b: "fst x = sm\<lparr>rs_samples_recorded := samples_count sa, rs_csv_exported := b\<rparr>"
      "if b then snd x = c else snd x = 1" by blast
    from 1(3) obtain res where "dump_run_metadata (ma_metadata M) (ma_meta M) args (fst x) cal (snd x) = Some res"
      "c2 = (case res of Inl e \<Rightarrow> 1 | Inr str \<Rightarrow> snd x)" by blast
    with b assms show ?case
      unfolding exported_def
      by (intro exI [of _ "samples_count sa"] exI [of _ b] exI [of _ "snd x"] exI [of _ res]) auto
  qed
qed

section \<open>Exit code and summary\<close>

text \<open>What an exit code of 0 says about the summary; the loop, shutdown and export keep it.\<close>

definition clean_summary :: "RunSummary \<Rightarrow> bool" where
  "clean_summary sm \<longleftrightarrow> rs_stop_reason sm = Stop_signal \<and> rs_first_kernel_stats_errno sm = 0 \<and> rs_stop_redirect_errno sm = 0"

definition clean_control :: "control \<Rightarrow> bool" where
  "clean_control k \<longleftrightarrow> ct_thrown k = None \<longrightarrow> \<not> rs_csv_exported (ct_run k) \<and>
     (ct_exit k = 1 \<or> ct_exit k = 0 \<and> clean_summary (ct_run k))"

lemma control_turn_clean:
  assumes "clean_control k"
  shows "clean_control (control_turn os filled fd E a i k)"
  unfolding clean_control_def
proof
  let ?k = "control_turn os filled fd E a i k"
  assume t: "ct_thrown ?k = None"
  with assms turn_thrown [OF t] have k: "\<not> rs_csv_exported (ct_run k)" "ct_exit k = 1 \<or> ct_exit k = 0 \<and> clean_summary (ct_run k)"
    by (simp_all add: clean_control_def)
  have "\<not> rs_csv_exported (ct_run ?k)"
    by (rule control_turn_cases [OF refl t]) (use k(1) in \<open>auto simp: start_sampling_def note_kernel_stats_def Let_def split: sum.split\<close>)
  with k(2) turn_simps(5,6,8,9) [OF refl t] show "\<not> rs_csv_exported (ct_run ?k) \<and>
      (ct_exit ?k = 1 \<or> ct_exit ?k = 0 \<and> clean_summary (ct_run ?k))"
    by (auto simp: clean_summary_def split: if_splits sum.splits)
qed

lemma control_loop_clean:
  "control_loop os filled fd E a i k = Some mk \<Longrightarrow> clean_control k \<Longrightarrow> clean_control (snd mk)"
proof (induction rule: control_loop.raw_induct [rotated, consumes 1, case_names step])
  case (step f os filled fd E a i k mk)
  show ?case
  proof (cases "ct_thrown k \<noteq> None \<or> ct_stop k \<or> ce_signal E i")
    case True
    with step show ?thesis by auto
  next
    case False
    with step(2) have "f os filled fd E a (Suc i) (control_turn os filled fd E a i k) = Some mk" by simp
    from step(1) [OF this control_turn_clean [OF step(3)]] show ?thesis .
  qed
qed

lemma control_print_clean: "clean_control k \<Longrightarrow> clean_control (control_print os st msg k)"
  by (auto simp: clean_control_def control_print_def Let_def split: prod.split)

lemma stop_redirection_clean:
  assumes "clean_control k"
  shows "clean_control (fst (stop_redirection os l k))"
proof -
  note k1 = control_print_clean [OF assms, of os Stdout "[Str ''[main] Stopping...'']"]
  show ?thesis
    using k1 by (auto simp: stop_redirection_def Let_def clean_control_def control_print_def split: prod.split sum.split)
qed

lemma results_control_phase:
  assumes "clean_summary sm" "\<not> rs_csv_exported sm"
  shows "results (control_phase M fd cpu cal sm l) (\<lambda>x. clean_control (fst x))"
  unfolding results_def
proof (intro allI impI)
  fix s x s' assume "control_phase M fd cpu cal sm l s = Some (Inr x, s')"
  then obtain n k where k: "control_loop (ma_os M) (ma_filled M) fd (ma_control M) (ma_activated_at M) 0
      (announce M cpu cal (first_control M sm s)) = Some (n, k)" "fst x = fst (stop_redirection (ma_os M) l k)"
    by (auto simp: control_phase_def Let_def split: bind_splits prod.splits) (metis fst_conv)
  have "clean_control (first_control M sm s)" using assms by (simp add: clean_control_def first_control_def)
  then have "clean_control (announce M cpu cal (first_control M sm s))"
    by (simp add: announce_def Let_def control_print_clean)
  from control_loop_clean [OF k(1) this] k(2) show "clean_control (fst x)" by (simp add: stop_redirection_clean)
qed

text \<open>The result of the block: summary, exit code and samples.\<close>

definition clean_result :: "RunSummary \<times> int \<times> Samples \<Rightarrow> bool" where
  "clean_result x \<longleftrightarrow> \<not> rs_csv_exported (fst x) \<and> (fst (snd x) = 1 \<or>
     fst (snd x) = 0 \<and> clean_summary (fst x) \<and> rs_tx_abandoned (fst x) = 0 \<and> \<not> isl (rs_kernel_stats (fst x)))"

lemma note_stats_clean:
  assumes "clean_control k" "ct_thrown k = None" "c = 1 \<or> c = ct_exit k \<and> n = 0"
  shows "clean_result (case note_kernel_stats st (collect_stats r cl ((ct_run k)\<lparr>rs_active_duration := d,
    rs_tx_abandoned := n\<rparr>)) c of (sm, c) \<Rightarrow> (sm, c, sa))"
  using assms
  by (auto simp: clean_result_def clean_control_def clean_summary_def collect_stats_def note_kernel_stats_def Let_def
      split: sum.splits)

lemma results_finish:
  assumes "clean_control k" "ct_thrown k = None"
  shows "results (finish M fd l k r cl n) clean_result"
proof -
  have rem: "results (note_remaining os n (ct_exit k)) (\<lambda>c. c = 1 \<or> c = ct_exit k \<and> n = 0)" for os
    unfolding note_remaining_def by (auto intro!: results_simple results_bind [OF results_any])
  note stats = note_stats_clean [OF assms, unfolded split_beta]
  have detached: "results (case res of
        Inl e \<Rightarrow> bbind (bprint os Stderr (msg e)) (\<lambda>_. bleave (Return 1))
      | Inr (u :: unit) \<Rightarrow> bbind (bcall (kernel_stats os filled fd)) (\<lambda>st. breturn (f st))) clean_result"
    if "\<And>st. clean_result (f st)" for res os msg filled f
    using that by (cases res) (auto intro!: results_bind [OF results_any] results_simple)
  show ?thesis
    unfolding finish_def Let_def split_beta print_errno_def
    by (intro results_bind [OF results_on_leave [OF rem]], rule results_bind [OF results_any],
        rule results_scoped, rule detached) (rule stats)
qed

lemma results_serve:
  assumes "clean_summary sm" "\<not> rs_csv_exported sm"
  shows "results (serve M args xsk cpu sm) (\<lambda>x. clean_result (snd x))"
proof -
  let ?P = "\<lambda>sm. clean_summary sm \<and> \<not> rs_csv_exported sm"
  have pw: "results (prepare_worker M r sm) (\<lambda>x. ?P (snd x))" for r
    unfolding prepare_worker_def Let_def using assms
    by (intro results_bind [OF results_any])
      (auto simp: clean_summary_def intro!: results_simple results_bind [OF results_any] split: sum.split option.split)
  have up: "results (start_up M args xsk r sm) (\<lambda>x. ?P (fst (snd x)))" for r
    unfolding start_up_def split_beta
    by (rule results_bind [OF pw]) (auto simp: clean_summary_def intro!: results_simple results_bind [OF results_any] split: sum.split)
  have down: "results (shutdown M fd k l r cl io) clean_result" if "clean_control k" for fd k l r cl io
    unfolding shutdown_def split_beta
    by (rule results_bind [OF results_any], rule results_bind [OF results_any])
      (auto intro: results_bind [OF results_any] results_finish that results_scoped results_simple split: option.split)
  have run: "results (bbind (control_phase M fd cpu (fst x) (fst (snd x)) (snd (snd x))) (\<lambda>k.
      bbind (shutdown M fd (fst k) (snd k) r cl io) (\<lambda>y. breturn (fst x, y)))) (\<lambda>x. clean_result (snd x))"
    if "?P (fst (snd x))" for fd x r cl io
    by (rule results_bind [OF results_control_phase], use that in simp, use that in simp,
        rule results_bind [OF down], simp, rule results_simple, simp)
  show ?thesis
    unfolding serve_def split_beta
    by (rule results_bind [OF results_any], rule results_bind [OF results_any], rule results_bind [OF results_any],
        rule results_bind [OF results_any], rule results_bind [OF results_any], rule results_bind [OF results_any],
        rule results_bind [OF results_any], rule results_bind [OF results_on_leave [OF up]]) (use run in simp)
qed

lemma results_io_block:
  assumes "clean_summary sm" "\<not> rs_csv_exported sm"
  shows "results (io_block M args cpu sm) (\<lambda>x. clean_result (snd x))"
  unfolding io_block_def with_socket_def
  by (rule results_bind [OF results_any], rule results_scoped, rule results_bind [OF results_any],
      rule results_bind [OF results_any], rule results_scoped, rule results_serve)
    (use assms in \<open>simp_all add: clean_summary_def\<close>)

text \<open>A run that comes to its end has been through the block and the exports.\<close>

lemma run_receiver_block:
  assumes "run_receiver M args s = Some (Inr (c, sm'), s')"
  shows "\<exists>cpu s1 s2 cal sm c0 samples. io_block M args cpu ((RunSummary_new (ma_time M))\<lparr>rs_worker_cpu := cpu\<rparr>) s1 =
      Some (Inr (cal, sm, c0, samples), s2) \<and> export_results M args cal sm c0 samples s2 = Some (Inr (c, sm'), s') \<and>
    clean_result (sm, c0, samples) \<and> exported M args cal sm c0 (c, sm')"
proof -
  define cpu where "cpu = (if a_cpu_pin args \<ge> 0 then a_cpu_pin args else fst (ma_getcpu M))"
  let ?sm = "(RunSummary_new (ma_time M))\<lparr>rs_worker_cpu := cpu\<rparr>"
  from assms obtain s0 where "(if cpu < 0
      then bbind (bprint (ma_os M) Stderr [Str ''[main] Cannot select worker CPU: '', Strerror (snd (ma_getcpu M))]) (\<lambda>_. bleave (Return 1))
      else bbind (bnew (ma_os M) (8 * SAMPLE_CAPACITY)) (\<lambda>_. bbind (io_block M args cpu ?sm) (\<lambda>(calibration, summary, exit_code, samples).
             export_results M args calibration summary exit_code samples))) s0 = Some (Inr (c, sm'), s')"
    unfolding run_receiver_def Let_def cpu_def [symmetric] by (rule bbind_Inr)
  then obtain s1 cal sm c0 samples s2 where
    io: "io_block M args cpu ?sm s1 = Some (Inr (cal, sm, c0, samples), s2)"
      "export_results M args cal sm c0 samples s2 = Some (Inr (c, sm'), s')"
    by (auto elim!: bbind_Inr simp: bleave_def split: if_splits)
  have "clean_summary ?sm" "\<not> rs_csv_exported ?sm" by (simp_all add: clean_summary_def RunSummary_new_def)
  from results_io_block [OF this, of M args cpu] io(1) have cr: "clean_result (sm, c0, samples)" unfolding results_def by fastforce
  then have "\<not> rs_csv_exported sm" by (simp add: clean_result_def)
  from results_export_results [OF this] io(2) have "exported M args cal sm c0 (c, sm')" unfolding results_def by fastforce
  with io cr show ?thesis by blast
qed

lemma run_receiver_clean:
  assumes "run_receiver M args s = Some (Inr (0, sm'), s')"
  shows "clean_summary sm' \<and> rs_tx_abandoned sm' = 0 \<and> \<not> isl (rs_kernel_stats sm') \<and> rs_csv_exported sm' \<and>
    (\<exists>cal str. dump_run_metadata (ma_metadata M) (ma_meta M) args sm' cal 0 = Some (Inr str))"
proof -
  from run_receiver_block [OF assms] obtain cal sm c0 samples where
    r: "clean_result (sm, c0, samples)" "exported M args cal sm c0 (0, sm')" by blast
  from r(2) obtain n b c1 res where e: "sm' = sm\<lparr>rs_samples_recorded := n, rs_csv_exported := b\<rparr>"
    "if b then c1 = c0 else c1 = 1 \<and> rs_csv_exported sm = b"
    "dump_run_metadata (ma_metadata M) (ma_meta M) args sm' cal c1 = Some res"
    "0 = (case res of Inl e \<Rightarrow> 1 | Inr str \<Rightarrow> c1)" by (auto simp: exported_def)
  then obtain str where "res = Inr str" "c1 = 0" "b" "c0 = 0" by (cases res; cases b) auto
  with e r(1) show ?thesis by (auto simp: clean_result_def clean_summary_def)
qed

lemma run_receiver_exit:
  assumes "run_receiver M args s = Some (Inr (c, sm'), s')"
  shows "(c = 0 \<or> c = 1) \<and> (\<exists>cal c0 res. dump_run_metadata (ma_metadata M) (ma_meta M) args sm' cal c0 = Some res \<and>
    c = (case res of Inl e \<Rightarrow> 1 | Inr str \<Rightarrow> c0))"
proof -
  from run_receiver_block [OF assms] obtain cal sm c0 samples where
    r: "clean_result (sm, c0, samples)" "exported M args cal sm c0 (c, sm')" by blast
  from r(2) obtain b c1 res where e: "if b then c1 = c0 else c1 = 1 \<and> rs_csv_exported sm = b"
    "dump_run_metadata (ma_metadata M) (ma_meta M) args sm' cal c1 = Some res"
    "c = (case res of Inl e \<Rightarrow> 1 | Inr str \<Rightarrow> c1)" unfolding exported_def fst_conv snd_conv by blast
  moreover have "c0 = 0 \<or> c0 = 1" using r(1) by (auto simp: clean_result_def)
  ultimately have "c = 0 \<or> c = 1" by (auto split: sum.splits if_splits)
  with e show ?thesis by blast
qed

lemma run_receiver_adds_up:
  assumes M: "machine_ok kr kt M" and rr: "run_receiver M args s = Some (Inr (c, sm'), s')"
  shows "summary_adds_up sm'"
proof -
  from run_receiver_block [OF rr] obtain cpu s1 s2 cal sm c0 samples where
    io: "io_block M args cpu ((RunSummary_new (ma_time M))\<lparr>rs_worker_cpu := cpu\<rparr>) s1 = Some (Inr (cal, sm, c0, samples), s2)"
    and ex: "exported M args cal sm c0 (c, sm')" by blast
  from returns_result [OF returns_io_block [OF M] io] ex show ?thesis by (auto simp: summary_adds_up_def exported_def)
qed

section \<open>The last line and the failing report\<close>

lemma bprint_Inr: "bprint os st msg s = Some (Inr u, s') \<Longrightarrow> \<exists>r \<ge> 0. sys_trace s' = sys_trace s @ [(Println st msg, r)]"
  by (auto simp: bprint_def try_print_def call_def Let_def split: prod.splits if_splits option.splits)

lemma run_receiver_last_line:
  assumes "run_receiver M args s = Some (Inr (c, sm'), s')"
  shows "\<exists>t r. sys_trace s' = t @ [(Println Stdout (done_line sm' c), r)] \<and> 0 \<le> r"
proof -
  from run_receiver_block [OF assms] obtain cal sm c0 samples s2 where
    "export_results M args cal sm c0 samples s2 = Some (Inr (c, sm'), s')" by blast
  then obtain s3 where "bprint (ma_os M) Stdout (done_line sm' c) s3 = Some (Inr (), s')"
    unfolding export_results_def Let_def bbind_def breturn_def
    by (auto split: option.splits sum.splits prod.splits)
  from bprint_Inr [OF this] show ?thesis by blast
qed

lemma report_terminates:
  assumes "samples_report (ma_index M) (ma_ns M (ns_per_tick cal)) samples = Some (rep, sa)"
    and "try_print (ma_os M) Stdout (report_text (ma_show M) ''callback_tx_staging'' rep) s = (Some e, s')"
  shows "export_results M args cal sm c samples s = Some (Inl (Terminate e), s')"
  using assms by (simp add: export_results_def print_report_def bnoexcept_def bbind_def bpure_def bprint_def)

end
