(* ===== verification/Worker_Steps.thy ===== *)
theory Worker_Steps
  imports Reflector
begin

text \<open>
  The worker as a state machine: its steps are a pass of the poll loop (\<open>Receiver::run\<close>), kernel
  activity between two passes, and a service call of the drain (\<open>Transmitter::drain_until\<close>). The
  reachable states start where \<open>start_worker\<close> leaves off. Rule induction gives the invariant of the
  worker in every reachable state, no step is ever stuck, and \<open>run_and_drain\<close> only reaches reachable
  states, so the loops implement the step relation.
\<close>

section \<open>Steps\<close>

type_synonym 'k wstate = "Receiver \<times> Client \<times> 'k io"

inductive worker_step :: "timing \<Rightarrow> 'k kernel \<Rightarrow> 'k wstate \<Rightarrow> 'k wstate \<Rightarrow> bool" for tsc :: timing and K :: "'k kernel" where
  pass: "process_rx_and_maintain_io (strategy tsc K) (service_tx K) K r cl io = Some (n, r', cl', io') \<Longrightarrow>
    worker_step tsc K (r, cl, io)
      ((if n = 0 then r' else r'\<lparr>packets_received := packets_received r' + ucast n\<rparr>), cl', io')"
| kernel: "worker_step tsc K (r, cl, io) (r, cl, kernel_progress K io)"
| service: "publish_and_service_tx K (cl_tx cl) io = Some (tr, io') \<Longrightarrow>
    worker_step tsc K (r, cl, io) (r, cl\<lparr>cl_tx := tr\<rparr>, io')"

inductive_cases worker_stepE: "worker_step tsc K (r, cl, io) st"

inductive reachable :: "timing \<Rightarrow> 'k kernel \<Rightarrow> 'k wstate \<Rightarrow> 'k wstate \<Rightarrow> bool"
  for tsc :: timing and K :: "'k kernel" and st0 :: "'k wstate" where
  init: "reachable tsc K st0 st0"
| step: "reachable tsc K st0 st \<Longrightarrow> worker_step tsc K st st' \<Longrightarrow> reachable tsc K st0 st'"

section \<open>Invariant\<close>

definition wstate_inv :: "geometry \<Rightarrow> ('k \<Rightarrow> u64 multiset) \<Rightarrow> ('k \<Rightarrow> u64 multiset) \<Rightarrow> 'k wstate \<Rightarrow> bool" where
  "wstate_inv g kr kt st \<longleftrightarrow>
     (case st of (r, cl, io) \<Rightarrow> worker_inv g kr kt 0 cl io \<and> rc_frame_mask r = frame_mask (g_frame_size g))"

lemma kernel_progress_worker_inv:
  assumes "kernel_contract g kr kt K" "worker_inv g kr kt 0 cl io"
  shows "worker_inv g kr kt 0 cl (kernel_progress K io)"
proof -
  note inv = worker_inv_io [OF assms(2)]
  have q: "io_quiet g kr kt io (kernel_progress K io)" by (rule kernel_progress_quiet [OF assms(1) inv])
  show ?thesis using assms(2) io_quiet_tx_side [OF q] io_quiet_inv [OF q inv] by (rule worker_inv_frame)
qed

lemma service_worker_inv:
  assumes "kernel_contract g kr kt K" "worker_inv g kr kt 0 cl io"
    and "publish_and_service_tx K (cl_tx cl) io = Some (tr, io')"
  shows "worker_inv g kr kt 0 (cl\<lparr>cl_tx := tr\<rparr>) io'"
  using service_tx_ok [OF assms(1,2)] assms(3) by (simp add: service_tx_def)

lemma worker_step_inv:
  assumes K: "kernel_contract g kr kt K" and inv: "wstate_inv g kr kt st" and st: "worker_step tsc K st st'"
  shows "wstate_inv g kr kt st'"
proof -
  obtain r cl io where s: "st = (r, cl, io)" by (metis prod.exhaust)
  with inv have w: "worker_inv g kr kt 0 cl io" "rc_frame_mask r = frame_mask (g_frame_size g)"
    by (simp_all add: wstate_inv_def)
  from st show ?thesis
    unfolding s
  proof (rule worker_stepE, goal_cases)
    case (1 n r' cl' io')
    with worker.process_ok [of g kr kt K cl io r tsc] K w show ?case by (auto simp: wstate_inv_def)
  next
    case 2
    with w kernel_progress_worker_inv [OF K] show ?case by (simp add: wstate_inv_def)
  next
    case (3 tr io')
    with w service_worker_inv [OF K] show ?case by (auto simp: wstate_inv_def)
  qed
qed

lemma reachable_inv:
  assumes "kernel_contract g kr kt K" "wstate_inv g kr kt st0" "reachable tsc K st0 st"
  shows "wstate_inv g kr kt st"
  using assms(3) by induction (use assms worker_step_inv in auto)

text \<open>The worker of the program: every reachable state keeps all frames.\<close>

lemma start_worker_inv:
  assumes "kernel_contract main_geometry kr kt K" "fresh_socket main_geometry kr kt xsk w"
    and "start_worker K cpu realtime xsk w = Some st"
  shows "wstate_inv main_geometry kr kt st"
  using start_worker_ok [OF assms(1,2), of cpu realtime] assms(3) by (auto simp: wstate_inv_def main_geometry_def)

section \<open>The loops implement the steps\<close>

lemma reachable_trans: "reachable tsc K st1 st2 \<Longrightarrow> reachable tsc K st0 st1 \<Longrightarrow> reachable tsc K st0 st2"
  by (induction rule: reachable.induct) (auto intro: reachable.step)

lemma run_loop_reachable:
  assumes "run_loop (strategy tsc K) (service_tx K) K stop i r cl io = Some st"
  shows "reachable tsc K (r, cl, io) st"
proof -
  have "callback = strategy tsc K \<Longrightarrow> commit_tx = service_tx K \<Longrightarrow> reachable tsc K (r, cl, io) st"
    if "run_loop callback commit_tx K stop i r cl io = Some st" for callback commit_tx
    using that
  proof (induction rule: run_loop.raw_induct [rotated, consumes 1, case_names step])
    case (step f callback commit_tx K stop i r cl io st)
    show ?case
    proof (cases "stop i")
      case True
      with step show ?thesis by (auto intro: reachable.init)
    next
      case False
      with step(2) obtain n r' cl' io' where
        p: "process_rx_and_maintain_io callback commit_tx K r cl io = Some (n, r', cl', io')"
          "f callback commit_tx K stop (Suc i)
            (if n = 0 then r' else r'\<lparr>packets_received := packets_received r' + ucast n\<rparr>) cl' io' = Some st"
        by (auto split: bind_splits)
      from step(1) [OF p(2) step(3,4)] worker_step.pass [OF p(1) [unfolded step(3,4)]] show ?thesis
        by (metis reachable.init reachable.step reachable_trans)
    qed
  qed
  with assms show ?thesis by blast
qed

lemma drain_loop_reachable:
  "drain_loop K clk deadline i tr io = Some res \<Longrightarrow>
   (case res of (rem, tr', io') \<Rightarrow> reachable tsc K (r, cl\<lparr>cl_tx := tr\<rparr>, io) (r, cl\<lparr>cl_tx := tr'\<rparr>, io'))"
proof (induction rule: drain_loop.raw_induct [rotated, consumes 1, case_names step])
  case (step f K clk deadline i tr io res)
  from step(2) obtain tr1 io1 where s: "publish_and_service_tx K tr io = Some (tr1, io1)"
    "(if outstanding tr1 \<noteq> 0 \<and> clk i < deadline then f K clk deadline (Suc i) tr1 io1
      else Some (outstanding tr1, tr1, io1)) = Some res" by (auto split: bind_splits)
  have one: "reachable tsc K (r, cl\<lparr>cl_tx := tr\<rparr>, io) (r, cl\<lparr>cl_tx := tr1\<rparr>, io1)"
    using worker_step.service [of K "cl\<lparr>cl_tx := tr\<rparr>" io tr1 io1 tsc r] s(1)
    by (auto intro: reachable.init reachable.step)
  show ?case
  proof (cases "outstanding tr1 \<noteq> 0 \<and> clk i < deadline")
    case True
    with s(2) step(1) [of K clk deadline "Suc i" tr1 io1 res] one show ?thesis by (auto intro: reachable_trans)
  next
    case False
    with s(2) one show ?thesis by auto
  qed
qed

lemma run_and_drain_reachable:
  assumes "run_and_drain tsc K stop clk deadline r cl io = Some (rem, r', cl', io')"
  shows "reachable tsc K (r, cl, io) (r', cl', io')"
proof -
  from assms obtain r1 cl1 io1 tr where
    r: "run_loop (strategy tsc K) (service_tx K) K stop 0 r cl io = Some (r1, cl1, io1)"
      "drain_loop K clk deadline 0 (cl_tx cl1) io1 = Some (rem, tr, io')" "r' = r1" "cl' = cl1\<lparr>cl_tx := tr\<rparr>"
    by (auto simp: run_and_drain_def run_def drain_until_def split: bind_splits)
  from drain_loop_reachable [OF r(2), of tsc r1 cl1] run_loop_reachable [OF r(1)] r(3,4) show ?thesis
    by (auto intro: reachable_trans)
qed

section \<open>Progress\<close>

text \<open>A service call, and so a pass, hands every staged frame to the kernel.\<close>

lemma reclaim_tx_used: "reclaim_completed_frames K budget tr io = Some (n, tr', io') \<Longrightarrow> tx_used tr' = tx_used tr"
  by (auto simp: reclaim_completed_frames_def Let_def split: prod.splits if_splits bind_splits)

lemma note_wakeup_tx_used: "tx_used (note_wakeup res tr) = tx_used tr"
  by (simp add: note_wakeup_def split: sum.split)

lemma publish_staged_tx_used: "publish_staged tr io = (tr', io') \<Longrightarrow> tx_used tr' = 0"
  by (auto simp: publish_staged_def split: if_splits)

lemma service_tx_used: "publish_and_service_tx K tr io = Some (tr', io') \<Longrightarrow> tx_used tr' = 0"
  by (auto simp: publish_and_service_tx_def Let_def note_wakeup_tx_used split: prod.splits if_splits bind_splits
      dest!: reclaim_tx_used publish_staged_tx_used)

lemma pass_commits:
  assumes "process_rx_and_maintain_io callback commit_tx K r c io = Some (n, r', c', io')"
  shows "\<exists>c1 io1 io2. commit_tx c1 io1 = Some (c', io2)"
  using assms by (auto simp: process_rx_and_maintain_io_def Let_def split: prod.splits bind_splits)

lemma pass_submits:
  assumes "process_rx_and_maintain_io (strategy tsc K) (service_tx K) K r cl io = Some (n, r', cl', io')"
  shows "tx_used (cl_tx cl') = 0"
proof -
  from pass_commits [OF assms] obtain c1 io1 io2 where "service_tx K c1 io1 = Some (cl', io2)" by blast
  then obtain tr where "publish_and_service_tx K (cl_tx c1) io1 = Some (tr, io2)" "cl' = c1\<lparr>cl_tx := tr\<rparr>"
    by (auto simp: service_tx_def split: bind_splits)
  with service_tx_used show ?thesis by auto
qed

end
