(* ===== verification/Demo_Machine.thy ===== *)
theory Demo_Machine
  imports Loopback Program_Resources Program_Result Worker_Steps
begin

text \<open>
  A concrete machine for the whole program: every system call succeeds, \<open>mmap\<close> gives a new address
  each time, the data path is the kernel of \<^verbatim>\<open>Loopback\<close>, and the stop signal arrives at once. It
  satisfies the assumptions of the program's theorems, and its run ends with exit code 0.
\<close>

fun demo_return :: "(syscall \<times> int) list \<Rightarrow> syscall \<Rightarrow> int" where
  "demo_return t (Mmap n k) = 4096 * (1 + int (length t))"
| "demo_return t Socket_xdp = 5"
| "demo_return t (If_nametoindex nm) = 2"
| "demo_return t (Bpf_object_open p) = 7"
| "demo_return t (Bpf_find_map ob nm) = 8"
| "demo_return t (Bpf_map_fd m) = 9"
| "demo_return t (Bpf_find_program ob nm) = 10"
| "demo_return t (Bpf_program_fd p) = 11"
| "demo_return t (Operator_new n) = 12"
| "demo_return t _ = 0"

definition demo_os :: os where
  "demo_os t c = (demo_return t c, 0)"

definition demo_offset :: xdp_ring_offset where
  "demo_offset = \<lparr>ro_producer = 0, ro_consumer = 64, ro_desc = 256, ro_flags = 128\<rparr>"

definition demo_build :: build_info where
  "demo_build = \<lparr>bi_revision = ''unknown'', bi_source_state = ''unknown'', bi_source_fingerprint = ''0'', bi_compiler = ''cc'',
     bi_configuration = ''Release'', bi_compile_command = ''make'', bi_libbpf_version = ''1''\<rparr>"

definition demo_machine :: "(unit, rat, rat) machine" where
  "demo_machine =
     \<lparr>ma_os = demo_os,
      ma_lib = \<lparr>lib_strerror = show_int, lib_file_name = (\<lambda>f. f), lib_function_name = fst, lib_what = (\<lambda>_. ''exception'')\<rparr>,
      ma_offsets = (\<lambda>_. \<lparr>off_rx = demo_offset, off_tx = demo_offset, off_fr = demo_offset, off_cr = demo_offset\<rparr>),
      ma_filled = (\<lambda>_. (\<lparr>rx_dropped = 0, rx_invalid_descs = 0, tx_invalid_descs = 0, rx_ring_full = 0,
                          rx_fill_ring_empty_descs = 0, tx_ring_empty_descs = 0\<rparr>, 48)),
      ma_inet_pton = (\<lambda>_. (1, 0x0100007F)), ma_time = 0, ma_getcpu = (3, 0),
      ma_world = (\<lambda>_. main_world), ma_kernel = loop_kernel,
      ma_fp = \<lparr>fp_ns = (\<lambda>s n. of_int (1000000000 * s + n)), fp_short = (\<lambda>ns. ns < 100000000),
               fp_per_tick = (\<lambda>ns n. ns / of_nat (unat n)), fp_usable = (\<lambda>x. x > 0)\<rparr>,
      ma_calib = \<lparr>te_cpuid = (\<lambda>_. Some (NOT 0)), te_gettime = (\<lambda>i. Inr (int i, 0)), te_nanosleep = (\<lambda>_. None),
                  te_rdtsc = of_nat\<rparr>,
      ma_policy = 0, ma_priority = Some 0, ma_signal_startup = False, ma_signal_activation = False,
      ma_activated_at = 0,
      ma_control = \<lparr>ce_now = (\<lambda>i. int i), ce_signal = (\<lambda>_. True), ce_signal_sampling = (\<lambda>_. False),
                    ce_rstats = (\<lambda>_. receiver_stats loop_receiver), ce_tstats = (\<lambda>_. transmitter_stats (cl_tx loop_client)),
                    ce_bench = (\<lambda>_. cl_bench loop_client)\<rparr>,
      ma_timing = loop_timing, ma_stop = (\<lambda>_. True), ma_joined_at = 1, ma_drain_at = 1, ma_clk = (\<lambda>i. 1000000000),
      ma_index = (\<lambda>p n. 0), ma_ns = (\<lambda>f t. f * of_nat (unat t)), ma_show = (\<lambda>_. ''0''), ma_show_tsc = (\<lambda>_. ''1.000000''),
      ma_csv = \<lparr>f_open = None, f_print = (\<lambda>_. (1, 0)), f_close = (\<lambda>_. (0, 0))\<rparr>,
      ma_metadata = \<lparr>md_open = None, md_print = (\<lambda>_. (1, 0)), md_close = (0, 0)\<rparr>,
      ma_meta = \<lparr>mt_build = demo_build, mt_uname = None, mt_ms = (\<lambda>_ _. ''0.000''), mt_double = (\<lambda>_ _. ''1'')\<rparr>\<rparr>"

definition demo_args :: Args where
  "demo_args = default_args\<lparr>a_filter_ip := ''127.0.0.1''\<rparr>"

definition demo_sys :: sys where
  "demo_sys = \<lparr>sys_trace = [], sys_errno = 0\<rparr>"

lemma demo_nonnull: "mmap_nonnull demo_os"
  by (simp add: mmap_nonnull_def demo_os_def NULL_def)

lemma demo_machine_ok: "machine_ok none_held none_held demo_machine"
proof -
  have "zeroed_world none_held none_held main_world"
    by (simp add: zeroed_world_def zeroed_ring_def main_world_def unused_ring_def none_held_def RING_SIZE_def
        NUM_FRAMES_def FRAME_SIZE_def)
  then show ?thesis
    using main_contract by (simp add: machine_ok_def demo_machine_def TX_DRAIN_TIMEOUT_def)
qed

section \<open>Bodies that succeed\<close>

definition succeeds :: "'a body \<Rightarrow> ('a \<Rightarrow> bool) \<Rightarrow> bool" where
  "succeeds m Q \<longleftrightarrow> (\<forall>s. \<exists>a s'. m s = Some (Inr a, s') \<and> Q a)"

lemma succeeds_bind:
  assumes "succeeds m Q" "\<And>a. Q a \<Longrightarrow> succeeds (f a) R"
  shows "succeeds (bbind m f) R"
  unfolding succeeds_def
proof
  fix s
  from assms(1) obtain a s1 where "m s = Some (Inr a, s1)" "Q a" unfolding succeeds_def by blast
  with assms(2) [of a] show "\<exists>b s'. bbind m f s = Some (Inr b, s') \<and> R b" by (simp add: bbind_def succeeds_def)
qed

lemma through:
  "m s = Some (Inr a, s') \<Longrightarrow> scoped m c s = Some (Inr a, c s')"
  "m s = Some (Inr a, s') \<Longrightarrow> on_leave m c s = Some (Inr a, s')"
  "m s = Some (Inr a, s') \<Longrightarrow> bnoexcept m s = Some (Inr a, s')"
  by (simp_all add: scoped_def on_leave_def bnoexcept_def)

lemma succeeds_through:
  assumes "succeeds m Q"
  shows "succeeds (scoped m c) Q" "succeeds (on_leave m c) Q" "succeeds (bnoexcept m) Q"
  using assms unfolding succeeds_def by (meson through)+

lemma succeeds_create:
  assumes "\<And>s. \<exists>a s'. m s = (Inr a, s') \<and> Q a"
  shows "succeeds (create_or_exit os what m) Q"
  unfolding succeeds_def
proof
  fix s
  from assms [of s] obtain a s' where "m s = (Inr a, s')" "Q a" by blast
  then show "\<exists>a s'. create_or_exit os what m s = Some (Inr a, s') \<and> Q a" by (simp add: create_or_exit_def)
qed

lemma succeeds_simple:
  "Q a \<Longrightarrow> succeeds (breturn a) Q" "succeeds (bcall f) (\<lambda>_. True)"
  "succeeds (bprint demo_os st msg) (\<lambda>_. True)" "succeeds (bnew demo_os n) (\<lambda>_. True)"
  "succeeds (start_thread demo_os) (\<lambda>_. True)"
  by (auto simp: succeeds_def breturn_def bcall_def bprint_def try_print_def bnew_def start_thread_def call_def demo_os_def
      split: prod.split)

lemma succeeds_print_all: "succeeds (bprint_all demo_os st ms) (\<lambda>_. True)"
  by (induction ms) (auto intro: succeeds_simple succeeds_bind [OF succeeds_simple(3)])

section \<open>A complete run\<close>

lemma demo_fields [simp]:
  "ma_os demo_machine = demo_os" "\<not> ma_signal_startup demo_machine" "\<not> ma_signal_activation demo_machine"
  "ma_getcpu demo_machine = (3, 0)" "worker_stop demo_machine 0"
  by (simp_all add: demo_machine_def worker_stop_def)

lemma demo_args_fields [simp]: "a_realtime demo_args = False" "a_cpu_pin demo_args = -1"
  by (simp_all add: demo_args_def default_args_def)

lemmas step_defs = ebind_def on_error_def ereturn_def efail_def ecall_def efind_def eplain_def call_def
  log_line_def println_def try_print_def

lemma demo_umem: "\<exists>u s'. Umem_create demo_os (umem_config demo_args) s = (Inr u, s')"
  by (simp add: Umem_create_def map_area_def lock_area_def log_pages_def step_defs demo_os_def umem_config_def demo_args_def
      default_args_def Let_def MAP_FAILED_def)

lemma demo_xsk: "\<exists>x s'. Xsk_create demo_os (ma_offsets demo_machine) (xsk_config demo_args) u s = (Inr x, s')"
  by (simp add: Xsk_create_def step_defs demo_os_def Let_def set_ring_sizes_def register_umem_def map_ring_def
      MmapRing_create_def MAP_FAILED_def finish_socket_def bind_socket_def bind_copy_def set_busy_poll_def xsk_config_def)

lemma demo_loader:
  "\<exists>l s'. XdpLoader_create demo_os (ma_inet_pton demo_machine) path iface q fd ip s = (Inr l, s') \<and>
    ld_ifindex l = 2"
  by (simp add: XdpLoader_create_def load_and_attach_def log_attached_def step_defs demo_os_def Let_def populate_loader_def
      load_program_def set_filter_def find_program_def attach_program_def parse_ipv4_def demo_machine_def)

lemma demo_prepare:
  assumes "cpu_affinity (rc_cfg r) = 3" "\<not> realtime_sched (rc_cfg r)"
  shows "succeeds (prepare_worker demo_machine r sm) (\<lambda>x. \<not> isl (fst x))"
proof -
  have "\<exists>cal. calibrate_tsc (ma_fp demo_machine) (ma_calib demo_machine) = Some (Inr cal)"
    by (simp add: calibrate_tsc_def demo_machine_def cpu_has_def finish_calibration_def sleep_loop.simps Let_def)
  then obtain cal where cal: "calibrate_tsc (ma_fp demo_machine) (ma_calib demo_machine) = Some (Inr cal)" by blast
  have "succeeds (bcall (prepare_thread demo_os r)) (\<lambda>res. res = Inr ())"
    using assms by (simp add: succeeds_def bcall_def prepare_thread_def pin_to_cpu_def CPU_SETSIZE_def call_def demo_os_def)
  then show ?thesis
    unfolding prepare_worker_def demo_fields cal bbind_bpure Let_def
    by (rule succeeds_bind) (auto intro!: succeeds_simple)
qed

lemma demo_start_up:
  assumes "cpu_affinity (rc_cfg r) = 3" "\<not> realtime_sched (rc_cfg r)"
  shows "succeeds (start_up demo_machine demo_args xsk r sm) (\<lambda>_. True)"
proof -
  have create: "succeeds (create_or_exit demo_os what (XdpLoader_create demo_os (ma_inet_pton demo_machine) path iface q fd ip))
      (\<lambda>_. True)" for what path iface q fd ip
    by (rule succeeds_create) (use demo_loader in blast)
  show ?thesis
    unfolding start_up_def split_beta demo_fields
    by (rule succeeds_bind [OF demo_prepare [OF assms]])
      (auto simp: isl_def intro!: succeeds_bind [OF create] succeeds_simple split: sum.split)
qed

lemma demo_control: "succeeds (control_phase demo_machine fd cpu cal sm l) (\<lambda>x. ct_thrown (fst x) = None \<and> ct_exit (fst x) = 0)"
  unfolding succeeds_def
proof
  fix s
  have pr: "ct_thrown (control_print demo_os st msg k) = ct_thrown k" "ct_exit (control_print demo_os st msg k) = ct_exit k" for st msg k
    by (auto simp: control_print_def try_print_def call_def demo_os_def)
  define k where "k = announce demo_machine cpu cal (first_control demo_machine sm s)"
  have k: "ct_thrown k = None" "ct_exit k = 0" by (simp_all add: k_def announce_def first_control_def Let_def pr)
  have "control_loop demo_os (ma_filled demo_machine) fd (ma_control demo_machine) (ma_activated_at demo_machine) 0 k = Some (0, k)"
    by (simp add: control_loop.simps demo_machine_def)
  moreover have "ct_thrown (fst (stop_redirection demo_os l k)) = None \<and> ct_exit (fst (stop_redirection demo_os l k)) = 0"
    using k by (simp add: stop_redirection_def pr stop_redirect_def call_def demo_os_def Let_def)
  ultimately show "\<exists>a s'. control_phase demo_machine fd cpu cal sm l s = Some (Inr a, s') \<and>
      ct_thrown (fst a) = None \<and> ct_exit (fst a) = 0"
    by (cases "stop_redirection demo_os l k") (simp add: control_phase_def k_def [symmetric])
qed

lemma demo_finish:
  assumes "ct_exit k = 0"
  shows "succeeds (finish demo_machine fd l k r cl 0) (\<lambda>x. fst (snd x) = 0 \<and> snd (snd x) = cl_samples cl)"
proof -
  have d: "succeeds (bcall (\<lambda>s. let (res, loader, s) = detach demo_os l s in ((res, loader), s))) (\<lambda>x. fst x = Inr ())"
    by (simp add: succeeds_def bcall_def detach_def call_def demo_os_def Let_def)
  have "\<exists>st s'. kernel_stats demo_os (ma_filled demo_machine) fd s = (Inr st, s')" for s
    by (simp add: kernel_stats_def call_def demo_os_def demo_machine_def Let_def)
  then have ks: "succeeds (bcall (kernel_stats demo_os (ma_filled demo_machine) fd)) (\<lambda>st. \<not> isl st)"
    unfolding succeeds_def bcall_def Let_def by (metis (mono_tags, lifting) isl_def case_prod_conv sum.disc(2))
  have rem: "succeeds (on_leave (note_remaining demo_os 0 (ct_exit k)) c) (\<lambda>c. c = 0)" for c
    using assms by (intro succeeds_through) (simp add: note_remaining_def succeeds_simple)
  have note_: "\<not> isl st \<Longrightarrow> snd (note_kernel_stats st sm 0) = 0" for st sm by (cases st) (simp_all add: note_kernel_stats_def Let_def)
  show ?thesis
    unfolding finish_def Let_def split_beta demo_fields
    by (rule succeeds_bind [OF rem], rule succeeds_bind [OF d [unfolded Let_def split_beta]], rule succeeds_through)
      (auto intro!: succeeds_bind [OF ks] succeeds_simple simp: note_)
qed

lemma start_worker_idle:
  assumes "make_worker cpu realtime xsk io = Some (r, cl, io')"
  shows "tx_used (cl_tx cl) = 0" "outstanding (cl_tx cl) = 0" "sm_n (cl_samples cl) = 0"
    "cpu_affinity (rc_cfg r) = cpu" "realtime_sched (rc_cfg r) = realtime"
  using assms
  by (auto simp: make_worker_def Transmitter_new_def Receiver_new_def Samples_new_def split: bind_splits prod.splits if_splits)

lemma idle_run:
  assumes "tx_used (cl_tx cl) = 0" "outstanding (cl_tx cl) = 0" "stop 0"
  shows "run cb commit_tx K stop r cl io = Some (r, cl, io)" "\<exists>tr io'. drain_until K clk deadline (cl_tx cl) io = Some (0, tr, io')"
  using assms
  by (simp_all add: run_def run_loop.simps drain_until_def drain_loop.simps publish_and_service_tx_def publish_staged_def)

lemma demo_shutdown:
  assumes "tx_used (cl_tx cl) = 0" "outstanding (cl_tx cl) = 0" "sm_n (cl_samples cl) = 0"
    and "ct_thrown k = None" "ct_exit k = 0"
  shows "succeeds (shutdown demo_machine fd k l r cl io) (\<lambda>x. fst (snd x) = 0 \<and> sm_n (snd (snd x)) = 0)"
proof -
  obtain tr io' where d: "drain_until (ma_kernel demo_machine) (ma_clk demo_machine) (ma_drain_at demo_machine + TX_DRAIN_TIMEOUT)
      (cl_tx cl) io = Some (0, tr, io')" using idle_run(2) [where stop = "\<lambda>_. True", OF assms(1,2)] by blast
  have "succeeds (finish demo_machine fd l k r (cl\<lparr>cl_tx := tr\<rparr>) 0) (\<lambda>x. fst (snd x) = 0 \<and> sm_n (snd (snd x)) = 0)"
    using demo_finish [OF assms(5), of fd l r "cl\<lparr>cl_tx := tr\<rparr>"] assms(3) by (auto simp: succeeds_def) metis
  then show ?thesis
    unfolding shutdown_def idle_run(1) [where stop = "worker_stop demo_machine", OF assms(1,2) demo_fields(5)] bbind_bpure prod.case
    by (intro succeeds_bind [OF succeeds_simple(2)]) (simp add: assms(4) d)
qed

lemma demo_serve:
  assumes "fresh_socket main_geometry none_held none_held x (ma_world demo_machine x)"
  shows "succeeds (serve demo_machine demo_args x 3 sm) (\<lambda>x. fst (snd (snd x)) = 0 \<and> sm_n (snd (snd (snd x))) = 0)"
proof -
  have "kernel_contract main_geometry none_held none_held (ma_kernel demo_machine)"
    using demo_machine_ok by (simp add: machine_ok_def)
  from start_worker_ok [OF this assms, of 3 False] obtain al res io r cl where
    sw: "FrameAllocator_new ALLOC_CAP NUM_FRAMES FRAME_SIZE = Some al"
      "prime_socket (ma_kernel demo_machine) al x (ma_world demo_machine x) = Some (res, io)"
      "make_worker 3 False x io = Some (r, cl, io)"
    by (auto simp: start_worker_def make_worker_def split: bind_splits prod.splits)
  note idle = start_worker_idle [OF sw(3)]
  have wakeup: "succeeds (case res of Inl e \<Rightarrow> if is_expected_wakeup_retry e then breturn () else bprint demo_os Stderr (f e)
      | Inr (u :: unit) \<Rightarrow> breturn ()) (\<lambda>_. True)" for f
    by (auto intro: succeeds_simple split: sum.split)
  have up: "succeeds (on_leave (start_up demo_machine demo_args x r sm) c) (\<lambda>_. True)" for c
    by (intro succeeds_through demo_start_up) (simp_all add: idle)
  show ?thesis
    unfolding serve_def sw(1) bbind_bpure demo_fields demo_args_fields
    unfolding sw(2) bbind_bpure prod.case
    unfolding sw(3) bbind_bpure prod.case split_beta fst_conv snd_conv
    by (intro succeeds_bind [OF succeeds_simple(3)] succeeds_bind [OF wakeup] succeeds_bind [OF succeeds_simple(5)])
      (rule succeeds_bind [OF up], rule succeeds_bind [OF demo_control], rule succeeds_bind [OF demo_shutdown [OF idle(1-3)]],
       auto intro!: succeeds_simple)
qed

lemma demo_metadata:
  "\<exists>str. dump_run_metadata (ma_metadata demo_machine) (ma_meta demo_machine) demo_args sm cal c = Some (Inr str)"
  by (simp add: dump_run_metadata_def printf_metadata demo_machine_def file_print_def print_kernel_stats_def
      kernel_stats_calls_def Let_def split: sum.split)

lemma demo_export:
  assumes "sm_n samples = 0"
  shows "succeeds (export_results demo_machine demo_args cal sm 0 samples) (\<lambda>x. fst x = 0)"
proof -
  have rep: "succeeds (print_report demo_machine t samples) (\<lambda>sa. sm_n sa = 0)" for t
    unfolding print_report_def using assms
    by (intro succeeds_through) (auto simp: samples_report_def intro!: succeeds_bind [OF succeeds_simple(3)] succeeds_simple)
  have csv: "succeeds (export_csv demo_machine t sa sm' 0) (\<lambda>x. snd x = 0)" if "sm_n sa = 0" for t sa sm'
    unfolding export_csv_def using that
    by (auto simp: dump_csv_def print_error_def demo_machine_def intro!: succeeds_simple)
  have md: "succeeds (export_metadata demo_machine demo_args cal sm' 0) (\<lambda>c. c = 0)" for sm'
    unfolding export_metadata_def using demo_metadata [of sm' cal 0] by (metis (mono_tags, lifting) bbind_bpure succeeds_simple(1) sum.case(2))
  show ?thesis
    unfolding export_results_def Let_def split_beta demo_fields
    by (rule succeeds_bind [OF rep], rule succeeds_bind [OF csv], assumption, simp, rule succeeds_bind [OF md],
        rule succeeds_bind [OF succeeds_simple(2)], rule succeeds_bind [OF succeeds_simple(3)]) (simp add: succeeds_simple)
qed

lemma demo_run: "\<exists>sm s'. run_receiver demo_machine demo_args s = Some (Inr (0, sm), s')"
proof -
  let ?M = demo_machine
  have zw: "zeroed_world none_held none_held (ma_world ?M x)" for x using demo_machine_ok by (simp add: machine_ok_def)
  have sock: "succeeds (create_or_exit demo_os what (Xsk_create demo_os (ma_offsets ?M) (xsk_config demo_args) u))
      (\<lambda>x. fresh_socket main_geometry none_held none_held x (ma_world ?M x))" for what u
    by (rule succeeds_create) (use demo_xsk zeroed_fresh [OF zw] in blast)
  have umem: "succeeds (create_or_exit demo_os what (Umem_create demo_os (umem_config demo_args))) (\<lambda>_. True)" for what
    by (rule succeeds_create) (use demo_umem in blast)
  have io: "succeeds (io_block ?M demo_args 3 sm) (\<lambda>x. fst (snd (snd x)) = 0 \<and> sm_n (snd (snd (snd x))) = 0)" for sm
    unfolding io_block_def with_socket_def demo_fields
    by (rule succeeds_bind [OF umem], rule succeeds_through, rule succeeds_bind [OF succeeds_simple(3)],
        rule succeeds_bind [OF sock], rule succeeds_through, rule demo_serve)
  have "succeeds (run_receiver ?M demo_args) (\<lambda>x. fst x = 0)"
    unfolding run_receiver_def Let_def split_beta demo_fields demo_args_fields
    by (rule succeeds_bind [OF succeeds_print_all], simp, rule succeeds_bind [OF succeeds_simple(4)], rule succeeds_bind [OF io])
      (simp add: demo_export)
  then show ?thesis unfolding succeeds_def by (metis prod.collapse)
qed

end
