(* ===== verification/Xdp_Filter.thy ===== *)
theory Xdp_Filter
  imports Reflect
begin

text \<open>
  \<^verbatim>\<open>bpf/xdp_prog_bpf.c\<close>: the XDP program that decides which packets reach the socket. The packet is
  its byte list; \<open>data_end\<close> is the length. Every load goes through \<open>mem_read\<close>, so that a result says
  that no load is out of bounds. The array map \<open>target_ip_map\<close> is the parameter \<open>target\<close> (the value
  under key 0, if the lookup succeeds) and \<open>bpf_redirect_map\<close> on \<open>xsks_map\<close> is \<open>redirect\<close>, a function
  of the queue and the fallback action.
\<close>

datatype xdp_action = XDP_PASS | XDP_REDIRECT

definition ETH_P_8021Q :: u16 where "ETH_P_8021Q = 0x8100"
definition ETH_P_8021AD :: u16 where "ETH_P_8021AD = 0x88a8"
definition VLAN_MAX_DEPTH :: nat where "VLAN_MAX_DEPTH = 2"

text \<open>A 32-bit load on a little-endian machine.\<close>

definition read_le32 :: "u8 list \<Rightarrow> nat \<Rightarrow> u32 option" where
  "read_le32 f off = do {
     bs \<leftarrow> mem_read f off 4;
     Some (ucast (bs ! 0) OR push_bit 8 (ucast (bs ! 1)) OR push_bit 16 (ucast (bs ! 2)) OR push_bit 24 (ucast (bs ! 3))) }"

text \<open>
  The unrolled VLAN loop with \<open>n\<close> turns left: \<open>Some None\<close> is the early \<open>return XDP_PASS\<close>, otherwise
  the protocol and the cursor after it. Protocols are compared in network byte order, so \<open>read_be16\<close>
  on both sides is the same test.
\<close>

fun skip_vlan :: "nat \<Rightarrow> u8 list \<Rightarrow> u16 \<Rightarrow> nat \<Rightarrow> (u16 \<times> nat) option option" where
  "skip_vlan 0 f proto cursor = Some (Some (proto, cursor))"
| "skip_vlan (Suc n) f proto cursor =
     (if proto \<noteq> ETH_P_8021Q \<and> proto \<noteq> ETH_P_8021AD then Some (Some (proto, cursor))
      else if cursor + 4 > length f then Some None
      else do {
        proto \<leftarrow> read_be16 f (cursor + 2);
        skip_vlan n f proto (cursor + 4) })"

definition match_ip ::
  "u32 option \<Rightarrow> (u32 \<Rightarrow> xdp_action \<Rightarrow> xdp_action) \<Rightarrow> u32 \<Rightarrow> u8 list \<Rightarrow> u16 \<Rightarrow> nat \<Rightarrow> xdp_action option" where
  "match_ip target redirect rx_queue_index f proto cursor =
     (if proto \<noteq> ETH_P_IP then Some XDP_PASS
      else if cursor + 20 > length f then Some XDP_PASS
      else (case target of
              None \<Rightarrow> Some XDP_PASS
            | Some ip \<Rightarrow> do {
                saddr \<leftarrow> read_le32 f (cursor + 12);
                if saddr \<noteq> ip then Some XDP_PASS
                else Some (redirect rx_queue_index XDP_PASS) }))"

definition xdp_filter_ip ::
  "u32 option \<Rightarrow> (u32 \<Rightarrow> xdp_action \<Rightarrow> xdp_action) \<Rightarrow> u32 \<Rightarrow> u8 list \<Rightarrow> xdp_action option" where
  "xdp_filter_ip target redirect rx_queue_index f =
     (if 14 > length f then Some XDP_PASS
      else do {
        proto \<leftarrow> read_be16 f 12;
        vlan \<leftarrow> skip_vlan VLAN_MAX_DEPTH f proto 14;
        (case vlan of
           None \<Rightarrow> Some XDP_PASS
         | Some (proto, cursor) \<Rightarrow> match_ip target redirect rx_queue_index f proto cursor) })"

section \<open>What it should do\<close>

text \<open>Where the IPv4 header starts: after at most two VLAN tags, and only if it is complete.\<close>

definition vlan_tag :: "u8 list \<Rightarrow> nat \<Rightarrow> bool" where
  "vlan_tag f off \<longleftrightarrow> Suc off < length f \<and> word_at f off \<in> {0x8100, 0x88a8}"

definition ipv4_at :: "u8 list \<Rightarrow> nat \<Rightarrow> bool" where
  "ipv4_at f off \<longleftrightarrow> word_at f (off - 2) = 0x0800 \<and> off + 20 \<le> length f"

definition ip_offset :: "u8 list \<Rightarrow> nat option" where
  "ip_offset f =
     (if \<not> vlan_tag f 12 then (if ipv4_at f 14 then Some 14 else None)
      else if \<not> vlan_tag f 16 then (if ipv4_at f 18 then Some 18 else None)
      else if ipv4_at f 22 then Some 22 else None)"

definition source_ip :: "u8 list \<Rightarrow> nat \<Rightarrow> u32" where
  "source_ip f off = ucast (f ! (off + 12)) OR push_bit 8 (ucast (f ! (off + 13))) OR
     push_bit 16 (ucast (f ! (off + 14))) OR push_bit 24 (ucast (f ! (off + 15)))"

definition dest_ip :: "u8 list \<Rightarrow> nat \<Rightarrow> u32" where
  "dest_ip f off = ucast (f ! (off + 16)) OR push_bit 8 (ucast (f ! (off + 17))) OR
     push_bit 16 (ucast (f ! (off + 18))) OR push_bit 24 (ucast (f ! (off + 19)))"

section \<open>Correctness\<close>

lemma read_le32_at: "off + 4 \<le> length f \<Longrightarrow>
  read_le32 f off = Some (ucast (f ! off) OR push_bit 8 (ucast (f ! (off + 1))) OR
    push_bit 16 (ucast (f ! (off + 2))) OR push_bit 24 (ucast (f ! (off + 3))))"
  by (simp add: read_le32_def mem_read_def numeral_eq_Suc)

lemma be16_word: "be16 (f ! i) (f ! Suc i) = w \<longleftrightarrow> word_at f i = unat w"
  by (simp add: word_at_def word_unat_eq_iff)

lemma is_vlan: "(be16 (f ! i) (f ! Suc i) \<noteq> ETH_P_8021Q \<and> be16 (f ! i) (f ! Suc i) \<noteq> ETH_P_8021AD) \<longleftrightarrow>
   word_at f i \<notin> {0x8100, 0x88a8}"
  by (simp add: be16_word ETH_P_8021Q_def ETH_P_8021AD_def)

lemma read_source_ip: "off + 20 \<le> length f \<Longrightarrow> read_le32 f (off + 12) = Some (source_ip f off)"
  using read_le32_at [of "off + 12" f] by (simp add: source_ip_def add.commute [of off])

lemma match_ip_spec:
  assumes "2 \<le> off"
  shows "match_ip target redirect q f (be16 (f ! (off - 2)) (f ! (off - 1))) off =
    Some (if ipv4_at f off \<and> target = Some (source_ip f off) then redirect q XDP_PASS else XDP_PASS)"
proof -
  have "be16 (f ! (off - 2)) (f ! (off - 1)) = ETH_P_IP \<longleftrightarrow> word_at f (off - 2) = 0x0800"
  proof -
    have "Suc (off - 2) = off - 1" using assms by simp
    then show ?thesis using be16_word [of f "off - 2" ETH_P_IP] by (simp add: ETH_P_IP_def)
  qed
  then show ?thesis
    using read_source_ip [of off f]
    by (auto simp: match_ip_def ipv4_at_def not_less split: option.splits)
qed

lemma skip_vlan_spec:
  assumes "14 \<le> length f"
  shows "skip_vlan VLAN_MAX_DEPTH f (be16 (f ! 12) (f ! 13)) 14 =
    Some (if \<not> vlan_tag f 12 then Some (be16 (f ! 12) (f ! 13), 14)
          else if length f < 18 then None
          else if \<not> vlan_tag f 16 then Some (be16 (f ! 16) (f ! 17), 18)
          else if length f < 22 then None
          else Some (be16 (f ! 20) (f ! 21), 22))"
  using assms is_vlan [of f 12] is_vlan [of f 16]
  by (auto simp: VLAN_MAX_DEPTH_def numeral_2_eq_2 vlan_tag_def read_be16_at)

text \<open>The program never loads out of bounds and redirects exactly the IPv4 packets of the target.\<close>

lemma xdp_filter_ip_spec:
  "xdp_filter_ip target redirect q f =
     Some (case ip_offset f of
             Some off \<Rightarrow> if target = Some (source_ip f off) then redirect q XDP_PASS else XDP_PASS
           | None \<Rightarrow> XDP_PASS)"
proof (cases "14 \<le> length f")
  case False
  then show ?thesis by (auto simp: xdp_filter_ip_def ip_offset_def ipv4_at_def vlan_tag_def)
next
  case True
  have "xdp_filter_ip target redirect q f =
      Some (if \<not> vlan_tag f 12 then (if ipv4_at f 14 \<and> target = Some (source_ip f 14) then redirect q XDP_PASS else XDP_PASS)
        else if length f < 18 then XDP_PASS
        else if \<not> vlan_tag f 16 then (if ipv4_at f 18 \<and> target = Some (source_ip f 18) then redirect q XDP_PASS else XDP_PASS)
        else if length f < 22 then XDP_PASS
        else (if ipv4_at f 22 \<and> target = Some (source_ip f 22) then redirect q XDP_PASS else XDP_PASS))"
    using True skip_vlan_spec [OF True] match_ip_spec [of 14] match_ip_spec [of 18] match_ip_spec [of 22]
    by (simp add: xdp_filter_ip_def read_be16_at)
  then show ?thesis by (auto simp: ip_offset_def ipv4_at_def)
qed

text \<open>A frame the reflector answers is untagged, so the filter compares its source address.\<close>

lemma supported_ip_offset: "supported f \<Longrightarrow> ip_offset f = Some 14"
  by (auto simp: supported_def ip_offset_def ipv4_at_def vlan_tag_def)

text \<open>The answer goes to the address the request came from, and claims the address it was sent to.\<close>

lemma reflected_addresses:
  assumes "supported f"
  shows "dest_ip (reflected f) 14 = source_ip f 14" "source_ip (reflected f) 14 = dest_ip f 14"
proof -
  have "42 \<le> length f" using assms by (simp add: supported_def)
  then show "dest_ip (reflected f) 14 = source_ip f 14" "source_ip (reflected f) 14 = dest_ip f 14"
    by (simp_all add: dest_ip_def source_ip_def nth_reflected reflect_index_def)
qed

end
