(* ===== verification/Spec2Isabelle.thy ===== *)
theory Spec2Isabelle
  imports Demo_Machine Batch Xdp_Filter
begin

text \<open>
  Verification of an AF_XDP receiver and UDP reflector (\<^verbatim>\<open>src/main.cpp\<close>, \<^verbatim>\<open>src/include/afxdp\<close>,
  \<^verbatim>\<open>src/bpf\<close>).

  The program. \<open>main\<close> parses the command line, installs signal handlers and calls \<open>run_receiver\<close>. That
  maps a memory area (UMEM) of 8192 frames, creates an AF_XDP socket with four rings shared with the
  kernel (fill, RX, TX, completion), prepares a worker thread, loads an XDP program that redirects
  the packets of one source address to the socket, and then reports once a second until a signal or
  an anomaly. The worker takes batches off the RX ring, swaps the endpoints of each supported packet
  in place, stages the same frame for sending, publishes the batch, takes completed frames back into
  an allocator and refills the fill ring from it. At shutdown redirection stops, the worker is
  joined, the transmitter drained, the program detached, and samples and metadata are written.

  \<^bold>\<open>Theories, in the order of the code.\<close>
  \<^item> \<open>Prelude\<close>: words, windows of a ring, multisets, the named collections. \<open>Text\<close>: the messages the
    program prints, and \<open>printf\<close> with a reader for what it writes.
  \<^item> \<open>System\<close> (\<^verbatim>\<open>common.hpp\<close>): system calls through a parameter \<open>os\<close> with a trace of all calls and
    their results; errors, \<open>FileDesc\<close>; \<open>holds_after s R s'\<close> says that the calls from \<open>s\<close> to \<open>s'\<close> leave
    exactly the resources \<open>R\<close> held, \<open>owns\<close> is the corresponding triple over steps that can fail, and
    the locale \<open>resource_owner\<close> is the contract of an object that owns resources, interpreted on the
    area and, with the stronger \<open>unwinding_owner\<close>, on the socket. Console output and the operations on
    the worker's thread are calls of the trace too.
  \<^item> \<open>Ring\<close> (\<^verbatim>\<open>ring.hpp\<close>): free-running 32-bit indices with cached copies; locales for the producer's
    and the consumer's contract, interpreted on the operations. \<open>Socket\<close> has creation and moves.
  \<^item> \<open>Frame_Alloc\<close> (\<^verbatim>\<open>frame_alloc.hpp\<close>), \<open>Umem\<close> (\<^verbatim>\<open>umem.hpp\<close>).
  \<^item> \<open>Xsk\<close>, \<open>Ownership\<close>, \<open>Socket\<close> (\<^verbatim>\<open>xsk.hpp\<close>): the hot path of the socket, the kernel contract and the
    invariant that every frame has one owner; creation, destruction, statistics.
  \<^item> \<open>Transmitter\<close>, \<open>Receiver\<close> (\<^verbatim>\<open>transmitter.hpp\<close>, \<^verbatim>\<open>receiver.hpp\<close>): the receiver is verified once over
    any callback and commit, in the locales \<open>rx_client\<close> and \<open>receiver_client\<close>.
  \<^item> \<open>Reflect\<close>, \<open>Samples\<close>, \<open>Calibration\<close> (\<^verbatim>\<open>bench.hpp\<close>): the swap with its checksums, latency samples,
    calibration of the time stamp counter.
  \<^item> \<open>Packet\<close>, \<open>Reflector\<close>, \<open>Batch\<close>, \<open>Worker_Steps\<close> (\<^verbatim>\<open>main.cpp\<close>, the worker): packets as bytes of the
    UMEM, the callback and the commit with their interpretations of the receiver's locales, what a
    batch stages, and the worker as a step relation with its reachable states.
  \<^item> \<open>Loader\<close>, \<open>Xdp_Filter\<close> (\<^verbatim>\<open>xdp_loader.hpp\<close>, \<^verbatim>\<open>xdp_prog_bpf.c\<close>): loading, filtering.
  \<^item> \<open>Command_Line\<close>, \<open>Control\<close>, \<open>Metadata\<close> (\<^verbatim>\<open>main.cpp\<close>): arguments and signals, the control loop, the file
    \<^verbatim>\<open>run_metadata.txt\<close>.
  \<^item> \<open>Unwind\<close>, \<open>Program\<close> (\<^verbatim>\<open>main.cpp\<close>): function bodies that end by a return, an exception or
    \<open>std::terminate\<close>, and \<open>run_receiver\<close> and \<open>main\<close> as a whole, with every early return, every line
    printed and every destructor. \<open>Program_Resources\<close> and \<open>Program_Result\<close> hold the lemmas on what a run
    leaves behind and on its outcome.
  \<^item> \<open>Loopback\<close>, \<open>Demo_Machine\<close>: a concrete kernel and machine that satisfy all assumptions, for the
    witnesses.

  \<^bold>\<open>State and effects.\<close> C++ objects are records, \<open>std::expected\<close> a sum, machine integers words of their
  width, \<open>None\<close> a failed assertion, an access out of range or a loop that does not end. The memory the
  worker shares with the kernel is explicit (\<open>world\<close>); before every load of a word the kernel writes,
  the kernel may do anything its contract allows (\<open>k_async\<close>), so the model of a pass is the pass
  interleaved with arbitrary kernel progress. Atomics of the program are only read and written by
  one thread each or monotone flags; the two threads see each other through streams (\<open>machine\<close>).
  An exception is a way out of a body; unwinding runs the destructors of the enclosing blocks, and an
  exception that reaches a \<open>noexcept\<close> boundary is \<open>Terminate\<close>, after which no destructor runs.

  \<^bold>\<open>Assumptions.\<close> \<open>kernel_contract\<close>: the kernel takes descriptors off the fill and TX rings in order,
  appends descriptors of frames it holds to the RX and completion rings, writes only into frames it
  holds for receiving. \<open>machine_ok\<close> adds zeroed new rings, a signal that arrives, a clock that reaches
  the deadline of the drain, and a sleep that is not interrupted for ever. \<open>mmap_nonnull\<close>: \<open>mmap\<close> never
  returns the null page. libbpf, \<open>inet_pton\<close>, the C library's streams, floating point and the
  processor are parameters.

  \<^bold>\<open>Results.\<close> C1 to C5: the worker never faults, keeps every frame, answers exactly the supported
  packets, and its counters add up. C6 to C16: rings as queues, the allocator as a stack, refill,
  staging, reclaiming, service, drain. C17 to C22: reflection, samples and their export. C23: the
  calls that prepare the worker's thread. C24 to C30: the program as a whole returns, leaks nothing,
  joins the worker before it gives anything back, and its exit code, summary, last line and metadata
  file mean what they say. C31: the control loop. C32 to C35: start-up leaves nothing behind when it
  fails. C36, C37: the filter. C38 to C40: command line and calibration.

  \<^bold>\<open>Loops.\<close> Batch, refill and reclaim loops terminate by a measure on their indices. The poll loop, the
  drain, the control loop and the interrupted sleep may run for ever, so they are partial functions
  into \<open>option\<close>, and the theorems prove that they return once their stream says stop; no fuel is used.

  \<^bold>\<open>Not modelled.\<close> Memory exhaustion while a string is built or formatted (the buffer of the samples
  and the start of the thread can fail); heap memory as a resource; the memory model below the
  acquire and release of the ring indices, which the contract with the kernel abstracts; the value of
  the CPU's time stamp counter; the build.
\<close>

section \<open>The worker\<close>

text \<open>
  C1. A pass of the poll loop (receive a batch, reflect and stage, publish and reclaim, refill, wake
  up) always returns: no failed assertion, no access outside a ring, the allocator or the UMEM. It
  processes at most a batch, hands every frame it staged to the kernel before it ends, and keeps the
  invariant, in particular that every UMEM frame has exactly one owner, whatever the kernel does in
  between within the AF_XDP protocol.
\<close>

theorem worker_pass:
  assumes "kernel_contract g kr kt K" "worker_inv g kr kt 0 cl io"
    and "rc_frame_mask r = frame_mask (g_frame_size g)"
  shows "\<exists>n r' cl' io'. process_rx_and_maintain_io (strategy tsc K) (service_tx K) K r cl io = Some (n, r', cl', io') \<and>
    worker_inv g kr kt 0 cl' io' \<and> n \<le> word_of_int (batch_size (rc_cfg r)) \<and>
    cl_staged cl' io' = [] \<and> frames_submitted (cl_tx cl') = b_staged (cl_bench cl') \<and>
    rc_cfg r' = rc_cfg r \<and> rc_frame_mask r' = rc_frame_mask r"
proof -
  from worker.process_ok [of g kr kt K cl io r tsc] assms obtain n r' cl' io' where
    p: "process_rx_and_maintain_io (strategy tsc K) (service_tx K) K r cl io = Some (n, r', cl', io')"
      "worker_inv g kr kt 0 cl' io'" "n \<le> word_of_int (batch_size (rc_cfg r))" "rc_cfg r' = rc_cfg r"
      "rc_frame_mask r' = rc_frame_mask r" by blast
  note used = pass_submits [OF p(1)]
  have "cl_staged cl' io' = []" using used by (simp add: cl_staged_def tx_pending_def ring_pending_def)
  moreover have "frames_submitted (cl_tx cl') = b_staged (cl_bench cl')"
    using p(2) used by (simp add: worker_inv_def counters_ok_def)
  ultimately show ?thesis using p by blast
qed

theorem worker_pass_witness:
  "\<exists>n r' cl' io'. process_rx_and_maintain_io (strategy loop_timing loop_kernel) (service_tx loop_kernel)
      loop_kernel loop_receiver loop_client loop_io = Some (n, r', cl', io') \<and>
    worker_inv loop_geometry none_held none_held 0 cl' io' \<and> n \<le> 2 \<and> cl_staged cl' io' = []"
proof -
  have "rc_frame_mask loop_receiver = frame_mask (g_frame_size loop_geometry)"
    "batch_size (rc_cfg loop_receiver) = 2"
    by (simp_all add: loop_receiver_def Receiver_new_def loop_geometry_def)
  then show ?thesis
    using worker_pass [OF loop_contract loop_worker_inv, of loop_receiver loop_timing] by auto
qed

text \<open>
  C2. The receive loop over a window of the RX ring stages, in order and without gaps, exactly the
  supported packets that the transmitter accepts; the UMEM bytes of a staged packet are the received
  bytes with the endpoints swapped; a supported packet is refused only if the frames in flight, the
  frames staged before the batch and the earlier entries of the batch could already fill the TX ring.
\<close>

theorem batch_reflects:
  assumes "kernel_contract g kr kt K" "worker_inv g kr kt 0 cl io" "unat n \<le> length (rx_queue io)"
  shows "\<exists>acc cl' io'. receive_loop (strategy tsc K) (frame_mask (g_frame_size g))
      (cached_cons (xsk_rx (io_xsk io))) n 0 cl io = Some (cl', io') \<and>
    length acc = unat n \<and>
    cl_staged cl' io' = cl_staged cl io @ map tx_of (chosen acc (rx_queue io)) \<and>
    (\<forall>i < unat n. let d = rx_queue io ! i in
       if acc ! i then supported (packet io d) \<and> packet io' d = reflected (packet io d)
       else \<not> supported (packet io d) \<or>
            unat (g_ring g) \<le> unat (outstanding (cl_tx cl)) + length (cl_staged cl io) + i) \<and>
    b_callbacks (cl_bench cl') = b_callbacks (cl_bench cl) + ucast n"
proof -
  from receive_loop_reflects [OF assms, of tsc] obtain acc cl' io' where
    lp: "receive_loop (strategy tsc K) (frame_mask (g_frame_size g)) (cached_cons (xsk_rx (io_xsk io))) n 0 cl io =
      Some (cl', io')" and len: "length acc = unat n" and log: "batch_log g kr cl io acc cl' io'" by blast
  have "(of_nat (unat n) :: u64) = ucast n" by (simp add: word_unat_eq_iff)
  with lp len log show ?thesis
    by (intro exI [of _ acc] exI [of _ cl'] exI [of _ io']) (auto simp: batch_log_def Let_def)
qed

theorem batch_reflects_witness:
  "\<exists>cl' io'. receive_loop (strategy loop_timing loop_kernel) (frame_mask 64) 0 1 0 loop_client loop_io = Some (cl', io') \<and>
    cl_staged cl' io' = [\<lparr>d_addr = 0, d_len = 42, d_options = 0\<rparr>] \<and>
    packet io' \<lparr>d_addr = 0, d_len = 42, d_options = 0\<rparr> = reflected datagram"
proof -
  let ?d = "\<lparr>d_addr = 0, d_len = 42, d_options = 0\<rparr>"
  have pk: "packet loop_io ?d = datagram" by code_simp
  have sup: "supported datagram" by code_simp
  have st: "cl_staged loop_client loop_io = []" "outstanding (cl_tx loop_client) = 0"
    by (simp_all add: cl_staged_def loop_client_def tx_pending_def ring_pending_def)
  have g: "g_frame_size loop_geometry = 64" "g_ring loop_geometry = 4" by (simp_all add: loop_geometry_def)
  have cc: "cached_cons (xsk_rx (io_xsk loop_io)) = 0" by (simp add: loop_io_def loop_xsk_def loop_ring_def)
  from batch_reflects [OF loop_contract loop_worker_inv, of 1 loop_timing] obtain acc cl' io' where
    lp: "receive_loop (strategy loop_timing loop_kernel) (frame_mask 64) 0 1 0 loop_client loop_io = Some (cl', io')"
      "length acc = 1" "cl_staged cl' io' = map tx_of (chosen acc [?d])"
      "if acc ! 0 then packet io' ?d = reflected datagram else False"
    using sup by (auto simp: loop_queues g cc st pk Let_def split: if_splits)
  from lp(2) obtain b where "acc = [b]" by (cases acc) auto
  with lp show ?thesis by (auto simp: chosen_def tx_of_def split: if_splits)
qed

text \<open>
  C3. From the bound socket to the end of the shutdown drain: with the constants of \<open>main.cpp\<close>,
  start-up succeeds, the worker runs until a stop is requested, and the drain returns. The number of
  abandoned frames it reports is the number of frames still in flight. The invariant holds at the end, so no frame is lost or owned twice.
\<close>

theorem main_run:
  assumes "kernel_contract main_geometry kr kt K" "fresh_socket main_geometry kr kt xsk w"
    and "stop i" "deadline \<le> clk j"
  shows "\<exists>r cl io rem r' cl' io'. start_worker K cpu realtime xsk w = Some (r, cl, io) \<and>
    run_and_drain tsc K stop clk deadline r cl io = Some (rem, r', cl', io') \<and>
    worker_inv main_geometry kr kt 0 cl' io' \<and> unat rem = in_flight kt io'"
proof -
  from start_worker_ok [OF assms(1,2), of cpu realtime] obtain r cl io where
    s: "start_worker K cpu realtime xsk w = Some (r, cl, io)" "worker_inv main_geometry kr kt 0 cl io"
      "rc_frame_mask r = frame_mask FRAME_SIZE" by blast
  then have "rc_frame_mask r = frame_mask (g_frame_size main_geometry)" by (simp add: main_geometry_def)
  from run_and_drain_ok [where stop = stop and clk = clk, OF assms(1) s(2) this assms(3,4), of tsc] obtain rem r' cl' io' where
    d: "run_and_drain tsc K stop clk deadline r cl io = Some (rem, r', cl', io')"
      "worker_inv main_geometry kr kt 0 cl' io'" "rem = outstanding (cl_tx cl')" by blast
  then have "unat rem = in_flight kt io'" by (auto simp: worker_inv_def intro: tx_invD)
  with s(1) d show ?thesis by blast
qed

theorem main_run_witness:
  "\<exists>r cl io rem r' cl' io'. start_worker loop_kernel 0 False main_xsk main_world = Some (r, cl, io) \<and>
    run_and_drain loop_timing loop_kernel (\<lambda>i. i = 5) (\<lambda>i. int i) 3 r cl io = Some (rem, r', cl', io') \<and>
    worker_inv main_geometry none_held none_held 0 cl' io'"
  using main_run [OF main_contract main_fresh, of "\<lambda>i. i = 5" 5 3 "\<lambda>i. int i" 3 0 False loop_timing] by auto

text \<open>
  C4. In every state the worker of the program reaches from its start-up, by passes, kernel activity
  and service calls in any order, no frame is in two places: the free frames, the fill ring, the
  received, staged and published descriptors and the completions are frames of the UMEM and pairwise
  different.
\<close>

theorem exclusive_ownership:
  assumes "kernel_contract main_geometry kr kt K" "fresh_socket main_geometry kr kt xsk w"
    and "start_worker K cpu realtime xsk w = Some st" "reachable tsc K st (r, cl, io)"
  defines "base \<equiv> map (\<lambda>d. frame_base main_geometry (d_addr d))"
  defines "fs \<equiv> free_frames (io_alloc io) @ fill_queue io @ base (rx_queue io) @ base (cl_staged cl io) @
    base (tx_queue io) @ map (frame_base main_geometry) (cq_queue io)"
  shows "distinct fs \<and> set fs \<subseteq> set (all_frames main_geometry)"
proof -
  have "worker_inv main_geometry kr kt 0 cl io"
    using reachable_inv [OF assms(1) start_worker_inv [OF assms(1-3)] assms(4)] by (simp add: wstate_inv_def)
  note inv = worker_inv_io [OF this]
  have "mset fs \<subseteq># owned main_geometry kr kt 0 (cl_staged cl io) io"
    by (simp add: fs_def base_def owned_def desc_frames_def addr_frames_def ac_simps)
  then have sub: "mset fs \<subseteq># mset (all_frames main_geometry)" using inv by (simp only: io_inv_def)
  then have "distinct fs"
    by (rule distinct_mset_subset) (rule distinct_all_frames [OF io_inv_geometry [OF inv]])
  moreover have "set fs \<subseteq> set (all_frames main_geometry)" using set_mset_mono [OF sub] by simp
  ultimately show ?thesis ..
qed

theorem exclusive_ownership_witness:
  "\<exists>r cl io. start_worker loop_kernel 0 False main_xsk main_world = Some (r, cl, io) \<and>
    distinct (free_frames (io_alloc (kernel_progress loop_kernel io)) @ fill_queue (kernel_progress loop_kernel io))"
proof -
  obtain r cl io where s: "start_worker loop_kernel 0 False main_xsk main_world = Some (r, cl, io)"
    using start_worker_ok [OF main_contract main_fresh, of 0 False] by blast
  have "reachable loop_timing loop_kernel (r, cl, io) (r, cl, kernel_progress loop_kernel io)"
    using reachable.init worker_step.kernel by (rule reachable.step)
  from exclusive_ownership [OF main_contract main_fresh s this] s show ?thesis by auto
qed

text \<open>
  C5. The counters add up after start-up, any number of passes and the drain: every callback was
  staged, unsupported or rejected, every staged frame was submitted, and every submitted frame was
  reclaimed or is one of the frames the drain reports as abandoned.
\<close>

theorem main_run_accounting:
  assumes "kernel_contract main_geometry kr kt K" "fresh_socket main_geometry kr kt xsk w"
    and "stop i" "deadline \<le> clk j" "start_worker K cpu realtime xsk w = Some (r, cl, io)"
    and "run_and_drain tsc K stop clk deadline r cl io = Some (rem, r', cl', io')"
  shows "b_callbacks (cl_bench cl') =
      b_staged (cl_bench cl') + b_unsupported (cl_bench cl') + frames_rejected (cl_tx cl') \<and>
    b_staged (cl_bench cl') = frames_submitted (cl_tx cl') \<and>
    frames_submitted (cl_tx cl') = frames_reclaimed (cl_tx cl') + ucast rem"
proof -
  from start_worker_ok [OF assms(1,2), of cpu realtime] assms(5) have
    s: "worker_inv main_geometry kr kt 0 cl io" "rc_frame_mask r = frame_mask (g_frame_size main_geometry)"
    by (auto simp: main_geometry_def)
  from run_and_drain_ok [where stop = stop and clk = clk, OF assms(1) s assms(3,4), of tsc] assms(6)
  have "worker_inv main_geometry kr kt 0 cl' io'" "rem = outstanding (cl_tx cl')" "tx_used (cl_tx cl') = 0" by auto
  then show ?thesis by (simp add: worker_inv_def counters_ok_def tx_inv_def)
qed

theorem main_run_accounting_witness:
  "\<exists>r cl io rem r' cl' io'. start_worker loop_kernel 0 False main_xsk main_world = Some (r, cl, io) \<and>
    run_and_drain loop_timing loop_kernel (\<lambda>i. i = 5) (\<lambda>i. int i) 3 r cl io = Some (rem, r', cl', io') \<and>
    frames_submitted (cl_tx cl') = frames_reclaimed (cl_tx cl') + ucast rem"
proof -
  let ?stop = "\<lambda>i. i = (5 :: nat)" and ?clk = "\<lambda>i. int i"
  obtain r cl io where s: "start_worker loop_kernel 0 False main_xsk main_world = Some (r, cl, io)"
      "worker_inv main_geometry none_held none_held 0 cl io" "rc_frame_mask r = frame_mask FRAME_SIZE"
    using start_worker_ok [OF main_contract main_fresh, of 0 False] by blast
  have "rc_frame_mask r = frame_mask (g_frame_size main_geometry)" using s(3) by (simp add: main_geometry_def)
  from run_and_drain_ok [where stop = ?stop and clk = ?clk and i = 5 and j = 3 and deadline = 3,
      OF main_contract s(2) this, of loop_timing] obtain rem r' cl' io' where
    d: "run_and_drain loop_timing loop_kernel ?stop ?clk 3 r cl io = Some (rem, r', cl', io')" by auto
  from main_run_accounting [where stop = ?stop and clk = ?clk and i = 5 and j = 3,
      OF main_contract main_fresh _ _ s(1) d] s(1) d show ?thesis by auto
qed

section \<open>The rings\<close>

text \<open>
  C6. A producer's query grants exactly the requested number of slots or all the free ones, although
  it looks at the cached consumer index first; it publishes nothing and keeps the ring invariant.
\<close>

theorem writable_range_exact:
  assumes "prod_inv n r s" "writable_range q r s = (w, r')"
  shows "unat (amount w) = min (unat q) (unat n - length (ring_queue s)) \<and> start w = cached_prod r \<and>
    prod_inv n r' s \<and> unat (amount w) \<le> ring_room r'"
  using writable_range_grant [OF assms] by simp

theorem writable_range_exact_witness:
  "unat (amount (fst (writable_range 9 loop_ring (empty_ring (0 :: u64))))) = 4"
proof -
  obtain w r' where w: "writable_range 9 loop_ring (empty_ring (0 :: u64)) = (w, r')" by (rule prod.exhaust)
  have "prod_inv 4 loop_ring (empty_ring (0 :: u64))" by code_simp
  from writable_range_exact [OF this w] w show ?thesis by (simp add: empty_ring_def)
qed

text \<open>
  C7. A consumer's query shows a prefix of the queue of at most the batch size, and an empty one only
  if there is nothing to read; it consumes nothing.
\<close>

theorem readable_range_prefix:
  assumes "cons_inv n r s" "readable_range b r s = (w, r')"
  shows "unat (amount w) \<le> min (unat b) (length (ring_queue s)) \<and> start w = cached_cons r \<and>
    (amount w = 0 \<longleftrightarrow> b = 0 \<or> ring_queue s = []) \<and> cons_inv n r' s"
  using readable_range_window [OF assms] by simp

theorem readable_range_prefix_witness:
  "amount (fst (readable_range 2 loop_ring (w_rx loop_world))) \<noteq> 0"
proof -
  obtain w r' where w: "readable_range 2 loop_ring (w_rx loop_world) = (w, r')" by (rule prod.exhaust)
  have "cons_inv 4 loop_ring (w_rx loop_world)" "ring_queue (w_rx loop_world) \<noteq> []" by code_simp+
  with readable_range_prefix [OF _ w] w show ?thesis by auto
qed

text \<open>
  C8. First in, first out on the producer's side: a batch that fits the free slots is granted,
  written without a fault and published whole, behind the entries published before; this holds
  across the wrap-around of the 32-bit indices.
\<close>

theorem ring_publish_fifo:
  assumes "prod_inv n r s" "length (ring_queue s) + length vs \<le> unat n"
    and "writable_range (of_nat (length vs)) r s = (w, r0)"
  shows "\<exists>s' r' s''. put_entries (start w) vs r0 s = Some s' \<and>
    publish_written_entries (amount w) r0 s' = (r', s'') \<and> prod_inv n r' s'' \<and>
    ring_queue s'' = ring_queue s @ vs"
  using batch_published(2) [OF assms] .

theorem ring_publish_fifo_witness:
  "\<exists>w r0 s' r' s''. writable_range 2 loop_ring (empty_ring (0 :: u64)) = (w, r0) \<and>
    put_entries (start w) [64, 128 :: u64] r0 (empty_ring 0) = Some s' \<and>
    publish_written_entries (amount w) r0 s' = (r', s'') \<and> ring_queue s'' = [64, 128]"
proof -
  obtain w r0 where w: "writable_range 2 loop_ring (empty_ring (0 :: u64)) = (w, r0)" by (rule prod.exhaust)
  have "prod_inv 4 loop_ring (empty_ring (0 :: u64))" "ring_queue (empty_ring (0 :: u64)) = []" by code_simp+
  with ring_publish_fifo [of 4 loop_ring "empty_ring 0" "[64, 128 :: u64]" w r0] w show ?thesis
    by (auto simp: empty_ring_def)
qed

text \<open>
  C9. First in, first out on the consumer's side: query, read every entry of the window, release
  them. What was read, followed by what is left, is the old queue.
\<close>

theorem ring_consume_fifo:
  assumes "cons_inv n r s" "readable_range b r s = (w, r0)"
    and "release_consumed_entries (amount w) r0 s = (r', s')"
  shows "\<exists>ds. map (\<lambda>i. desc_at (start w + of_nat i) r0 s) [0..<unat (amount w)] = map Some ds \<and>
    ring_queue s = ds @ ring_queue s' \<and> cons_inv n r' s'"
  using window_consumed [OF assms] .

theorem ring_consume_fifo_witness:
  "\<exists>w r0 r' s' ds. readable_range 2 loop_ring (w_rx loop_world) = (w, r0) \<and>
    release_consumed_entries (amount w) r0 (w_rx loop_world) = (r', s') \<and>
    ring_queue (w_rx loop_world) = ds @ ring_queue s'"
proof -
  obtain w r0 where w: "readable_range 2 loop_ring (w_rx loop_world) = (w, r0)" by (rule prod.exhaust)
  obtain r' s' where r: "release_consumed_entries (amount w) r0 (w_rx loop_world) = (r', s')" by (rule prod.exhaust)
  have "cons_inv 4 loop_ring (w_rx loop_world)" by code_simp
  from ring_consume_fifo [OF this w r] w r show ?thesis by blast
qed

section \<open>The allocator\<close>

text \<open>
  C10. A new allocator holds every frame of the area once: the offsets are the multiples of the frame
  size below the area's size, computed without wrap-around.
\<close>

theorem FrameAllocator_new_frames:
  assumes "unat num_frames \<le> cap" "cap < 2 ^ 32" "frame_size \<noteq> 0"
  shows "\<exists>a. FrameAllocator_new cap num_frames frame_size = Some a \<and> alloc_inv cap a \<and>
    map unat (free_frames a) = map (\<lambda>i. i * unat frame_size) [0..<unat num_frames] \<and>
    distinct (free_frames a) \<and> free_count a = num_frames"
proof -
  from FrameAllocator_new_ok [OF assms(1,2), of frame_size] obtain a where
    a: "FrameAllocator_new cap num_frames frame_size = Some a" "alloc_inv cap a"
      "free_frames a = umem_frames num_frames frame_size" by blast
  have "map unat (free_frames a) = map (\<lambda>i. i * unat frame_size) [0..<unat num_frames]"
    using a(3) by (intro nth_equalityI) (simp_all add: umem_frames_nth)
  moreover have "free_count a = num_frames"
    using a(1) assms(1) by (auto simp: FrameAllocator_new_def free_count_def)
  ultimately show ?thesis using a distinct_umem_frames [OF assms(3)] by auto
qed

theorem FrameAllocator_new_frames_witness:
  "\<exists>a. FrameAllocator_new 4 4 64 = Some a \<and> map unat (free_frames a) = [0, 64, 128, 192]"
proof -
  have "[0..<4] = [0, 1, 2, 3 :: nat]" by code_simp
  with FrameAllocator_new_frames [of 4 4 64] show ?thesis by auto
qed

text \<open>
  C11. The allocator is a stack: \<open>free\<close> fails only when it is full, and the frame given back last
  is the next one handed out, which restores the stack; \<open>alloc\<close> never fails and returns nothing only
  when it is empty.
\<close>

theorem allocator_stack:
  assumes "alloc_inv cap a"
  shows "(free f a = None \<longleftrightarrow> length (free_frames a) = cap) \<and>
    (\<forall>a'. free f a = Some a' \<longrightarrow> alloc_inv cap a' \<and> free_frames a' = free_frames a @ [f] \<and>
       (\<exists>a''. alloc a' = Some (Some f, a'') \<and> free_frames a'' = free_frames a)) \<and>
    (\<exists>res a'. alloc a = Some (res, a') \<and> alloc_inv cap a' \<and> (res = None \<longleftrightarrow> free_frames a = []))"
proof (intro conjI)
  show "free f a = None \<longleftrightarrow> length (free_frames a) = cap"
    using assms pool.pool_bound [OF assms] by (auto simp: free_def alloc_inv_def free_frames_def)
  show "\<forall>a'. free f a = Some a' \<longrightarrow> alloc_inv cap a' \<and> free_frames a' = free_frames a @ [f] \<and>
      (\<exists>a''. alloc a' = Some (Some f, a'') \<and> free_frames a'' = free_frames a)"
  proof (intro allI impI)
    fix a' assume "free f a = Some a'"
    moreover from this have "length (free_frames a) < cap"
      using assms by (auto simp: free_def alloc_inv_def free_frames_def split: if_splits)
    ultimately have inv: "alloc_inv cap a'" "free_frames a' = free_frames a @ [f]"
      using pool.give_top [OF assms, of f] by auto
    with pool.take_top [OF this] show "alloc_inv cap a' \<and> free_frames a' = free_frames a @ [f] \<and>
      (\<exists>a''. alloc a' = Some (Some f, a'') \<and> free_frames a'' = free_frames a)" by blast
  qed
  show "\<exists>res a'. alloc a = Some (res, a') \<and> alloc_inv cap a' \<and> (res = None \<longleftrightarrow> free_frames a = [])"
    using pool.take_cases [OF assms] assms by auto
qed

theorem allocator_stack_witness:
  "\<exists>a'. free 0 (io_alloc loop_io) = Some a' \<and> free_frames a' = [64, 128, 192, 0]"
proof -
  have "alloc_inv 4 (io_alloc loop_io)" by (simp add: alloc_inv_def loop_io_def)
  moreover have "free_frames (io_alloc loop_io) = [64, 128, 192]" by code_simp
  moreover from calculation allocator_stack [of 4 "io_alloc loop_io" 0] obtain a' where
    "free 0 (io_alloc loop_io) = Some a'" by auto
  ultimately show ?thesis using allocator_stack [of 4 "io_alloc loop_io" 0] by auto
qed

section \<open>The socket and the transmitter\<close>

text \<open>
  C12. Refilling moves frames from the top of the allocator's stack to the end of the fill ring, in
  that order, loses none, and stops only when the fill ring is full or the allocator is empty;
  \<open>io1\<close> is the state the kernel has reached when the free slots are counted.
\<close>

theorem refill_fill_moves:
  assumes "kernel_contract g kr kt K" "io_inv g kr kt skip staged io"
  shows "\<exists>io1 xs io'. refill_fill K io = Some (of_nat (length xs), io') \<and>
    io_quiet g kr kt io io1 \<and> io_inv g kr kt skip staged io' \<and>
    free_frames (io_alloc io) = free_frames (io_alloc io') @ rev xs \<and>
    fill_queue io' = fill_queue io1 @ xs \<and>
    (length (fill_queue io') = unat (g_ring g) \<or> free_frames (io_alloc io') = [])"
  using refill_fill_ok [OF assms] by blast

theorem refill_fill_moves_witness:
  "\<exists>xs io'. refill_fill loop_kernel loop_io = Some (of_nat (length xs), io') \<and>
    [64, 128, 192] = free_frames (io_alloc io') @ rev xs \<and>
    io_inv loop_geometry none_held none_held 0 [] io'"
proof -
  have "free_frames (io_alloc loop_io) = [64, 128, 192]" by code_simp
  with refill_fill_moves [OF loop_contract loop_io_inv] show ?thesis by auto
qed

text \<open>
  C13. Staging the next received frame never faults. On success the frame has moved into the staged
  batch, behind the ones staged before; on failure it is still the caller's, one rejection is
  counted, and the reason is a length no frame can have or a TX ring whose slots are all taken by
  published and staged descriptors. No byte the kernel may not write changes.
\<close>

theorem send_in_place_transfers:
  assumes "kernel_contract g kr kt K" "tx_inv g kr kt skip tr io" "skip < length (rx_queue io)"
  defines "d \<equiv> rx_queue io ! skip"
  shows "\<exists>b tr' io'. send_in_place K (d_addr d) (d_len d) tr io = Some (b, tr', io') \<and>
    umem_kept g kr io io' \<and> io_alloc io' = io_alloc io \<and>
    (if b then tx_inv g kr kt (Suc skip) tr' io' \<and> frames_rejected tr' = frames_rejected tr \<and>
        tx_pending io' (unat (tx_used tr')) = tx_pending io (unat (tx_used tr)) @ [tx_of d]
     else tx_inv g kr kt skip tr' io' \<and> frames_rejected tr' = frames_rejected tr + 1 \<and>
        tx_used tr' = tx_used tr \<and>
        tx_pending io' (unat (tx_used tr')) = tx_pending io (unat (tx_used tr)) \<and>
        (d_len d = 0 \<or> d_len d > g_frame_size g \<or>
         length (tx_queue io') + unat (tx_used tr') = unat (g_ring g)))"
  using send_in_place_ok [OF assms(1-3) refl refl] unfolding d_def tx_of_def send_outcome_def by blast

theorem send_in_place_transfers_witness:
  "\<exists>tr' io'. send_in_place loop_kernel 0 42 (cl_tx loop_client) loop_io = Some (True, tr', io') \<and>
    tx_inv loop_geometry none_held none_held 1 tr' io' \<and>
    tx_pending io' (unat (tx_used tr')) = [\<lparr>d_addr = 0, d_len = 42, d_options = 0\<rparr>]"
proof -
  have inv: "tx_inv loop_geometry none_held none_held 0 (cl_tx loop_client) loop_io"
    using loop_worker_inv by (simp add: worker_inv_def)
  have used: "tx_pending loop_io (unat (tx_used (cl_tx loop_client))) = []"
    by (simp add: loop_client_def tx_pending_def ring_pending_def)
  from send_in_place_transfers [OF loop_contract inv] obtain b tr' io' where
    s: "send_in_place loop_kernel 0 42 (cl_tx loop_client) loop_io = Some (b, tr', io')"
      "if b then tx_inv loop_geometry none_held none_held 1 tr' io' \<and>
          tx_pending io' (unat (tx_used tr')) = [\<lparr>d_addr = 0, d_len = 42, d_options = 0\<rparr>] else True"
    by (auto simp: loop_queues tx_of_def used split: if_splits)
  have "map_option fst (send_in_place loop_kernel 0 42 (cl_tx loop_client) loop_io) = Some True" by code_simp
  with s show ?thesis by auto
qed

text \<open>
  C14. Reclaiming returns the frames of the oldest completions, at most the budget, to the allocator
  and releases exactly those completions; the assertion \<open>n <= outstanding_\<close> cannot fail, and nothing
  is reclaimed only if there is nothing to reclaim.
\<close>

theorem reclaim_returns_frames:
  assumes "kernel_contract g kr kt K" "tx_inv g kr kt skip tr io"
  shows "\<exists>io1 n tr' io'. reclaim_completed_frames K budget tr io = Some (n, tr', io') \<and>
    io_quiet g kr kt io io1 \<and> n \<le> budget \<and> (n = 0 \<longleftrightarrow> budget = 0 \<or> cq_queue io1 = []) \<and>
    free_frames (io_alloc io') = free_frames (io_alloc io1) @ map (frame_base g) (take (unat n) (cq_queue io1)) \<and>
    cq_queue io' = drop (unat n) (cq_queue io1) \<and> outstanding tr' = outstanding tr - n \<and>
    tx_inv g kr kt skip tr' io'"
  using reclaim_ok [OF assms, of budget] by (fastforce simp: reclaimed_def)

theorem reclaim_returns_frames_witness:
  "\<exists>n tr' io'. reclaim_completed_frames loop_kernel 4 (cl_tx loop_client) loop_io = Some (n, tr', io') \<and>
    tx_inv loop_geometry none_held none_held 0 tr' io'"
proof -
  have "tx_inv loop_geometry none_held none_held 0 (cl_tx loop_client) loop_io"
    using loop_worker_inv by (simp add: worker_inv_def)
  from reclaim_returns_frames [OF loop_contract this, of 4] show ?thesis by blast
qed

text \<open>
  C15. A service pass never faults, hands the whole staged batch to the kernel (the submitted count
  grows by its size), leaves the window closed, and the frames outstanding afterwards are at most
  those outstanding before and the batch.
\<close>

theorem service_pass:
  assumes "kernel_contract g kr kt K" "tx_inv g kr kt skip tr io"
  shows "\<exists>tr' io'. publish_and_service_tx K tr io = Some (tr', io') \<and> tx_inv g kr kt skip tr' io' \<and>
    tx_used tr' = 0 \<and> \<not> reserved tr' \<and> frames_submitted tr' = frames_submitted tr + ucast (tx_used tr) \<and>
    unat (outstanding tr') \<le> unat (outstanding tr) + unat (tx_used tr)"
  using publish_and_service_tx_ok [OF assms] by blast

theorem service_pass_witness:
  "\<exists>tr' io'. publish_and_service_tx loop_kernel (cl_tx loop_client) loop_io = Some (tr', io') \<and>
    tx_inv loop_geometry none_held none_held 0 tr' io'"
proof -
  have "tx_inv loop_geometry none_held none_held 0 (cl_tx loop_client) loop_io"
    using loop_worker_inv by (simp add: worker_inv_def)
  from service_pass [OF loop_contract this] show ?thesis by blast
qed

text \<open>
  C16. Draining returns when the clock reaches the deadline: it makes one service pass and then
  another one after each clock reading before the deadline that finds frames outstanding, no more
  and no fewer; it reports the frames still outstanding.
\<close>

theorem drain_until_returns:
  assumes "kernel_contract g kr kt K" "tx_inv g kr kt skip tr io" "deadline \<le> clk j"
  shows "\<exists>k tr' io'. drain_until K clk deadline tr io = Some (outstanding tr', tr', io') \<and> k \<le> j \<and>
    service_passes K (Suc k) tr io = Some (tr', io') \<and>
    (outstanding tr' = 0 \<or> deadline \<le> clk k) \<and>
    (\<forall>m < k. clk m < deadline \<and>
      (\<exists>t w. service_passes K (Suc m) tr io = Some (t, w) \<and> outstanding t \<noteq> 0)) \<and>
    tx_inv g kr kt skip tr' io'"
proof -
  from drain_loop_returns [where clk = clk and j = j and i = 0, OF assms(1,3) _ assms(2)] obtain k tr' io' where
    "drain_loop K clk deadline 0 tr io = Some (outstanding tr', tr', io')"
    "drained K clk deadline 0 k tr io tr' io'" "k \<le> j" "tx_inv g kr kt skip tr' io'" by auto
  then show ?thesis
    by (intro exI [of _ k] exI [of _ tr'] exI [of _ io']) (simp add: drain_until_def drained_def)
qed

theorem drain_until_returns_witness:
  "\<exists>tr' io'. drain_until loop_kernel (\<lambda>i. int i) 3 (cl_tx loop_client) loop_io = Some (outstanding tr', tr', io')"
proof -
  have "tx_inv loop_geometry none_held none_held 0 (cl_tx loop_client) loop_io"
    using loop_worker_inv by (simp add: worker_inv_def)
  from drain_until_returns [where clk = "\<lambda>i. int i" and j = 3 and deadline = 3, OF loop_contract this]
  show ?thesis by auto
qed

section \<open>Reflection\<close>

text \<open>
  C17. \<open>reflect_swap\<close> reads and writes only inside the packet, accepts exactly the supported frames
  (untagged IPv4 of at most the MTU, a 20-byte header, unfragmented UDP, consistent lengths), turns
  them into their reflection and leaves all other frames untouched.
\<close>

theorem reflect_swap_correct:
  "reflect_swap f = Some (supported f, if supported f then reflected f else f)"
  by (rule reflect_swap_spec)

text \<open>
  C18. Reflection is an involution on supported frames: reflecting the answer gives back the request,
  and the answer is again a supported frame of the same length.
\<close>

theorem reflect_swap_involution:
  assumes "reflect_swap f = Some (True, f')"
  shows "reflect_swap f' = Some (True, f) \<and> length f' = length f"
proof -
  from assms have ok: "supported f" "f' = reflected f" by (auto simp: reflect_swap_spec split: if_splits)
  then have "42 \<le> length f" by (simp add: supported_def)
  with ok show ?thesis by (simp add: reflect_swap_spec supported_reflected reflected_involution)
qed

theorem reflect_swap_involution_witness:
  "reflect_swap (reflected datagram) = Some (True, datagram)"
proof -
  have "supported datagram" by code_simp
  then have "reflect_swap datagram = Some (True, reflected datagram)" by (simp add: reflect_swap_spec)
  from reflect_swap_involution [OF this] show ?thesis by simp
qed

text \<open>
  C19. The swap needs no checksum update: it permutes the 16-bit words that the IPv4 header checksum
  and the UDP checksum with its pseudo-header sum up, so a frame whose checksums were correct is
  answered with correct checksums.
\<close>

theorem reflect_swap_checksums:
  assumes "reflect_swap f = Some (True, f')"
  shows "ip_header_sum f' = ip_header_sum f \<and> udp_sum f' = udp_sum f \<and>
    (checksum_ok (ip_header_sum f) \<longrightarrow> checksum_ok (ip_header_sum f'))"
proof -
  from assms have ok: "supported f" "f' = reflected f" by (auto simp: reflect_swap_spec split: if_splits)
  then have "42 \<le> length f" by (simp add: supported_def)
  with ok show ?thesis by (simp add: ip_header_sum_reflected udp_sum_reflected)
qed

theorem reflect_swap_checksums_witness:
  "checksum_ok (ip_header_sum (reflected datagram))"
proof -
  have sup: "supported datagram" by code_simp
  have ten: "[0..<10] = [0, 1, 2, 3, 4, 5, 6, 7, 8, 9 :: nat]" by code_simp
  have "ip_header_sum datagram = 65535"
    by (simp add: ip_header_sum_def ten word_at_def be16_def datagram_def)
  then have "checksum_ok (ip_header_sum datagram)" by (simp add: checksum_ok_def)
  moreover from sup have "reflect_swap datagram = Some (True, reflected datagram)" by (simp add: reflect_swap_spec)
  ultimately show ?thesis using reflect_swap_checksums by blast
qed

section \<open>Samples\<close>

text \<open>
  C20. Recording never writes outside the buffer: below the capacity the sample is appended, at the
  capacity it is counted as dropped and nothing is overwritten.
\<close>

theorem record_sample_bounds:
  assumes "samples_inv s"
  shows "\<exists>s'. record_sample t s = Some s' \<and> samples_inv s' \<and> sm_cap s' = sm_cap s \<and>
    (if length (recorded s) < sm_cap s
     then recorded s' = recorded s @ [t] \<and> sm_dropped s' = sm_dropped s
     else recorded s' = recorded s \<and> sm_dropped s' = sm_dropped s + 1)"
  using record_sample_ok [OF assms] .

theorem record_sample_bounds_witness:
  "\<exists>s'. record_sample 7 (Samples_new 1) = Some s' \<and> recorded s' = [7]"
proof -
  have "recorded (Samples_new 1) = []" "sm_cap (Samples_new 1) = 1"
    by (simp_all add: Samples_new_def recorded_def)
  with record_sample_bounds [OF Samples_new_inv [of 1], of 7] show ?thesis by auto
qed

text \<open>
  C21. The report is computed from the sorted samples: each percentile is the sample at the index the
  floating point product gives, capped at the last one, so the buffer is never read out of range, and
  the maximum is the largest sample. The samples are then in ascending order, as the export says.
\<close>

theorem samples_report_sorted:
  assumes "samples_inv s" "recorded s \<noteq> []"
  defines "xs \<equiv> sort (recorded s)"
  shows "\<exists>s'. samples_report fp_index ns s =
      Some (Report (length xs) (sm_dropped s)
        (ns (xs ! min (length xs - 1) (fp_index (50 / 100) (length xs))))
        (ns (xs ! min (length xs - 1) (fp_index (90 / 100) (length xs))))
        (ns (xs ! min (length xs - 1) (fp_index (99 / 100) (length xs))))
        (ns (xs ! min (length xs - 1) (fp_index (999 / 1000) (length xs))))
        (ns (Max (set (recorded s)))), s') \<and>
    samples_inv s' \<and> recorded s' = xs \<and> sorted (recorded s')"
  using samples_report_ok [OF assms(1,2), of fp_index ns] unfolding xs_def by auto

theorem samples_report_sorted_witness:
  "\<exists>rep s'. samples_report (\<lambda>p n. n div 2) (\<lambda>t. t)
      \<lparr>sm_buf = [9, 4, 6], sm_cap = 3, sm_n = 3, sm_dropped = 0, sm_enabled = True\<rparr> = Some (rep, s') \<and>
    sorted (recorded s')"
  using samples_report_sorted [of "\<lparr>sm_buf = [9, 4, 6], sm_cap = 3, sm_n = 3, sm_dropped = 0, sm_enabled = True\<rparr>"
      "\<lambda>p n. n div 2" "\<lambda>t. t"]
  by (auto simp: samples_inv_def recorded_def)

text \<open>
  C22. A successful export is complete: the file holds the header and one row per sample, in order.
\<close>

theorem dump_csv_success:
  assumes "dump_csv F ns s = Inr ls"
  shows "ls = Header # map (\<lambda>t. Row (ns t)) (recorded s)"
  using dump_csv_complete [OF assms] .

theorem dump_csv_success_witness:
  "\<exists>ls. dump_csv \<lparr>f_open = None, f_print = (\<lambda>_. (1, 0)), f_close = (\<lambda>_. (0, 0))\<rparr> (\<lambda>t. t)
      \<lparr>sm_buf = [4, 9], sm_cap = 2, sm_n = 2, sm_dropped = 0, sm_enabled = True\<rparr> = Inr ls \<and>
    ls = [Header, Row 4, Row 9]"
proof -
  let ?s = "\<lparr>sm_buf = [4, 9], sm_cap = 2, sm_n = 2, sm_dropped = 0, sm_enabled = True\<rparr>"
  let ?F = "\<lparr>f_open = None, f_print = (\<lambda>_. (1, 0)), f_close = (\<lambda>_. (0, 0))\<rparr>"
  have "dump_csv ?F (\<lambda>t. t) ?s = Inr [Header, Row 4, Row 9]"
    by (simp add: dump_csv_def print_error_def numeral_2_eq_2)
  from this dump_csv_success [OF this] show ?thesis by blast
qed

section \<open>Thread preparation\<close>

text \<open>
  C23. Thread preparation makes its calls in order and stops at the first one that fails: pinning, with
  a mask that has exactly the bit of the configured CPU, then the real-time class, each only if it is
  asked for. Success means that every call was made and succeeded; a failure reports the error of the
  last call made, and no call follows it; a CPU beyond the mask is refused before any call.
\<close>

theorem prepare_thread_order:
  assumes "prepare_thread os r s = (res, s')"
  shows "\<exists>t. sys_trace s' = sys_trace s @ t \<and> map fst t = take (length t) (planned_calls r) \<and>
    (\<forall>cpuset i. (Pthread_setaffinity cpuset) \<in> fst ` set t \<longrightarrow> bit cpuset i = (int i = cpu_affinity (rc_cfg r))) \<and>
    (case res of
       Inr _ \<Rightarrow> length t = length (planned_calls r) \<and> (\<forall>x \<in> set t. snd x = 0) \<and> cpu_affinity (rc_cfg r) < CPU_SETSIZE
     | Inl e \<Rightarrow> if CPU_SETSIZE \<le> cpu_affinity (rc_cfg r) then t = [] \<and> e = EINVAL
               else t \<noteq> [] \<and> (\<forall>x \<in> set (butlast t). snd x = 0) \<and> snd (last t) \<noteq> 0 \<and>
                 e = thread_error (fst (last t)) (snd (last t)) (sys_errno s'))"
proof -
  from prepare_thread_calls [OF assms] obtain t where t: "sys_trace s' = sys_trace s @ t"
    "map fst t = take (length t) (planned_calls r)"
    "case res of
       Inr _ \<Rightarrow> length t = length (planned_calls r) \<and> (\<forall>x \<in> set t. snd x = 0) \<and> cpu_affinity (rc_cfg r) < CPU_SETSIZE
     | Inl e \<Rightarrow> if CPU_SETSIZE \<le> cpu_affinity (rc_cfg r) then t = [] \<and> e = EINVAL
               else t \<noteq> [] \<and> (\<forall>x \<in> set (butlast t). snd x = 0) \<and> snd (last t) \<noteq> 0 \<and>
                 e = thread_error (fst (last t)) (snd (last t)) (sys_errno s')" by blast
  have "bit cpuset i = (int i = cpu_affinity (rc_cfg r))" if m: "Pthread_setaffinity cpuset \<in> fst ` set t" for cpuset i
  proof -
    have "t \<noteq> []" using m by auto
    with t(3) have "cpu_affinity (rc_cfg r) < CPU_SETSIZE" by (cases res) (auto split: if_splits)
    moreover from m t(2) have "Pthread_setaffinity cpuset \<in> set (planned_calls r)" by (metis in_set_takeD list.set_map)
    ultimately show ?thesis by (rule affinity_mask)
  qed
  with t show ?thesis by blast
qed

theorem prepare_thread_order_witness:
  "\<exists>s' t. prepare_thread (\<lambda>_ c. (case c of Pthread_setaffinity m \<Rightarrow> 22 | _ \<Rightarrow> 0, 0))
     (loop_receiver\<lparr>rc_cfg := \<lparr>cpu_affinity = 3, realtime_sched = True, batch_size = 2, fill_refill_threshold = 0\<rparr>\<rparr>) demo_sys =
     (Inl 22, s') \<and> sys_trace s' = t \<and> length t = 1"
proof -
  let ?os = "\<lambda>_ c. (case c of Pthread_setaffinity m \<Rightarrow> 22 | _ \<Rightarrow> 0, 0)"
    and ?r = "loop_receiver\<lparr>rc_cfg := \<lparr>cpu_affinity = 3, realtime_sched = True, batch_size = 2, fill_refill_threshold = 0\<rparr>\<rparr>"
  obtain s' where p: "prepare_thread ?os ?r demo_sys = (Inl 22, s')"
    by (simp add: prepare_thread_def pin_to_cpu_def CPU_SETSIZE_def call_def)
  from prepare_thread_order [OF p] obtain t where t: "sys_trace s' = sys_trace demo_sys @ t"
    "map fst t = take (length t) (planned_calls ?r)" "t \<noteq> []" "\<forall>x \<in> set (butlast t). snd x = 0" by (auto simp: CPU_SETSIZE_def)
  moreover have "sys_trace s' = [(Pthread_setaffinity 8, 22)]"
    using p by (auto simp: prepare_thread_def pin_to_cpu_def CPU_SETSIZE_def call_def demo_sys_def)
  ultimately show ?thesis using p by (auto simp: demo_sys_def)
qed

section \<open>The program\<close>

text \<open>
  C24. The program ends: with a kernel that keeps the AF_XDP protocol and zeroed rings, once a signal
  has arrived, \<open>run_receiver\<close> returns or throws on every path of start-up, run and shutdown, whatever
  the system calls answer and whichever line of output cannot be written; no step faults.
\<close>

theorem run_receiver_total:
  assumes "machine_ok kr kt M"
  shows "\<exists>res s'. run_receiver M args s = Some (res, s')"
  using run_receiver_returns [OF assms, of args] unfolding returns_def by blast

theorem run_receiver_total_witness:
  "\<exists>res s'. run_receiver demo_machine demo_args demo_sys = Some (res, s')"
  using run_receiver_total [OF demo_machine_ok] .

text \<open>
  C25. The program gives back what it took: on every way out of \<open>run_receiver\<close>, early returns and
  exceptions included, the mappings, descriptors, BPF objects and the thread acquired on the way have
  been given back, and the XDP program is detached. There are two exceptions: an attachment that the
  run tried to remove by a call that failed, and then the exit code is 1 or an exception is on its
  way; and the memory area, when the last call is a log line that cannot be written.
\<close>

theorem run_receiver_no_leak:
  assumes "mmap_nonnull (ma_os M)" "run_receiver M args s = Some (res, s')"
  shows "\<exists>R t. sys_trace s' = sys_trace s @ t \<and> holds_after s R s' \<and> (R = {#} \<or>
    (\<exists>i fl r. R = {#Attached i fl#} \<and> (Bpf_xdp_detach i fl, r) \<in> set t \<and> r \<noteq> 0 \<and>
       (res = Inl (Return 1) \<or> (\<exists>e. res = Inl (Unwind e)))) \<or>
    (\<exists>b n e msg r. R = {#Mapping b n#} \<and> last t = (Println Stderr msg, r) \<and> r < 0 \<and> res = Inl (Unwind e)))"
proof -
  from run_receiver_holds [OF assms] obtain R where R: "held s R False s'" "R \<noteq> {#} \<longrightarrow>
      (\<exists>l. R = left_over l \<and> stuck s s' l \<and> (res = Inl (Return 1) \<or> (\<exists>e. res = Inl (Unwind e)))) \<or>
      (\<exists>b n e t msg r. R = {#Mapping b n#} \<and> res = Inl (Unwind e) \<and> sys_trace s' = t @ [(Println Stderr msg, r)] \<and> r < 0)"
    by blast
  then obtain t where t: "sys_trace s' = sys_trace s @ t" by (auto simp: held_def)
  have att: "\<exists>i fl r. R = {#Attached i fl#} \<and> (Bpf_xdp_detach i fl, r) \<in> set t \<and> r \<noteq> 0"
    if "R = left_over l" "R \<noteq> {#}" "stuck s s' l" for l
    using that t by (auto simp: left_over_def stuck_def split: if_splits)
  have "t \<noteq> []" if "R \<noteq> {#}" using held_holds [OF R(1)] t that by (auto simp: holds_after_def acquired_def released_def)
  then have "last t = c" if "sys_trace s' = u @ [c]" "R \<noteq> {#}" for u c
    using that t by (metis last_appendR last_snoc)
  then have area: "\<exists>b n e msg r. R = {#Mapping b n#} \<and> last t = (Println Stderr msg, r) \<and> r < 0 \<and> res = Inl (Unwind e)"
    if "R = {#Mapping b n#}" "res = Inl (Unwind e)" "sys_trace s' = u @ [(Println Stderr msg, r)]" "r < 0" for b n e u msg r
    using that by auto
  show ?thesis
    by (rule exI [of _ R], rule exI [of _ t]) (use R(2) t att area held_holds [OF R(1)] in blast)
qed

theorem run_receiver_no_leak_witness:
  "\<exists>res s'. run_receiver demo_machine demo_args demo_sys = Some (res, s') \<and> holds_after demo_sys {#} s'"
proof -
  obtain sm s' where run: "run_receiver demo_machine demo_args demo_sys = Some (Inr (0, sm), s')" using demo_run by blast
  have "mmap_nonnull (ma_os demo_machine)" using demo_nonnull by simp
  from run_receiver_no_leak [OF this run] run show ?thesis by auto
qed

text \<open>
  C26. The worker never outlives what it uses: on every way out of \<open>run_receiver\<close>, exceptions included,
  no mapping is removed and no descriptor closed between the start of the worker's thread and its
  join, and when \<open>run_receiver\<close> is left, no thread is running.
\<close>

theorem worker_joined_first:
  assumes "mmap_nonnull (ma_os M)" "run_receiver M args s = Some (res, s')"
  shows "\<exists>t. sys_trace s' = sys_trace s @ t \<and> joins_first False t \<and> \<not> worker_after False t"
  using run_receiver_holds [OF assms] by (auto simp: held_def)

theorem worker_joined_first_witness:
  "\<exists>res s'. run_receiver demo_machine demo_args demo_sys = Some (res, s') \<and> joins_first False (sys_trace s')"
proof -
  obtain sm s' where run: "run_receiver demo_machine demo_args demo_sys = Some (Inr (0, sm), s')" using demo_run by blast
  have "mmap_nonnull (ma_os demo_machine)" using demo_nonnull by simp
  from worker_joined_first [OF this run] run show ?thesis by (auto simp: demo_sys_def)
qed

text \<open>
  C27. Exit code 0 after a complete run means that the run was clean: it was stopped by a signal, no
  read of the kernel statistics failed, redirection was stopped, every frame came back from the
  kernel, and the samples and the metadata were written.
\<close>

theorem exit_code_zero:
  assumes "run_receiver M args s = Some (Inr (0, sm), s')"
  shows "rs_stop_reason sm = Stop_signal \<and> rs_first_kernel_stats_errno sm = 0 \<and> rs_stop_redirect_errno sm = 0 \<and>
    rs_tx_abandoned sm = 0 \<and> \<not> isl (rs_kernel_stats sm) \<and> rs_csv_exported sm \<and>
    (\<exists>cal str. dump_run_metadata (ma_metadata M) (ma_meta M) args sm cal 0 = Some (Inr str))"
  using run_receiver_clean [OF assms] by (simp add: clean_summary_def)

theorem exit_code_zero_witness:
  "\<exists>sm s'. run_receiver demo_machine demo_args demo_sys = Some (Inr (0, sm), s') \<and> rs_tx_abandoned sm = 0 \<and> rs_csv_exported sm"
proof -
  obtain sm s' where run: "run_receiver demo_machine demo_args demo_sys = Some (Inr (0, sm), s')" using demo_run by blast
  from exit_code_zero [OF run] run show ?thesis by auto
qed

text \<open>
  C28. The counters in the run summary add up: every callback was staged, unsupported or rejected,
  every staged frame was submitted, and every submitted frame was reclaimed or reported abandoned.
\<close>

theorem run_summary_adds_up:
  assumes "machine_ok kr kt M" "run_receiver M args s = Some (Inr (exit_code, sm), s')"
  shows "rs_callbacks sm = rs_tx_staged sm + rs_unsupported sm + rs_tx_rejected sm \<and>
    rs_tx_staged sm = rs_tx_submitted sm \<and> rs_tx_submitted sm = rs_tx_reclaimed sm + ucast (rs_tx_abandoned sm)"
  using run_receiver_adds_up [OF assms] by (simp add: summary_adds_up_def)

theorem run_summary_adds_up_witness:
  "\<exists>exit_code sm s'. run_receiver demo_machine demo_args demo_sys = Some (Inr (exit_code, sm), s') \<and>
    rs_callbacks sm = rs_tx_staged sm + rs_unsupported sm + rs_tx_rejected sm"
proof -
  obtain sm s' where run: "run_receiver demo_machine demo_args demo_sys = Some (Inr (0, sm), s')" using demo_run by blast
  from run_summary_adds_up [OF demo_machine_ok run] run show ?thesis by auto
qed



section \<open>Exports\<close>

text \<open>
  C30. The metadata file: each of the 57 conversions of the large \<open>fprintf\<close>, and each one in the kernel
  statistics, gets an argument of its type, so writing is never undefined. A written file reads back:
  splitting it into lines at the first equals sign gives the fields in order, no key occurs twice, and
  the numbers under the keys are those of the summary.
\<close>

theorem metadata_reads_back:
  "printf metadata_format (metadata_args T args sm tsc exit_code) \<noteq> None \<and>
   length (metadata_args T args sm tsc exit_code) = 57 \<and>
   list_all (\<lambda>(fmt, args). printf fmt args \<noteq> None) (kernel_stats_calls (rs_kernel_stats sm)) \<and>
   dump_run_metadata F T args sm tsc exit_code \<noteq> None \<and>
   (dump_run_metadata F T args sm tsc exit_code = Some (Inr str) \<and> metadata_lines T args sm tsc \<longrightarrow>
     read_fields str = map (\<lambda>f. (field_key f, the (field_value f)))
       (metadata_fields T args sm tsc exit_code @ kernel_fields (rs_kernel_stats sm)) \<and>
     distinct (map fst (read_fields str)) \<and>
     metadata_number str ''exit_code'' = Some exit_code \<and>
     metadata_number str ''callbacks'' = Some (uint (rs_callbacks sm)) \<and>
     metadata_number str ''tx_frames_submitted'' = Some (uint (rs_tx_submitted sm)) \<and>
     metadata_number str ''tx_frames_reclaimed'' = Some (uint (rs_tx_reclaimed sm)) \<and>
     metadata_number str ''tx_frames_abandoned'' = Some (uint (rs_tx_abandoned sm)))"
proof -
  have "distinct (map fst (read_fields str))"
    if "dump_run_metadata F T args sm tsc exit_code = Some (Inr str)" "metadata_lines T args sm tsc"
    using read_metadata [OF that] metadata_keys_distinct [of T args sm tsc exit_code] by (simp add: comp_def)
  moreover have "length (metadata_args T args sm tsc exit_code) = 57" by (simp add: metadata_args_def)
  ultimately show ?thesis
    using printf_metadata [of T args sm tsc exit_code] dump_run_metadata_returns [of F T args sm tsc exit_code]
      kernel_stats_calls_typed [of "rs_kernel_stats sm"] read_metadata [of F T args sm tsc exit_code str]
      metadata_counters [of F T args sm tsc exit_code str] by auto
qed

theorem metadata_reads_back_witness:
  "\<exists>str. dump_run_metadata (ma_metadata demo_machine) (ma_meta demo_machine) demo_args
      ((RunSummary_new 0)\<lparr>rs_callbacks := 12\<rparr>) \<lparr>ns_per_tick = 1, pair_min_ticks = 20, pair_median_ticks = 22\<rparr> 1 = Some (Inr str) \<and>
    metadata_number str ''callbacks'' = Some 12"
proof -
  let ?tsc = "\<lparr>ns_per_tick = 1, pair_min_ticks = 20, pair_median_ticks = 22\<rparr>" and ?sm = "(RunSummary_new 0)\<lparr>rs_callbacks := 12\<rparr>"
  obtain str where d: "dump_run_metadata (ma_metadata demo_machine) (ma_meta demo_machine) demo_args ?sm ?tsc 1 = Some (Inr str)"
    using demo_metadata by blast
  have "metadata_lines (ma_meta demo_machine) demo_args ?sm ?tsc"
    by (simp add: metadata_lines_def demo_machine_def demo_build_def demo_args_def default_args_def)
  with metadata_reads_back [of "ma_meta demo_machine" demo_args ?sm ?tsc 1 "ma_metadata demo_machine" str] d show ?thesis
    by (intro exI [of _ str]) simp
qed

section \<open>The control thread\<close>

text \<open>
  C31. The control loop ends no later than the first turn that sees a signal. If it is not left by an
  exception, which can only be that of a line that could not be printed, it stops early only after a
  turn with more than \<open>TX_REJECTION_LIMIT\<close> rejected frames since the turn before, and then says so; the
  exit code is 1 exactly if that happened or a read of
  the kernel statistics failed; sampling starts in the first turn after the warm-up, if there is one.
\<close>

theorem control_loop_outcome:
  assumes "fresh_control k" "\<not> ct_stop k" "ce_signal E j"
  shows "\<exists>m k'. control_loop os filled fd E activated_at 0 k = Some (m, k') \<and> m \<le> j \<and> (\<forall>i < m. \<not> ce_signal E i) \<and>
    (ct_thrown k' = None \<longrightarrow>
      (rs_stop_reason (ct_run k') = Stop_signal \<longleftrightarrow> (\<forall>i < m. rejected_window E i \<le> TX_REJECTION_LIMIT)) \<and>
      (\<not> ce_signal E m \<longrightarrow> 0 < m \<and> rejected_window E (m - 1) > TX_REJECTION_LIMIT) \<and>
      ct_exit k' = (if \<exists>i < m. rejected_window E i > TX_REJECTION_LIMIT \<or>
        isl (rs_kernel_stats (ct_run (turns os filled fd E activated_at (Suc i) k))) then 1 else 0) \<and>
      (ct_started k' \<longleftrightarrow> (\<exists>i < m. may_sample E activated_at i)) \<and>
      (ct_started k' \<longrightarrow> rs_sampling_start_after (ct_run k') \<ge> SAMPLE_WARMUP)) \<and>
    (ct_thrown k' \<noteq> None \<longrightarrow> (\<exists>t st msg r. sys_trace (ct_sys k') = t @ [(Println st msg, r)] \<and> r < 0))"
proof -
  let ?T = "\<lambda>m. turns os filled fd E activated_at m k"
  from control_loop_result [OF assms, of os filled fd activated_at] obtain m where
    m: "m \<le> j" "control_loop os filled fd E activated_at 0 k = Some (m, ?T m)" "\<forall>i < m. \<not> ce_signal E i"
      "ct_thrown (?T m) = None \<longrightarrow> (\<forall>i < m. Suc i < m \<longrightarrow> rejected_window E i \<le> TX_REJECTION_LIMIT) \<and>
        (ce_signal E m \<or> 0 < m \<and> rejected_window E (m - 1) > TX_REJECTION_LIMIT)"
      "ct_thrown (?T m) \<noteq> None \<longrightarrow> print_failed (ct_sys (?T m))" by (elim exE conjE) (rule that)
  have out: "ct_thrown (?T m) = None \<longrightarrow>
      (rs_stop_reason (ct_run (?T m)) = Stop_signal \<longleftrightarrow> (\<forall>i < m. rejected_window E i \<le> TX_REJECTION_LIMIT)) \<and>
      (\<not> ce_signal E m \<longrightarrow> 0 < m \<and> rejected_window E (m - 1) > TX_REJECTION_LIMIT) \<and>
      ct_exit (?T m) = (if \<exists>i < m. rejected_window E i > TX_REJECTION_LIMIT \<or>
        isl (rs_kernel_stats (ct_run (?T (Suc i)))) then 1 else 0) \<and>
      (ct_started (?T m) \<longleftrightarrow> (\<exists>i < m. may_sample E activated_at i)) \<and>
      (ct_started (?T m) \<longrightarrow> rs_sampling_start_after (ct_run (?T m)) \<ge> SAMPLE_WARMUP)"
  proof
    assume t: "ct_thrown (?T m) = None"
    have run: "\<not> ct_stop (?T i)" if "i < m" for i
    proof -
      have "\<forall>n < i. rejected_window E n \<le> TX_REJECTION_LIMIT" using m(4) t that by auto
      with turns_stop [OF assms(1) turns_thrown [OF t]] that assms(2) show ?thesis by (auto dest: leD)
    qed
    note sam = turns_sampling [OF assms(1) t]
    have "ct_started (?T m) \<longleftrightarrow> (\<exists>i < m. may_sample E activated_at i)" using sam run by blast
    with sam m(4) t turns_stop_reason [OF assms(1) t] turns_exit [OF assms(1) t]
    show "(rs_stop_reason (ct_run (?T m)) = Stop_signal \<longleftrightarrow> (\<forall>i < m. rejected_window E i \<le> TX_REJECTION_LIMIT)) \<and>
      (\<not> ce_signal E m \<longrightarrow> 0 < m \<and> rejected_window E (m - 1) > TX_REJECTION_LIMIT) \<and>
      ct_exit (?T m) = (if \<exists>i < m. rejected_window E i > TX_REJECTION_LIMIT \<or>
        isl (rs_kernel_stats (ct_run (?T (Suc i)))) then 1 else 0) \<and>
      (ct_started (?T m) \<longleftrightarrow> (\<exists>i < m. may_sample E activated_at i)) \<and>
      (ct_started (?T m) \<longrightarrow> rs_sampling_start_after (ct_run (?T m)) \<ge> SAMPLE_WARMUP)" by blast
  qed
  note failed = m(5) [unfolded print_failed_def]
  show ?thesis by (rule exI [of _ m], rule exI [of _ "?T m"], intro conjI) (rule m(2) m(1) m(3) out failed)+
qed

theorem control_loop_outcome_witness:
  "\<exists>m k'. control_loop demo_os (ma_filled demo_machine) 5
      ((ma_control demo_machine)\<lparr>ce_now := (\<lambda>i. 2000000000), ce_signal := (\<lambda>i. i = 9)\<rparr>) 0 0
      (first_control demo_machine (RunSummary_new 0) demo_sys) = Some (m, k') \<and> m \<le> 9"
proof -
  let ?E = "(ma_control demo_machine)\<lparr>ce_now := (\<lambda>i. 2000000000), ce_signal := (\<lambda>i. i = 9)\<rparr>"
    and ?k = "first_control demo_machine (RunSummary_new 0) demo_sys"
  have "fresh_control ?k" "\<not> ct_stop ?k" "ce_signal ?E 9"
    by (simp_all add: fresh_control_def first_control_def RunSummary_new_def)
  from control_loop_outcome [OF this] show ?thesis by blast
qed

section \<open>Start-up\<close>

text \<open>
  C32. Loading the XDP program: a failure leaves nothing behind, and an exception at most the
  attachment, after a call to remove it has failed. On success the loader owns the BPF object and the
  attachment, and the attachment was the last call but for a log line, made after the socket was put
  into \<open>xsks_map\<close> and the parsed filter address into \<open>target_ip_map\<close>: the program never runs half
  configured.
\<close>

theorem XdpLoader_create_safe:
  assumes "XdpLoader_create os inet_pton path iface q xfd ip s = (res, s')"
  shows "case res of
      Inl (Failed e) \<Rightarrow> holds_after s {#} s'
    | Inl (Thrown e) \<Rightarrow> \<exists>R t. sys_trace s' = sys_trace s @ t \<and> holds_after s R s' \<and>
        (R = {#} \<or> (\<exists>i fl r. R = {#Attached i fl#} \<and> (Bpf_xdp_detach i fl, r) \<in> set t \<and> r \<noteq> 0))
    | Inr l \<Rightarrow> holds_after s (loader_res l) s' \<and> ld_redirecting l \<and> ld_queue_id l = q \<and> ld_ifindex l \<noteq> 0 \<and>
        (\<exists>t p addr msg r. sys_trace s' = sys_trace s @ t @
             [(Bpf_xdp_attach (ld_ifindex l) p (ld_flags l), 0), (Println Stderr msg, r)] \<and>
           (\<forall>i p fl. (Bpf_xdp_attach i p fl, 0) \<notin> set t) \<and> inet_pton ip = (1, addr) \<and>
           (Bpf_map_update (ld_xsk_map_fd l) q xfd, 0) \<in> set t \<and>
           (Bpf_map_update (ld_ip_map_fd l) 0 (uint addr), 0) \<in> set t)"
proof (cases res)
  case (Inl f)
  have "\<exists>R t. sys_trace s' = sys_trace s @ t \<and> holds_after s R s' \<and>
      (R = {#} \<or> (\<exists>i fl r. R = {#Attached i fl#} \<and> (Bpf_xdp_detach i fl, r) \<in> set t \<and> r \<noteq> 0))"
    if "holds_after s (left_over l) s'" "stuck s s' l" for l
    using that by (intro exI [of _ "left_over l"]) (auto simp: stuck_def left_over_def)
  with XdpLoader_create_holds [OF assms holds_after_refl] Inl show ?thesis by (cases f) auto
next
  case (Inr l)
  have "holds_after s (loader_res l) s'" using XdpLoader_create_holds [OF assms holds_after_refl] Inr by simp
  with XdpLoader_create_order [OF assms [unfolded Inr]] show ?thesis unfolding Inr sum.case by blast
qed

theorem XdpLoader_create_safe_witness:
  "\<exists>l s'. XdpLoader_create demo_os (\<lambda>_. (1, 0x0100007F)) ''xdp_prog.bpf.o'' ''eth0'' 0 5 ''127.0.0.1'' demo_sys = (Inr l, s') \<and>
    holds_after demo_sys (loader_res l) s' \<and> ld_redirecting l"
proof -
  obtain l s' where c: "XdpLoader_create demo_os (\<lambda>_. (1, 0x0100007F)) ''xdp_prog.bpf.o'' ''eth0'' 0 5 ''127.0.0.1'' demo_sys =
      (Inr l, s')"
    using demo_loader [of "''xdp_prog.bpf.o''" "''eth0''" 0 5 "''127.0.0.1''" demo_sys] by (auto simp: demo_machine_def)
  from XdpLoader_create_safe [OF c] c show ?thesis by auto
qed

text \<open>
  C33. Creating the socket: a failure at any call, or an exception of any log line, leaves no
  descriptor and no mapping behind. On success the socket owns its descriptor and its four mappings, each ring has the configured size and
  unused indices, and destroying the socket gives everything back.
\<close>

theorem Xsk_create_safe:
  assumes "mmap_nonnull os" "Xsk_create os offsets cfg umem s = (res, s')"
  shows "case res of
      Inl e \<Rightarrow> holds_after s {#} s'
    | Inr x \<Rightarrow> holds_after s (xsk_res x) s' \<and> holds_after s {#} (Xsk_destroy os x s') \<and>
        (\<forall>r \<in> {xsk_rx x, xsk_tx x, xsk_fill x, xsk_completion x}. unused_indices (xc_ring_size cfg) r)"
proof (cases res)
  case (Inl f)
  with assms xsk.not_created show ?thesis by auto
next
  case (Inr x)
  with assms xsk.created xsk.scope_empty Xsk_create_rings show ?thesis by auto
qed

theorem Xsk_create_safe_witness:
  "\<exists>x s'. Xsk_create demo_os (ma_offsets demo_machine) (xsk_config demo_args)
      \<lparr>um_base = 4096, um_size = 16777216, um_cfg = umem_config demo_args, um_uses_hugetlb = False\<rparr> demo_sys = (Inr x, s') \<and>
    holds_after demo_sys {#} (Xsk_destroy demo_os x s')"
proof -
  let ?u = "\<lparr>um_base = 4096, um_size = 16777216, um_cfg = umem_config demo_args, um_uses_hugetlb = False\<rparr>"
  obtain x s' where c: "Xsk_create demo_os (ma_offsets demo_machine) (xsk_config demo_args) ?u demo_sys = (Inr x, s')"
    using demo_xsk by blast
  from Xsk_create_safe [OF demo_nonnull c] c show ?thesis by auto
qed

text \<open>
  C34. Binding: the socket is bound in exactly one of the two modes, in zero-copy mode only if that
  was asked for, with the wakeup flag as configured, and the flags reported are those of the bind call
  that succeeded, which is the last call but for a log line.
\<close>

theorem bind_socket_mode:
  assumes "bind_socket os cfg fd i s = (Inr flags, s')"
  shows "(flags AND XDP_ZEROCOPY \<noteq> 0) \<noteq> (flags AND XDP_COPY \<noteq> 0) \<and>
    (flags AND XDP_USE_NEED_WAKEUP \<noteq> 0 \<longleftrightarrow> xc_need_wakeup cfg) \<and>
    (flags AND XDP_ZEROCOPY \<noteq> 0 \<longrightarrow> xc_zero_copy cfg) \<and>
    (\<exists>t msg r. sys_trace s' = t @ [(Bind fd i (xc_queue_id cfg) flags, 0), (Println Stderr msg, r)])"
  using bind_socket_flags [OF assms] bind_socket_Inr [OF assms] by (simp add: bound_with_def)

theorem bind_socket_mode_witness:
  "\<exists>flags s'. bind_socket demo_os (xsk_config demo_args) 5 2 demo_sys = (Inr flags, s') \<and>
    (flags AND XDP_ZEROCOPY \<noteq> 0) \<noteq> (flags AND XDP_COPY \<noteq> 0)"
proof -
  have "\<exists>flags s'. bind_socket demo_os (xsk_config demo_args) 5 2 demo_sys = (Inr flags, s')"
    by (simp add: bind_socket_def bind_copy_def step_defs demo_os_def xsk_config_def Let_def)
  then obtain flags s' where "bind_socket demo_os (xsk_config demo_args) 5 2 demo_sys = (Inr flags, s')" by blast
  from bind_socket_mode [OF this] this show ?thesis by blast
qed

text \<open>
  C35. Creating the memory area: a failure leaves no mapping behind. On success the area is mapped
  and has the size frames times frame size, computed without overflow; huge pages are reported only
  if they were asked for. An exception can only be that of a log line, and it leaves the area mapped:
  the pointer has no owner yet.
\<close>

theorem Umem_create_safe:
  assumes "Umem_create os cfg s = (res, s')"
  shows "case res of
      Inl (Failed e) \<Rightarrow> holds_after s {#} s'
    | Inl (Thrown e) \<Rightarrow> \<exists>b. b \<noteq> MAP_FAILED \<and> holds_after s {#Mapping b (total_size cfg)#} s' \<and>
        (\<exists>t msg r. sys_trace s' = t @ [(Println Stderr msg, r)] \<and> r < 0)
    | Inr u \<Rightarrow> holds_after s {#Mapping (um_base u) (um_size u)#} s' \<and> um_base u \<noteq> MAP_FAILED \<and> um_cfg u = cfg \<and>
        unat (um_size u) = unat (uc_num_frames cfg) * unat (uc_frame_size cfg) \<and>
        (um_uses_hugetlb u \<longrightarrow> uc_use_huge_pages cfg)"
  using Umem_create_holds [OF assms] by (auto simp: total_size_exact split: sum.splits failure.splits)

theorem Umem_create_safe_witness:
  "\<exists>u s'. Umem_create demo_os (umem_config demo_args) demo_sys = (Inr u, s') \<and> unat (um_size u) = 16777216"
proof -
  obtain u s' where c: "Umem_create demo_os (umem_config demo_args) demo_sys = (Inr u, s')" using demo_umem by blast
  have "unat (uc_num_frames (umem_config demo_args)) * unat (uc_frame_size (umem_config demo_args)) = 16777216"
    by (simp add: umem_config_def NUM_FRAMES_def FRAME_SIZE_def)
  with Umem_create_safe [OF c] c show ?thesis by auto
qed

section \<open>The XDP program\<close>

text \<open>
  C36. The XDP program is its specification: it never loads outside the packet, and it redirects a
  packet exactly if an IPv4 header behind at most two VLAN tags is complete and its source is the
  configured address; every other packet is passed on.
\<close>

theorem xdp_filter_ip_correct:
  "xdp_filter_ip target redirect q f =
     Some (case ip_offset f of
             Some off \<Rightarrow> if target = Some (source_ip f off) then redirect q XDP_PASS else XDP_PASS
           | None \<Rightarrow> XDP_PASS)"
  by (rule xdp_filter_ip_spec)

text \<open>
  C37. Filter and reflector together: a frame that the reflector answers is redirected by the filter
  exactly if it comes from the configured address, and then the answer is sent to that address.
\<close>

theorem filtered_frames_answered:
  assumes "reflect_swap f = Some (True, f')"
  shows "xdp_filter_ip (Some ip) (\<lambda>_ _. XDP_REDIRECT) q f = Some (if source_ip f 14 = ip then XDP_REDIRECT else XDP_PASS) \<and>
    (xdp_filter_ip (Some ip) (\<lambda>_ _. XDP_REDIRECT) q f = Some XDP_REDIRECT \<longrightarrow> dest_ip f' 14 = ip)"
proof -
  from assms have ok: "supported f" "f' = reflected f" by (auto simp: reflect_swap_spec split: if_splits)
  then show ?thesis
    using reflected_addresses(1) [OF ok(1)] by (auto simp: xdp_filter_ip_spec supported_ip_offset)
qed

theorem filtered_frames_answered_witness:
  "xdp_filter_ip (Some (source_ip datagram 14)) (\<lambda>_ _. XDP_REDIRECT) 0 datagram = Some XDP_REDIRECT \<and>
   dest_ip (reflected datagram) 14 = source_ip datagram 14"
proof -
  have "supported datagram" by code_simp
  then have "reflect_swap datagram = Some (True, reflected datagram)" by (simp add: reflect_swap_spec)
  from filtered_frames_answered [OF this, of "source_ip datagram 14" 0] show ?thesis by simp
qed

section \<open>Command line and calibration\<close>

text \<open>
  C38. The command line can express every choice of arguments with a CPU from -1 (no CPU chosen) on:
  parsing the rendered arguments gives them back, for any program name, and prints nothing.
\<close>

theorem parse_args_roundtrip:
  assumes "- 1 \<le> a_cpu_pin a" "a_cpu_pin a < 2 ^ 31"
  shows "parse_args os prog (render_args a) s = (Inr (Some a), s)"
  using parse_render [OF assms] .

theorem parse_args_roundtrip_witness:
  "parse_args demo_os ''afxdp'' (render_args (demo_args\<lparr>a_queue := 12, a_cpu_pin := 3\<rparr>)) demo_sys =
    (Inr (Some (demo_args\<lparr>a_queue := 12, a_cpu_pin := 3\<rparr>)), demo_sys)"
  by (rule parse_args_roundtrip) simp_all

text \<open>
  C39. Calibration returns as soon as a sleep is not interrupted. A result is only given for a
  processor with \<open>rdtscp\<close> and an invariant counter that advanced; its period is usable, and the timer
  overheads are the least and the median of the measured pairs.
\<close>

theorem calibrate_tsc_result:
  assumes "te_nanosleep E j \<noteq> Some EINTR"
  shows "\<exists>res. calibrate_tsc F E = Some res \<and>
    (\<forall>cal. res = Inr cal \<longrightarrow> cpu_has E 0x80000001 27 \<and> cpu_has E 0x80000007 8 \<and> te_rdtsc E 0 < te_rdtsc E 1 \<and>
       fp_usable F (ns_per_tick cal) \<and> pair_min_ticks cal = Min (set (timer_pairs E)) \<and>
       pair_median_ticks cal = sort (timer_pairs E) ! 128)"
proof -
  from calibrate_tsc_returns [OF assms, of F] obtain res where res: "calibrate_tsc F E = Some res" by blast
  have "cpu_has E 0x80000001 27 \<and> cpu_has E 0x80000007 8 \<and> te_rdtsc E 0 < te_rdtsc E 1 \<and>
      fp_usable F (ns_per_tick cal) \<and> pair_min_ticks cal = Min (set (timer_pairs E)) \<and>
      pair_median_ticks cal = sort (timer_pairs E) ! 128" if "res = Inr cal" for cal
  proof -
    from res that obtain t0 t1 where cpu: "cpu_has E 0x80000001 27" "cpu_has E 0x80000007 8"
      and fin: "finish_calibration F E t0 t1 = Inr cal"
      by (auto simp: calibrate_tsc_def split: if_splits sum.splits bind_splits)
    from finish_calibration_Inr [OF fin] cpu show ?thesis by blast
  qed
  with res show ?thesis by blast
qed

theorem calibrate_tsc_result_witness:
  "\<exists>res. calibrate_tsc (ma_fp demo_machine) (ma_calib demo_machine) = Some res"
proof -
  have "te_nanosleep (ma_calib demo_machine) 0 \<noteq> Some EINTR" by (simp add: demo_machine_def)
  from calibrate_tsc_result [OF this] show ?thesis by blast
qed

text \<open>
  C40. The parser throws exactly if some complete options are followed by \<open>-q\<close> or \<open>-c\<close> and a text that
  is not a number of the range; and then the program ends abnormally: \<open>parse_args\<close> is called outside
  the \<open>try\<close> block of \<open>main\<close>, so nothing is printed, no call is made and no exit code returned.
\<close>

theorem bad_number_aborts:
  "(parse_loop argv default_args False = Inl e \<longleftrightarrow>
     (\<exists>opts x opt v rest. argv = opts @ opt # v # rest \<and> parse_loop opts default_args False = Inr (Some x) \<and>
        (opt = ''-q'' \<and> stoul v = Inl e \<or> opt = ''-c'' \<and> stoi v = Inl e))) \<and>
   (parse_loop argv default_args False = Inl e \<longrightarrow> main_program M G prog argv sg s = Some (Abort e, sg, s))"
proof -
  have "main_program M G prog argv sg s = Some (Abort e, sg, s)" if "parse_loop argv default_args False = Inl e"
    using that by (simp add: main_program_def parse_args_def)
  with parse_loop_bad_number [of argv default_args False e] show ?thesis
    unfolding bad_number_after_def bad_number_def by blast
qed

theorem bad_number_aborts_witness:
  "main_program demo_machine \<lparr>so_emptyset = (0, 0), so_int = (0, 0), so_term = (0, 0), so_restore = (0, 0)\<rparr>
     ''afxdp'' [''-r'', ''-f'', ''10.0.0.1'', ''-q'', ''all''] \<lparr>on_int = Previous, on_term = Previous\<rparr> demo_sys =
   Some (Abort invalid_argument, \<lparr>on_int = Previous, on_term = Previous\<rparr>, demo_sys)"
proof -
  have "stoul ''all'' = Inl invalid_argument" by code_simp
  then have "parse_loop [''-r'', ''-f'', ''10.0.0.1'', ''-q'', ''all''] default_args False = Inl invalid_argument"
    by (simp add: parse_loop.simps)
  with bad_number_aborts [of "[''-r'', ''-f'', ''10.0.0.1'', ''-q'', ''all'']" invalid_argument] show ?thesis by blast
qed

end
